(* ===== verification/Prelude.thy ===== *)
theory Prelude
  imports Main "HOL-Library.Word" "HOL-Library.Monad_Syntax"
begin

text \<open>
  Shared ground of the development.  The C code works on fixed-width integers and on a heap of
  records linked by pointers; the theories below share the type names for both, the calculus that
  is used to reason about code that may dereference a bad pointer, and the facts on words and lists
  which several components need.

  A C function that reads or writes the heap is modelled as a function on an explicit state which
  returns \<open>None\<close> when the code would dereference a NULL or freed pointer, and otherwise the result
  paired with the new state.  The statements of the C body are composed with the do-notation of the
  option type.  \<open>okay m Q\<close> says that such a computation is defined and that its outcome satisfies
  \<open>Q\<close>: it is the weakest precondition for total correctness.
\<close>

unbundle bit_operations_syntax

type_synonym u8 = "8 word"
type_synonym u16 = "16 word"
type_synonym u32 = "32 word"
type_synonym u64 = "64 word"
type_synonym addr = nat
type_synonym ptr = "addr option"

named_theorems wp \<open>weakest preconditions of the operations of the model\<close>
named_theorems fields \<open>what an operation leaves unchanged, or how it changes one field\<close>


section \<open>Weakest preconditions for computations that may be undefined\<close>

definition okay :: "'a option \<Rightarrow> ('a \<Rightarrow> bool) \<Rightarrow> bool" where
  "okay m Q \<longleftrightarrow> (case m of None \<Rightarrow> False | Some x \<Rightarrow> Q x)"

lemma okay_Some [simp]: "okay (Some x) Q = Q x"
  by (simp add: okay_def)

lemma okay_None [simp]: "\<not> okay None Q"
  by (simp add: okay_def)

lemma okay_bind: "okay (Option.bind m f) Q = okay m (\<lambda>x. okay (f x) Q)"
  by (auto simp: okay_def split: option.splits)

lemma okay_iff: "okay m Q \<longleftrightarrow> (\<exists>x. m = Some x \<and> Q x)"
  by (auto simp: okay_def split: option.splits)

lemma okayE [elim?]:
  assumes "okay m Q"
  obtains x where "m = Some x" "Q x"
  using assms by (auto simp: okay_iff)

lemma okay_conseq:
  assumes "okay m P" and "\<And>x. P x \<Longrightarrow> Q x"
  shows "okay m Q"
  using assms by (auto simp: okay_iff)

lemma okay_conj: "okay m (\<lambda>x. P x \<and> Q x) \<longleftrightarrow> okay m P \<and> okay m Q"
  by (auto simp: okay_iff)

lemma okay_SomeD: "okay m Q \<Longrightarrow> m = Some x \<Longrightarrow> Q x"
  by simp

lemma okay_bindI:
  assumes "okay m P" and "\<And>x. P x \<Longrightarrow> okay (f x) Q"
  shows "okay (Option.bind m f) Q"
  using assms by (auto simp: okay_iff okay_bind)


section \<open>Bits of machine words\<close>

lemma bit_word_ext: "(v = w) \<longleftrightarrow> (\<forall>i < LENGTH('a). bit v i = bit w i)" for v w :: "'a::len word"
  by (auto intro: bit_word_eqI)

lemma bit_power_2_iff:
  "n < LENGTH('a) \<Longrightarrow> bit (2 ^ n :: 'a::len word) i \<longleftrightarrow> i = n"
  by (auto simp: bit_exp_iff)

lemma and_power_2_eq_0_iff:
  fixes w :: "'a::len word"
  assumes "n < LENGTH('a)"
  shows "w AND 2 ^ n = 0 \<longleftrightarrow> \<not> bit w n"
proof -
  have "bit (w AND 2 ^ n) i \<longleftrightarrow> bit w n \<and> i = n" for i
    using assms by (auto simp: bit_and_iff bit_power_2_iff)
  then show ?thesis
    using assms by (auto simp: bit_word_ext)
qed

lemma bit_or_power_2:
  fixes w :: "'a::len word"
  assumes "n < LENGTH('a)"
  shows "bit (w OR 2 ^ n) i \<longleftrightarrow> bit w i \<or> i = n"
  using assms by (auto simp: bit_or_iff bit_power_2_iff)

lemma bit_and_not_power_2:
  fixes w :: "'a::len word"
  assumes "n < LENGTH('a)"
  shows "bit (w AND NOT (2 ^ n)) i \<longleftrightarrow> bit w i \<and> i \<noteq> n"
  using assms bit_imp_le_length[of w i]
  by (auto simp: bit_and_iff bit_not_iff bit_power_2_iff)

lemmas bit_word_simps = and_power_2_eq_0_iff bit_or_power_2 bit_and_not_power_2

lemma word_all_ones_iff:
  fixes w :: "'a::len word"
  shows "w = - 1 \<longleftrightarrow> (\<forall>i < LENGTH('a). bit w i)"
  by (auto simp: bit_word_ext)


section \<open>Arrays of words as bit sets\<close>

text \<open>
  Every bitmap of the C code is an array of words of some width.  \<open>wbits\<close> is the set of bit numbers
  that are set in such an array, numbered through the words as the code does with a division and a
  remainder by the width.
\<close>

definition wbits :: "'a::len word list \<Rightarrow> nat set" where
  "wbits ws = {i. i < LENGTH('a) * length ws \<and> bit (ws ! (i div LENGTH('a))) (i mod LENGTH('a))}"

lemma wbits_subset: "wbits (ws :: 'a::len word list) \<subseteq> {..<LENGTH('a) * length ws}"
  by (auto simp: wbits_def)

lemma finite_wbits [simp]: "finite (wbits ws)"
  using finite_subset[OF wbits_subset] by blast

lemma wbits_replicate_0 [simp]: "wbits (replicate n 0) = {}"
  by (auto simp: wbits_def less_mult_imp_div_less mult.commute)

lemma mem_wbits_iff:
  fixes ws :: "'a::len word list"
  assumes "i < LENGTH('a) * length ws"
  shows "i \<in> wbits ws \<longleftrightarrow> bit (ws ! (i div LENGTH('a))) (i mod LENGTH('a))"
  using assms by (simp add: wbits_def)

lemma div_mod_eq_iff: "i div n = j div n \<and> i mod n = j mod n \<longleftrightarrow> i = (j::nat)"
  by (metis div_mult_mod_eq)

lemma wbits_update:
  fixes ws :: "'a::len word list"
  assumes i: "i < LENGTH('a) * length ws"
  shows "wbits (ws[i div LENGTH('a) := ws ! (i div LENGTH('a)) OR 2 ^ (i mod LENGTH('a))]) = insert i (wbits ws)"
    and "wbits (ws[i div LENGTH('a) := ws ! (i div LENGTH('a)) AND NOT (2 ^ (i mod LENGTH('a)))]) = wbits ws - {i}"
proof -
  have k: "i div LENGTH('a) < length ws"
    using i by (simp add: less_mult_imp_div_less mult.commute)
  have upd: "bit (ws[i div LENGTH('a) := w] ! (j div LENGTH('a))) (j mod LENGTH('a)) =
      (if j div LENGTH('a) = i div LENGTH('a) then bit w (j mod LENGTH('a))
       else bit (ws ! (j div LENGTH('a))) (j mod LENGTH('a)))" for j w
    using k by (simp add: nth_list_update)
  show "wbits (ws[i div LENGTH('a) := ws ! (i div LENGTH('a)) OR 2 ^ (i mod LENGTH('a))]) = insert i (wbits ws)"
    using i by (auto simp: wbits_def upd bit_or_power_2 div_mod_eq_iff[of _ "LENGTH('a)" i, symmetric] split: if_splits)
  show "wbits (ws[i div LENGTH('a) := ws ! (i div LENGTH('a)) AND NOT (2 ^ (i mod LENGTH('a)))]) = wbits ws - {i}"
    using i by (auto simp: wbits_def upd bit_and_not_power_2 div_mod_eq_iff[of _ "LENGTH('a)" i, symmetric] split: if_splits)
qed


section \<open>Lists as the intrusive lists of the C code\<close>

lemma find_Some_mem: "find P xs = Some x \<Longrightarrow> x \<in> set xs \<and> P x"
  by (auto simp: find_Some_iff)

lemma find_upt_Some: "find P [0..<n] = Some i \<longleftrightarrow> i < n \<and> P i \<and> (\<forall>j<i. \<not> P j)"
  by (auto simp: find_Some_iff)

lemma find_upt_cases:
  obtains "find P [0..<n] = None" "\<forall>i<n. \<not> P i"
  | i where "find P [0..<n] = Some i" "i < n" "P i" "\<forall>j<i. \<not> P j"
  by (cases "find P [0..<n]") (auto simp: find_None_iff find_upt_Some)

lemma remove1_append_notin: "x \<notin> set xs \<Longrightarrow> remove1 x (xs @ x # ys) = xs @ ys"
  by (simp add: remove1_append)

lemma length_remove1_Suc: "x \<in> set xs \<Longrightarrow> Suc (length (remove1 x xs)) = length xs"
  by (induction xs) auto



section \<open>Conversions\<close>

lemma nat_1_plus_int [simp]: "nat (1 + int n) = Suc n"
  by simp

lemma unat_of_nat_u32: "i < 2 ^ 32 \<Longrightarrow> unat (of_nat i :: u32) = i"
  by (simp add: unsigned_of_nat take_bit_nat_eq_self)

lemma of_nat_u32_eq_iff: "j < 2 ^ 32 \<Longrightarrow> k < 2 ^ 32 \<Longrightarrow> (of_nat j = (of_nat k :: u32)) \<longleftrightarrow> j = k"
  by (metis unat_of_nat_u32)

lemma unat_lt_u32: "unat (w :: u32) < 2 ^ 32"
proof -
  have "unat w < 2 ^ LENGTH(32)" by (rule unsigned_less)
  then show ?thesis by simp
qed

lemma unat_lt_u64: "unat (w :: u64) < 2 ^ 64"
proof -
  have "unat w < 2 ^ LENGTH(64)" by (rule unsigned_less)
  then show ?thesis by simp
qed

lemma unat_ucast_u64 [simp]: "unat (ucast (w :: u32) :: u64) = unat w"
proof -
  have "unat w < 2 ^ 64" using unat_lt_u32[of w] by simp
  then show ?thesis by (simp add: unsigned_ucast_eq take_bit_nat_eq_self)
qed


section \<open>Little-endian bytes\<close>

primrec le_nat :: "u8 list \<Rightarrow> nat" where
  "le_nat [] = 0"
| "le_nat (b # bs) = unat b + 256 * le_nat bs"

primrec le_bytes :: "nat \<Rightarrow> nat \<Rightarrow> u8 list" where
  "le_bytes 0 n = []"
| "le_bytes (Suc k) n = of_nat n # le_bytes k (n div 256)"

lemma length_le_bytes [simp]: "length (le_bytes k n) = k"
  by (induction k arbitrary: n) simp_all

lemma le_nat_le_bytes: "le_nat (le_bytes k n) = n mod 256 ^ k"
proof (induction k arbitrary: n)
  case (Suc k)
  have "unat (of_nat n :: u8) = n mod 256"
    by (simp add: unsigned_of_nat take_bit_eq_mod)
  then show ?case
    using Suc mod_mult2_eq[of n 256 "256 ^ k"] by simp
qed simp

definition field_u32 :: "nat \<Rightarrow> u8 list \<Rightarrow> u32" where
  "field_u32 off bs = of_nat (le_nat (take 4 (drop off bs)))"

definition field_u64 :: "nat \<Rightarrow> u8 list \<Rightarrow> u64" where
  "field_u64 off bs = of_nat (le_nat (take 8 (drop off bs)))"

lemma field_le_bytes:
  "take 4 (drop off bs) = le_bytes 4 (unat w) \<Longrightarrow> field_u32 off bs = w"
  "take 8 (drop off bs) = le_bytes 8 (unat x) \<Longrightarrow> field_u64 off bs = x"
  using unat_lt_u32[of w] unat_lt_u64[of x] by (simp_all add: field_u32_def field_u64_def le_nat_le_bytes)

end
