(* ===== verification/Dlist.thy ===== *)
theory Dlist
  imports Prelude
begin

text \<open>
  The intrusive circular doubly linked list of \<open>libteeos/include/tee/dlist.h\<close>, on which every list
  of the global task and of the driver manager is built.  The heap gives the \<open>prev\<close> and \<open>next\<close> field of every
  node address; each operation is the sequence of field assignments of the C function, in order.
  \<open>is_dlist h head xs\<close> says that the nodes \<open>xs\<close>, in this order, form a well-formed list with head
  node \<open>head\<close>.  The operations are shown to implement the operations on HOL lists which the other
  theories use for \<open>service_list\<close>, \<open>session_list\<close>, the agent lists and the driver node lists, and the
  iteration macros are shown to end and to visit exactly the nodes of the list, also when the
  loop body deletes the current node.
\<close>

section \<open>The operations\<close>

record dheap =
  dl_prev :: "addr \<Rightarrow> addr"
  dl_next :: "addr \<Rightarrow> addr"

definition set_prev :: "dheap \<Rightarrow> addr \<Rightarrow> addr \<Rightarrow> dheap" where
  "set_prev h a v = h\<lparr>dl_prev := (dl_prev h)(a := v)\<rparr>"

definition set_next :: "dheap \<Rightarrow> addr \<Rightarrow> addr \<Rightarrow> dheap" where
  "set_next h a v = h\<lparr>dl_next := (dl_next h)(a := v)\<rparr>"

definition dlist_init :: "dheap \<Rightarrow> addr \<Rightarrow> dheap" where
  "dlist_init h head = (
    let h = set_prev h head head;
        h = set_next h head head
    in h)"

definition dlist_empty :: "dheap \<Rightarrow> addr \<Rightarrow> bool" where
  "dlist_empty h head \<longleftrightarrow> dl_next h head = head"

definition dlist_get_first :: "dheap \<Rightarrow> addr \<Rightarrow> addr" where
  "dlist_get_first h head = dl_next h head"

definition dlist_get_last :: "dheap \<Rightarrow> addr \<Rightarrow> addr" where
  "dlist_get_last h head = dl_prev h head"

definition dlist_insert :: "dheap \<Rightarrow> addr \<Rightarrow> addr \<Rightarrow> dheap" where
  "dlist_insert h pos node = (
    let tmp = dl_next h pos;
        h = set_prev h tmp node;
        h = set_prev h node pos;
        h = set_next h node (dl_next h pos);
        h = set_next h pos node
    in h)"

definition dlist_insert_head :: "dheap \<Rightarrow> addr \<Rightarrow> addr \<Rightarrow> dheap" where
  "dlist_insert_head h node head = dlist_insert h head node"

definition dlist_insert_tail :: "dheap \<Rightarrow> addr \<Rightarrow> addr \<Rightarrow> dheap" where
  "dlist_insert_tail h node head = (
    let tmp = dlist_get_last h head
    in dlist_insert h tmp node)"

definition dlist_delete :: "dheap \<Rightarrow> addr \<Rightarrow> dheap" where
  "dlist_delete h node = (
    let tmp = dl_prev h node;
        h = set_next h tmp (dl_next h node);
        tmp = dl_next h node;
        h = set_prev h tmp (dl_prev h node)
    in dlist_init h node)"

definition dlist_replace :: "dheap \<Rightarrow> addr \<Rightarrow> addr \<Rightarrow> dheap" where
  "dlist_replace h old_node new_node = (
    let h = set_prev h new_node (dl_prev h old_node);
        h = set_next h new_node (dl_next h old_node);
        tmp = dl_prev h old_node;
        h = set_next h tmp new_node;
        tmp = dl_next h old_node;
        h = set_prev h tmp new_node
    in h)"

definition dlist_get_prev :: "dheap \<Rightarrow> addr \<Rightarrow> addr" where
  "dlist_get_prev h node = dl_prev h node"

definition dlist_get_next :: "dheap \<Rightarrow> addr \<Rightarrow> addr" where
  "dlist_get_next h node = dl_next h node"

text \<open>
  The iteration macros, with the body of the loop as a function on the heap and a further state.
  A loop on a malformed list need not end; it is then \<open>None\<close>.
\<close>

partial_function (option) for_each_from ::
  "(addr \<Rightarrow> dheap \<Rightarrow> 's \<Rightarrow> dheap \<times> 's) \<Rightarrow> addr \<Rightarrow> addr \<Rightarrow> dheap \<Rightarrow> 's \<Rightarrow> (dheap \<times> 's) option" where
  "for_each_from body head pos h s =
    (if pos = head then Some (h, s)
     else (let (h, s) = body pos h s in for_each_from body head (dl_next h pos) h s))"

declare for_each_from.simps [code]

definition dlist_for_each ::
  "(addr \<Rightarrow> dheap \<Rightarrow> 's \<Rightarrow> dheap \<times> 's) \<Rightarrow> addr \<Rightarrow> dheap \<Rightarrow> 's \<Rightarrow> (dheap \<times> 's) option" where
  "dlist_for_each body head h s = for_each_from body head (dl_next h head) h s"

partial_function (option) for_each_prev_from ::
  "(addr \<Rightarrow> dheap \<Rightarrow> 's \<Rightarrow> dheap \<times> 's) \<Rightarrow> addr \<Rightarrow> addr \<Rightarrow> dheap \<Rightarrow> 's \<Rightarrow> (dheap \<times> 's) option" where
  "for_each_prev_from body head pos h s =
    (if pos = head then Some (h, s)
     else (let (h, s) = body pos h s in for_each_prev_from body head (dl_prev h pos) h s))"

declare for_each_prev_from.simps [code]

definition dlist_for_each_prev ::
  "(addr \<Rightarrow> dheap \<Rightarrow> 's \<Rightarrow> dheap \<times> 's) \<Rightarrow> addr \<Rightarrow> dheap \<Rightarrow> 's \<Rightarrow> (dheap \<times> 's) option" where
  "dlist_for_each_prev body head h s = for_each_prev_from body head (dl_prev h head) h s"

partial_function (option) for_each_safe_from ::
  "(addr \<Rightarrow> dheap \<Rightarrow> 's \<Rightarrow> dheap \<times> 's) \<Rightarrow> addr \<Rightarrow> addr \<Rightarrow> addr \<Rightarrow> dheap \<Rightarrow> 's \<Rightarrow> (dheap \<times> 's) option" where
  "for_each_safe_from body head pos n h s =
    (if pos = head then Some (h, s)
     else (let (h, s) = body pos h s in for_each_safe_from body head n (dl_next h n) h s))"

declare for_each_safe_from.simps [code]

definition dlist_for_each_safe ::
  "(addr \<Rightarrow> dheap \<Rightarrow> 's \<Rightarrow> dheap \<times> 's) \<Rightarrow> addr \<Rightarrow> dheap \<Rightarrow> 's \<Rightarrow> (dheap \<times> 's) option" where
  "dlist_for_each_safe body head h s =
    (let pos = dl_next h head; n = dl_next h pos in for_each_safe_from body head pos n h s)"


section \<open>Well-formed lists\<close>

fun links :: "dheap \<Rightarrow> addr \<Rightarrow> addr list \<Rightarrow> addr \<Rightarrow> bool" where
  "links h a [] b \<longleftrightarrow> dl_next h a = b \<and> dl_prev h b = a"
| "links h a (x # xs) b \<longleftrightarrow> dl_next h a = x \<and> dl_prev h x = a \<and> links h x xs b"

definition is_dlist :: "dheap \<Rightarrow> addr \<Rightarrow> addr list \<Rightarrow> bool" where
  "is_dlist h head xs \<longleftrightarrow> distinct (head # xs) \<and> links h head xs head"

lemma set_prev_next [simp]:
  "dl_prev (set_prev h a v) = (dl_prev h)(a := v)"  "dl_next (set_prev h a v) = dl_next h"
  "dl_next (set_next h a v) = (dl_next h)(a := v)"  "dl_prev (set_next h a v) = dl_prev h"
  by (simp_all add: set_prev_def set_next_def)

lemma links_append [simp]: "links h a (xs @ y # ys) b \<longleftrightarrow> links h a xs y \<and> links h y ys b"
  by (induction xs arbitrary: a) auto

lemma links_cong:
  assumes "\<And>n. n \<in> set (a # xs) \<Longrightarrow> dl_next h' n = dl_next h n"
    and "\<And>n. n \<in> set (xs @ [b]) \<Longrightarrow> dl_prev h' n = dl_prev h n"
  shows "links h' a xs b = links h a xs b"
  using assms by (induction xs arbitrary: a) auto

lemma links_set_prev [simp]: "n \<notin> set xs \<Longrightarrow> n \<noteq> b \<Longrightarrow> links (set_prev h n v) a xs b = links h a xs b"
  by (rule links_cong) auto

lemma links_set_next [simp]: "n \<notin> set xs \<Longrightarrow> n \<noteq> a \<Longrightarrow> links (set_next h n v) a xs b = links h a xs b"
  by (rule links_cong) auto

lemma links_next: "links h a xs b \<Longrightarrow> dl_next h a = hd (xs @ [b])"
  by (cases xs) auto

lemma links_prev: "links h a xs b \<Longrightarrow> dl_prev h b = last (a # xs)"
  by (induction xs arbitrary: a) auto

lemma links_next_last: "links h a (xs @ ys) b \<Longrightarrow> dl_next h (last (a # xs)) = hd (ys @ [b])"
  by (induction xs arbitrary: a) (auto dest: links_next)

lemma is_dlist_init [simp]: "is_dlist (dlist_init h a) a []"
  by (simp add: is_dlist_def dlist_init_def)

lemma is_dlist_empty: "is_dlist h head xs \<Longrightarrow> dlist_empty h head \<longleftrightarrow> xs = []"
  by (cases xs) (auto simp: is_dlist_def dlist_empty_def)

lemma is_dlist_first: "is_dlist h head xs \<Longrightarrow> dlist_get_first h head = hd (xs @ [head])"
  by (simp add: is_dlist_def dlist_get_first_def links_next)

lemma is_dlist_last: "is_dlist h head xs \<Longrightarrow> dlist_get_last h head = last (head # xs)"
  using links_prev by (simp add: is_dlist_def dlist_get_last_def)

text \<open>
  The effect of the three relinking operations on the two fields, with all reads resolved.  A chain
  that contains none of the updated nodes is unaffected.
\<close>

lemma dlist_insert_effect:
  "dl_next (dlist_insert h pos node) = (dl_next h)(node := dl_next h pos, pos := node)"
  "dl_prev (dlist_insert h pos node) = (dl_prev h)(dl_next h pos := node, node := pos)"
  by (simp_all add: dlist_insert_def Let_def)

lemma dlist_delete_effect:
  "dl_next (dlist_delete h node) = (dl_next h)(dl_prev h node := dl_next h node, node := node)"
  "dl_prev (dlist_delete h node) = (dl_prev h)(dl_next h node := dl_prev h node, node := node)"
  by (simp_all add: dlist_delete_def dlist_init_def Let_def)

lemma dlist_replace_effect:
  assumes "new_node \<noteq> old_node" "dl_prev h old_node \<noteq> old_node"
  shows "dl_next (dlist_replace h old_node new_node) =
      (dl_next h)(new_node := dl_next h old_node, dl_prev h old_node := new_node)"
    and "dl_prev (dlist_replace h old_node new_node) =
      (dl_prev h)(new_node := dl_prev h old_node, dl_next h old_node := new_node)"
  using assms by (auto simp: dlist_replace_def Let_def)

lemma links_frame:
  assumes "dl_next h' = (dl_next h)(u := v, u' := v')" and "dl_prev h' = (dl_prev h)(w := x, w' := x')"
    and "u \<notin> set (a # xs)" "u' \<notin> set (a # xs)" "w \<notin> set (xs @ [b])" "w' \<notin> set (xs @ [b])"
  shows "links h' a xs b = links h a xs b"
  using assms by (intro links_cong) auto

lemma links_insert:
  assumes "links h a (xs @ ys) b" "pos = last (a # xs)"
    and "distinct (a # xs @ ys)" "b \<notin> set (xs @ ys)" "node \<notin> set (a # b # xs @ ys)"
  shows "links (dlist_insert h pos node) a (xs @ node # ys) b"
  using assms
proof (induction xs arbitrary: a)
  case Nil
  have "links (dlist_insert h a node) y zs b = links h y zs b" if "ys = y # zs" for y zs
    by (rule links_frame[OF dlist_insert_effect]) (use Nil that in auto)
  with Nil show ?case
    by (cases ys) (auto simp: dlist_insert_effect)
next
  case (Cons x xs)
  have "dl_next h pos \<in> set (ys @ [b])"
    using Cons.prems links_next_last[of h x xs ys b] by (cases ys) auto
  moreover have "pos \<in> set (x # xs)"
    using Cons.prems(2) by auto
  ultimately have "a \<noteq> pos" "a \<noteq> node" "x \<noteq> dl_next h pos" "x \<noteq> node"
    using Cons.prems(3-5) by auto
  moreover have "links (dlist_insert h pos node) x (xs @ node # ys) b"
    using Cons.prems by (intro Cons.IH) simp_all
  ultimately show ?case
    using Cons.prems(1) by (simp add: dlist_insert_effect)
qed

lemma links_delete:
  assumes "links h a (xs @ node # ys) b" "distinct (a # xs @ node # ys)" "b \<notin> set (xs @ node # ys)"
  shows "links (dlist_delete h node) a (xs @ ys) b"
  using assms
proof (induction xs arbitrary: a)
  case Nil
  have "links (dlist_delete h node) y zs b = links h y zs b" if "ys = y # zs" for y zs
    by (rule links_frame[OF dlist_delete_effect]) (use Nil that in auto)
  with Nil show ?case
    by (cases ys) (auto simp: dlist_delete_effect)
next
  case (Cons x xs)
  have "dl_next h node \<in> set (ys @ [b])"
    using Cons.prems links_next[of h node ys b] by (cases ys) auto
  moreover have "dl_prev h node \<in> set (x # xs)"
    using Cons.prems links_prev[of h x xs node] by auto
  ultimately have "a \<noteq> dl_prev h node" "a \<noteq> node" "x \<noteq> dl_next h node" "x \<noteq> node"
    using Cons.prems(2,3) by auto
  moreover have "links (dlist_delete h node) x (xs @ ys) b"
    using Cons.prems by (intro Cons.IH) simp_all
  ultimately show ?case
    using Cons.prems(1) by (simp add: dlist_delete_effect)
qed

lemma links_replace:
  assumes "links h a (xs @ old_node # ys) b" "distinct (a # xs @ old_node # ys)"
    and "b \<notin> set (xs @ old_node # ys)" "new_node \<notin> set (a # b # xs @ old_node # ys)"
  shows "links (dlist_replace h old_node new_node) a (xs @ new_node # ys) b"
  using assms
proof (induction xs arbitrary: a)
  case Nil
  note eff = dlist_replace_effect[of new_node old_node h]
  have "links (dlist_replace h old_node new_node) y zs b = links h y zs b" if "ys = y # zs" for y zs
    by (rule links_frame[OF eff]) (use Nil that in auto)
  with Nil eff show ?case
    by (cases ys) auto
next
  case (Cons x xs)
  have "dl_next h old_node \<in> set (ys @ [b])"
    using Cons.prems links_next[of h old_node ys b] by (cases ys) auto
  moreover have prev: "dl_prev h old_node \<in> set (x # xs)"
    using Cons.prems links_prev[of h x xs old_node] by auto
  ultimately have "a \<noteq> dl_prev h old_node" "a \<noteq> new_node" "x \<noteq> dl_next h old_node" "x \<noteq> new_node"
    "dl_prev h old_node \<noteq> old_node" "new_node \<noteq> old_node"
    using Cons.prems(2-4) by auto
  moreover have "links (dlist_replace h old_node new_node) x (xs @ new_node # ys) b"
    using Cons.prems by (intro Cons.IH) simp_all
  ultimately show ?case
    using Cons.prems(1) by (simp add: dlist_replace_effect)
qed

lemma is_dlist_insert:
  "is_dlist h head (xs @ ys) \<Longrightarrow> pos = last (head # xs) \<Longrightarrow> node \<notin> set (head # xs @ ys) \<Longrightarrow>
    is_dlist (dlist_insert h pos node) head (xs @ node # ys)"
  using links_insert[of h head xs ys head pos node] by (auto simp: is_dlist_def)

lemma is_dlist_insert_tail:
  "is_dlist h head xs \<Longrightarrow> node \<notin> set (head # xs) \<Longrightarrow>
    is_dlist (dlist_insert_tail h node head) head (xs @ [node])"
  using is_dlist_insert[of h head xs "[]" "last (head # xs)" node] is_dlist_last[of h head xs]
  by (simp add: dlist_insert_tail_def)

lemma is_dlist_insert_head:
  "is_dlist h head xs \<Longrightarrow> node \<notin> set (head # xs) \<Longrightarrow>
    is_dlist (dlist_insert_head h node head) head (node # xs)"
  using is_dlist_insert[of h head "[]" xs head node]
  by (simp add: dlist_insert_head_def)

lemma is_dlist_delete:
  "is_dlist h head (xs @ node # ys) \<Longrightarrow> is_dlist (dlist_delete h node) head (xs @ ys)"
  using links_delete[of h head xs node ys head] by (auto simp: is_dlist_def simp del: links_append)

lemma dlist_delete_node [simp]: "is_dlist (dlist_delete h node) node []"
  by (simp add: dlist_delete_def Let_def)

lemma is_dlist_delete_remove1:
  assumes "is_dlist h head xs" and "node \<in> set xs"
  shows "is_dlist (dlist_delete h node) head (remove1 node xs)"
proof -
  obtain us vs where xs: "xs = us @ node # vs" and "node \<notin> set us"
    using split_list_first[OF assms(2)] by blast
  then show ?thesis
    using is_dlist_delete assms(1) by (simp add: remove1_append_notin)
qed

lemma is_dlist_replace:
  "is_dlist h head (xs @ old_node # ys) \<Longrightarrow> new_node \<notin> set (head # xs @ old_node # ys) \<Longrightarrow>
    is_dlist (dlist_replace h old_node new_node) head (xs @ new_node # ys)"
  using links_replace[of h head xs old_node ys head new_node]
  by (auto simp: is_dlist_def simp del: links_append)

lemma dlist_ops_other:
  assumes "is_dlist h head' ys" "n \<notin> set (head' # ys)"
  shows "is_dlist (dlist_init h n) head' ys"
  using assms by (simp add: is_dlist_def dlist_init_def)

lemma is_dlist_insert_tail_other:
  assumes "is_dlist h head xs" "is_dlist h head' ys" "set (node # head # xs) \<inter> set (head' # ys) = {}"
  shows "is_dlist (dlist_insert_tail h node head) head' ys"
proof -
  have "last (head # xs) \<in> set (head # xs)"
    by (rule last_in_set) simp
  moreover have "dl_next h (last (head # xs)) = head"
    using assms(1) links_next_last[of h head xs "[]" head] by (simp add: is_dlist_def)
  ultimately have "links (dlist_insert h (last (head # xs)) node) head' ys head' = links h head' ys head'"
    using assms(3) by (intro links_frame[OF dlist_insert_effect]) auto
  then show ?thesis
    using assms is_dlist_last[OF assms(1)] by (simp add: is_dlist_def dlist_insert_tail_def del: last.simps)
qed

lemma is_dlist_delete_other:
  assumes "is_dlist h head xs" "is_dlist h head' ys" "node \<in> set xs" "set (head # xs) \<inter> set (head' # ys) = {}"
  shows "is_dlist (dlist_delete h node) head' ys"
proof -
  obtain us vs where xs: "xs = us @ node # vs"
    using split_list[OF assms(3)] by blast
  with assms(1) have seg: "links h head us node" "links h node vs head"
    by (simp_all add: is_dlist_def)
  have "dl_prev h node \<in> set (head # xs)" "dl_next h node \<in> set (head # xs)"
    using links_prev[OF seg(1)] links_next[OF seg(2)] xs by (cases vs; auto)+
  then have "links (dlist_delete h node) head' ys head' = links h head' ys head'"
    using assms(3,4) by (intro links_frame[OF dlist_delete_effect]) auto
  then show ?thesis
    using assms(2) by (simp add: is_dlist_def)
qed


section \<open>The iteration macros\<close>

lemma for_each_from_links:
  assumes "links h a xs head" "head \<notin> set xs"
    and "\<And>n s. fst (body n h s) = h"
  shows "for_each_from body head (dl_next h a) h s = Some (h, fold (\<lambda>n s. snd (body n h s)) xs s)"
  using assms(1,2)
proof (induction xs arbitrary: a s)
  case Nil
  then show ?case by (simp add: for_each_from.simps)
next
  case (Cons x xs)
  have "body x h s = (h, snd (body x h s))"
    using assms(3)[of x s] by (simp add: prod_eq_iff)
  with Cons show ?case
    by (subst for_each_from.simps) (auto split: prod.split)
qed

lemma for_each_prev_from_links:
  assumes "links h head xs a" "head \<notin> set xs"
    and "\<And>n s. fst (body n h s) = h"
  shows "for_each_prev_from body head (dl_prev h a) h s = Some (h, fold (\<lambda>n s. snd (body n h s)) (rev xs) s)"
  using assms(1,2)
proof (induction xs arbitrary: a s rule: rev_induct)
  case Nil
  then show ?case by (simp add: for_each_prev_from.simps)
next
  case (snoc x xs)
  have "body x h s = (h, snd (body x h s))"
    using assms(3)[of x s] by (simp add: prod_eq_iff)
  with snoc show ?case
    by (subst for_each_prev_from.simps) (auto split: prod.split)
qed

text \<open>
  A loop whose body may unlink the current node.  \<open>purge P\<close> is the body of the cleanup loops of the
  repository: it deletes the current node when \<open>P\<close> holds of it, and records the node as visited.
\<close>

definition purge :: "(addr \<Rightarrow> bool) \<Rightarrow> addr \<Rightarrow> dheap \<Rightarrow> addr list \<Rightarrow> dheap \<times> addr list" where
  "purge P n h seen = (if P n then dlist_delete h n else h, seen @ [n])"

lemma for_each_safe_from_purge:
  assumes "is_dlist h head (xs @ ys)" "pos = hd (ys @ [head])" "n = dl_next h pos"
    and "\<And>x. x \<in> set xs \<Longrightarrow> \<not> P x"
  shows "\<exists>h'. for_each_safe_from (purge P) head pos n h seen = Some (h', seen @ ys) \<and>
    is_dlist h' head (xs @ filter (\<lambda>x. \<not> P x) ys)"
  using assms
proof (induction ys arbitrary: xs h pos n seen)
  case Nil
  then show ?case by (simp add: for_each_safe_from.simps)
next
  case (Cons y ys)
  define h1 where "h1 = (if P y then dlist_delete h y else h)"
  define xs1 where "xs1 = (if P y then xs else xs @ [y])"
  have n: "n = hd (ys @ [head])"
    using Cons.prems links_next[of h y ys head] by (simp add: is_dlist_def)
  have "is_dlist h1 head (xs1 @ ys)"
    using Cons.prems(1) is_dlist_delete by (simp add: h1_def xs1_def)
  moreover have "\<not> P x" if "x \<in> set xs1" for x
    using that Cons.prems(4) by (auto simp: xs1_def split: if_splits)
  ultimately obtain h' where
    "for_each_safe_from (purge P) head n (dl_next h1 n) h1 (seen @ [y]) = Some (h', (seen @ [y]) @ ys)"
    "is_dlist h' head (xs1 @ filter (\<lambda>x. \<not> P x) ys)"
    using Cons.IH[OF _ n refl] by blast
  moreover have "pos \<noteq> head"
    using Cons.prems by (auto simp: is_dlist_def)
  ultimately show ?case
    using Cons.prems(2) by (subst for_each_safe_from.simps) (cases "P y"; simp add: purge_def h1_def xs1_def)
qed

lemma dlist_for_each_visits:
  assumes "is_dlist h head xs"
  shows "dlist_for_each (\<lambda>n h seen. (h, seen @ [n])) head h seen = Some (h, seen @ xs)"
proof -
  have "fold (\<lambda>n seen. seen @ [n]) xs seen = seen @ xs"
    by (induction xs arbitrary: seen) auto
  with assms show ?thesis
    using for_each_from_links[of h head xs head "\<lambda>n h seen. (h, seen @ [n])" seen]
    by (simp add: dlist_for_each_def is_dlist_def)
qed

lemma dlist_for_each_prev_visits:
  assumes "is_dlist h head xs"
  shows "dlist_for_each_prev (\<lambda>n h seen. (h, seen @ [n])) head h seen = Some (h, seen @ rev xs)"
proof -
  have "fold (\<lambda>n seen. seen @ [n]) ys seen = seen @ ys" for ys
    by (induction ys arbitrary: seen) auto
  with assms show ?thesis
    using for_each_prev_from_links[of h head xs head "\<lambda>n h seen. (h, seen @ [n])" seen]
    by (simp add: dlist_for_each_prev_def is_dlist_def)
qed

lemma dlist_for_each_safe_purge:
  assumes "is_dlist h head xs"
  shows "\<exists>h'. dlist_for_each_safe (purge P) head h [] = Some (h', xs) \<and>
    is_dlist h' head (filter (\<lambda>x. \<not> P x) xs)"
proof -
  have "dl_next h head = hd (xs @ [head])"
    using assms links_next by (simp add: is_dlist_def)
  then show ?thesis
    using for_each_safe_from_purge[of h head "[]" xs _ _ P "[]"] assms
    by (simp add: dlist_for_each_safe_def Let_def)
qed


section \<open>The list interface\<close>

text \<open>
  What the managers rely on: a representation relation between a heap, a head node and the list of
  linked nodes, and the laws of the operations they call.  The queue discipline of the waiting
  lists (a session waits at the tail and the head of the list is served first) follows from the
  laws alone.
\<close>

locale intrusive_list =
  fixes is_list :: "'h \<Rightarrow> 'n \<Rightarrow> 'n list \<Rightarrow> bool"
    and init :: "'h \<Rightarrow> 'n \<Rightarrow> 'h"
    and empty :: "'h \<Rightarrow> 'n \<Rightarrow> bool"
    and get_first :: "'h \<Rightarrow> 'n \<Rightarrow> 'n"
    and insert_tail :: "'h \<Rightarrow> 'n \<Rightarrow> 'n \<Rightarrow> 'h"
    and delete :: "'h \<Rightarrow> 'n \<Rightarrow> 'h"
  assumes list_init: "is_list (init h head) head []"
    and list_distinct: "is_list h head xs \<Longrightarrow> distinct (head # xs)"
    and list_empty: "is_list h head xs \<Longrightarrow> empty h head \<longleftrightarrow> xs = []"
    and list_first: "is_list h head (x # xs) \<Longrightarrow> get_first h head = x"
    and list_insert_tail: "is_list h head xs \<Longrightarrow> n \<notin> set (head # xs) \<Longrightarrow> is_list (insert_tail h n head) head (xs @ [n])"
    and list_delete: "is_list h head xs \<Longrightarrow> n \<in> set xs \<Longrightarrow> is_list (delete h n) head (remove1 n xs)"
begin

definition insert_all :: "'n \<Rightarrow> 'n list \<Rightarrow> 'h \<Rightarrow> 'h" where
  "insert_all head ns h = fold (\<lambda>n h. insert_tail h n head) ns h"

fun serve :: "nat \<Rightarrow> 'n \<Rightarrow> 'h \<Rightarrow> 'n list \<times> 'h" where
  "serve 0 head h = ([], h)"
| "serve (Suc k) head h =
    (if empty h head then ([], h)
     else (let n = get_first h head; (ns, h') = serve k head (delete h n) in (n # ns, h')))"

lemma insert_all_list:
  assumes "is_list h head xs" "distinct (xs @ ns)" "head \<notin> set ns"
  shows "is_list (insert_all head ns h) head (xs @ ns)"
  using assms
proof (induction ns arbitrary: h xs)
  case Nil
  then show ?case by (simp add: insert_all_def)
next
  case (Cons n ns)
  have "is_list (insert_tail h n head) head (xs @ [n])"
    using Cons.prems list_insert_tail by auto
  then show ?case
    using Cons.IH[of "insert_tail h n head" "xs @ [n]"] Cons.prems by (auto simp: insert_all_def)
qed

lemma serve_list:
  assumes "is_list h head xs"
  shows "fst (serve k head h) = take k xs \<and> is_list (snd (serve k head h)) head (drop k xs)"
  using assms
proof (induction k arbitrary: h xs)
  case 0
  then show ?case by simp
next
  case (Suc k)
  show ?case
  proof (cases xs)
    case Nil
    with Suc.prems show ?thesis by (simp add: list_empty)
  next
    case (Cons x ys)
    then have "is_list (delete h x) head ys"
      using Suc.prems list_delete[of h head xs x] by simp
    from Suc.IH[OF this] show ?thesis
      using Suc.prems Cons list_empty[of h head xs] list_first[of h head x ys]
      by (simp add: case_prod_beta Let_def)
  qed
qed

lemma first_in_first_out:
  assumes "distinct ns" "head \<notin> set ns"
  shows "fst (serve k head (insert_all head ns (init h head))) = take k ns"
  using serve_list[OF insert_all_list[OF list_init, of ns]] assms by simp

end

lemma is_dlist_distinct: "is_dlist h head xs \<Longrightarrow> distinct (head # xs)"
  by (simp add: is_dlist_def)

interpretation dl: intrusive_list is_dlist dlist_init dlist_empty dlist_get_first dlist_insert_tail dlist_delete
proof
  show "is_dlist (dlist_insert_tail h n head) head (xs @ [n])"
    if "is_dlist h head xs" "n \<notin> set (head # xs)" for h head xs n
    using that by (rule is_dlist_insert_tail)
qed (auto simp: is_dlist_empty is_dlist_first is_dlist_delete_remove1 dest: is_dlist_distinct)


section \<open>Properties\<close>

text \<open>
  C1: The list operations of \<open>dlist.h\<close> implement the operations on sequences of nodes: on a well-formed list
  they keep the list well formed, insertion at the tail or head adds a node that is not yet linked at that end, deletion removes
  exactly the given node and leaves it an empty list of its own, and replacement puts the new node in
  the place of the old one.
\<close>
theorem dlist_refines_sequence:
  assumes "is_dlist h head (xs @ node # ys)" and "new \<notin> set (head # xs @ node # ys)"
  shows "is_dlist (dlist_insert_tail h new head) head (xs @ node # ys @ [new]) \<and>
    is_dlist (dlist_insert_head h new head) head (new # xs @ node # ys) \<and>
    is_dlist (dlist_insert h node new) head (xs @ node # new # ys) \<and>
    is_dlist (dlist_delete h node) head (xs @ ys) \<and>
    is_dlist (dlist_delete h node) node [] \<and>
    is_dlist (dlist_replace h node new) head (xs @ new # ys) \<and>
    \<not> dlist_empty h head"
  using is_dlist_insert_tail[OF assms] is_dlist_insert_head[OF assms] is_dlist_delete[OF assms(1)]
    is_dlist_replace[OF assms] is_dlist_empty[OF assms(1)]
    is_dlist_insert[of h head "xs @ [node]" ys node new] assms
  by simp

definition demo_heap :: dheap where
  "demo_heap = dlist_insert_tail (dlist_insert_tail (dlist_insert_tail
    (dlist_init \<lparr>dl_prev = (\<lambda>_. 0), dl_next = (\<lambda>_. 0)\<rparr> 1) 2 1) 3 1) 4 1"

lemma demo_heap_dlist: "is_dlist demo_heap 1 [2, 3, 4]"
  by (simp add: demo_heap_def is_dlist_def dlist_init_def dlist_insert_tail_def dlist_insert_def
      dlist_get_last_def Let_def)

theorem dlist_refines_sequence_witness:
  "is_dlist (dlist_insert_tail demo_heap 5 1) 1 [2, 3, 4, 5] \<and>
   is_dlist (dlist_delete demo_heap 3) 1 [2, 4] \<and> is_dlist (dlist_replace demo_heap 3 5) 1 [2, 5, 4]"
  using dlist_refines_sequence[of demo_heap 1 "[2]" 3 "[4]" 5] demo_heap_dlist by simp

text \<open>
  C2: A \<open>dlist_for_each_safe\<close> loop whose body deletes some of the nodes it meets ends, visits every node of
  the list exactly once and in order, and leaves a well-formed list of the nodes it did not delete.
\<close>
theorem for_each_safe_cleanup:
  assumes "is_dlist h head xs"
  shows "\<exists>h'. dlist_for_each_safe (purge P) head h [] = Some (h', xs) \<and>
    is_dlist h' head (filter (\<lambda>x. \<not> P x) xs)"
  using assms by (rule dlist_for_each_safe_purge)

theorem for_each_safe_cleanup_witness:
  "\<exists>h'. dlist_for_each_safe (purge even) 1 demo_heap [] = Some (h', [2, 3, 4]) \<and> is_dlist h' 1 [3]"
  using for_each_safe_cleanup[OF demo_heap_dlist, of even] by simp

end
