(* ===== verification/Bitmap.thy ===== *)
theory Bitmap
  imports Prelude
begin

text \<open>
  The byte bitmaps of \<open>libteeos/include/tee_bitmap.h\<close> and \<open>libteeos/src/tee/tee_bitmap.c\<close>.  A bitmap
  is the \<open>uint8_t\<close> array the pointer argument points to, \<open>None\<close> for a NULL pointer; \<open>bits\<close> is the set
  of numbers a bitmap represents.  The operations implement insertion, deletion and membership on
  that set, and \<open>get_valid_bit\<close> the search for the least number that is not in it.

  The numbers handed out by driver indexes, driver file descriptors, services and sessions all come from such
  bitmaps.  The locale \<open>id_allocator\<close> states what the owners of these bitmaps rely on; the components
  interpret it on their own allocation functions.
\<close>

section \<open>The operations\<close>

abbreviation (input) MOVE_BIT :: nat where "MOVE_BIT \<equiv> 3"
abbreviation (input) INDEX_MAX :: u32 where "INDEX_MAX \<equiv> 8"
abbreviation (input) BITMAP_MASK :: u8 where "BITMAP_MASK \<equiv> 0xFF"
abbreviation (input) INVALID_BIT :: int where "INVALID_BIT \<equiv> -1"

fun is_bit_seted :: "u8 list option \<Rightarrow> u32 \<Rightarrow> u32 \<Rightarrow> bool" where
  "is_bit_seted None bit_max b = False"
| "is_bit_seted (Some bitmap) bit_max b =
    (if b \<ge> bit_max then False
     else bitmap ! unat (drop_bit MOVE_BIT b) AND push_bit (unat (b mod INDEX_MAX)) 1 \<noteq> 0)"

fun set_bitmap :: "u8 list option \<Rightarrow> u32 \<Rightarrow> u32 \<Rightarrow> u8 list option" where
  "set_bitmap None bit_max b = None"
| "set_bitmap (Some bitmap) bit_max b =
    (if b \<ge> bit_max then Some bitmap
     else (let i = unat (drop_bit MOVE_BIT b) in
       Some (bitmap[i := (bitmap ! i) OR push_bit (unat (b mod INDEX_MAX)) 1])))"

fun clear_bitmap :: "u8 list option \<Rightarrow> u32 \<Rightarrow> u32 \<Rightarrow> u8 list option" where
  "clear_bitmap None bit_max b = None"
| "clear_bitmap (Some bitmap) bit_max b =
    (if b \<ge> bit_max then Some bitmap
     else (let i = unat (drop_bit MOVE_BIT b) in
       Some (bitmap[i := (bitmap ! i) AND NOT (push_bit (unat (b mod INDEX_MAX)) 1)])))"

text \<open>
  \<open>get_valid_bit\<close>: the outer loop over the byte indexes that are left, the inner loop over the bits of
  one byte with its \<open>break\<close>, the result converted from \<open>uint32_t\<close> to \<open>int32_t\<close>.
\<close>

fun valid_bit_from :: "u8 list \<Rightarrow> nat list \<Rightarrow> int" where
  "valid_bit_from bitmap [] = INVALID_BIT"
| "valid_bit_from bitmap (index1 # rest) =
    (if bitmap ! index1 = BITMAP_MASK then valid_bit_from bitmap rest
     else case find (\<lambda>index2. bitmap ! index1 AND push_bit index2 1 = 0) [0..<8] of
       None \<Rightarrow> valid_bit_from bitmap rest
     | Some index2 \<Rightarrow>
         (let valid_bit = sint (of_nat index1 * INDEX_MAX + of_nat index2 :: u32) in
          if valid_bit \<noteq> INVALID_BIT then valid_bit else valid_bit_from bitmap rest))"

fun get_valid_bit :: "u8 list option \<Rightarrow> u32 \<Rightarrow> int" where
  "get_valid_bit None bit_max = INVALID_BIT"
| "get_valid_bit (Some bitmap) bit_max = valid_bit_from bitmap [0..<unat (drop_bit MOVE_BIT bit_max)]"


section \<open>The set a bitmap represents\<close>

abbreviation (input) bits :: "u8 list \<Rightarrow> nat set" where
  "bits \<equiv> wbits"

lemma unat_drop_bit_3: "unat (drop_bit 3 b :: u32) = unat b div 8"
  by (simp add: drop_bit_eq_div unat_div)

lemma unat_mod_8: "unat (b mod 8 :: u32) = unat b mod 8"
  by (simp add: unat_mod)

lemmas index_simps = unat_drop_bit_3 unat_mod_8

lemma word_ge_iff_unat: "(b \<ge> m) = (unat b \<ge> unat m)" for b m :: u32
  by (simp add: word_le_nat_alt)

lemma is_bit_seted_bits:
  assumes "unat bit_max \<le> 8 * length bitmap"
  shows "is_bit_seted (Some bitmap) bit_max b \<longleftrightarrow> unat b < unat bit_max \<and> unat b \<in> bits bitmap"
  using assms by (auto simp: word_ge_iff_unat index_simps bit_word_simps wbits_def)

lemma set_bitmap_bits:
  assumes "unat bit_max \<le> 8 * length bitmap" "unat b < unat bit_max"
  shows "\<exists>bm. set_bitmap (Some bitmap) bit_max b = Some bm \<and>
    length bm = length bitmap \<and> bits bm = insert (unat b) (bits bitmap)"
  using wbits_update(1)[of "unat b" bitmap] assms by (simp add: word_ge_iff_unat index_simps Let_def)

lemma clear_bitmap_bits:
  assumes "unat bit_max \<le> 8 * length bitmap" "unat b < unat bit_max"
  shows "\<exists>bm. clear_bitmap (Some bitmap) bit_max b = Some bm \<and>
    length bm = length bitmap \<and> bits bm = bits bitmap - {unat b}"
  using wbits_update(2)[of "unat b" bitmap] assms by (simp add: word_ge_iff_unat index_simps Let_def)


section \<open>The search for a free number\<close>

lemma BITMAP_MASK_eq: "BITMAP_MASK = - 1"
  by simp

lemma find_free_bit:
  fixes w :: u8
  shows "w = BITMAP_MASK \<Longrightarrow> i < 8 \<Longrightarrow> bit w i"
    and "w \<noteq> BITMAP_MASK \<Longrightarrow>
      \<exists>i<8. find (\<lambda>i. w AND push_bit i 1 = 0) [0..<8] = Some i \<and> \<not> bit w i \<and> (\<forall>j<i. bit w j)"
proof -
  show "bit w i" if "w = BITMAP_MASK" "i < 8"
    using that word_all_ones_iff[of w] by (simp add: BITMAP_MASK_eq)
  assume "w \<noteq> BITMAP_MASK"
  then have "\<not> (\<forall>i<8. bit w i)"
    using word_all_ones_iff[of w] unfolding BITMAP_MASK_eq by simp
  moreover have "find (\<lambda>i. w AND push_bit i 1 = 0) [0..<8] = find (\<lambda>i. \<not> bit w i) [0..<8]"
    by (rule find_cong) (simp_all add: and_power_2_eq_0_iff)
  moreover have "\<exists>i<8. find (\<lambda>i. \<not> bit w i) [0..<8] = Some i \<and> \<not> bit w i \<and> (\<forall>j<i. bit w j)"
    if "\<not> (\<forall>i<8. bit w i)"
    using that by (cases rule: find_upt_cases[of "\<lambda>i. \<not> bit w i" 8]) auto
  ultimately show "\<exists>i<8. find (\<lambda>i. w AND push_bit i 1 = 0) [0..<8] = Some i \<and> \<not> bit w i \<and> (\<forall>j<i. bit w j)"
    by presburger
qed

lemma sint_of_nat_small: "k < 2 ^ 31 \<Longrightarrow> sint (of_nat k :: u32) = int k"
  by (simp add: signed_of_nat signed_take_bit_int_eq_self)

lemma sint_unat_small: "unat w < 2 ^ 31 \<Longrightarrow> sint w = int (unat w)" for w :: u32
  using sint_of_nat_small[of "unat w"] by simp

lemma byte_bits:
  assumes "k < length bitmap" "j < 8"
  shows "8 * k + j \<in> bits bitmap \<longleftrightarrow> bit (bitmap ! k) j"
  using assms by (auto simp: wbits_def)

lemma valid_bit_from_spec:
  assumes "k \<le> n" "n \<le> length bitmap" "8 * n \<le> 2 ^ 31"
  shows "valid_bit_from bitmap [k..<n] = INVALID_BIT \<and> {8 * k..<8 * n} \<subseteq> bits bitmap \<or>
    (\<exists>i. valid_bit_from bitmap [k..<n] = int i \<and> i \<in> {8 * k..<8 * n} \<and>
      i \<notin> bits bitmap \<and> {8 * k..<i} \<subseteq> bits bitmap)"
  using assms(1)
proof (induction rule: inc_induct)
  case base
  then show ?case by simp
next
  case (step k)
  have up: "[k..<n] = k # [Suc k..<n]"
    using step.hyps by (simp add: upt_conv_Cons)
  have k: "k < length bitmap"
    using step.hyps assms by simp
  have below: "{8 * k..<8 * k + m} \<subseteq> bits bitmap" if "\<forall>j<m. bit (bitmap ! k) j" "m \<le> 8" for m
  proof
    fix i assume "i \<in> {8 * k..<8 * k + m}"
    then have "i = 8 * k + (i - 8 * k)" "i - 8 * k < m" by auto
    then show "i \<in> bits bitmap"
      using byte_bits[OF k, of "i - 8 * k"] that by auto
  qed
  show ?case
  proof (cases "bitmap ! k = BITMAP_MASK")
    case True
    have split: "{8 * k..<m} \<subseteq> bits bitmap" if "{8 * Suc k..<m} \<subseteq> bits bitmap" for m
    proof -
      have "{8 * k..<m} \<subseteq> {8 * k..<8 * k + 8} \<union> {8 * Suc k..<m}" by auto
      then show ?thesis
        using that below[of 8] find_free_bit(1)[OF True] by auto
    qed
    show ?thesis
      using step.IH True split by (auto simp: up)
  next
    case False
    then obtain j where j: "j < 8" "\<not> bit (bitmap ! k) j" "\<forall>i<j. bit (bitmap ! k) i"
      "find (\<lambda>i. bitmap ! k AND push_bit i 1 = 0) [0..<8] = Some j"
      using find_free_bit(2) by blast
    have lt: "8 * k + j < 8 * n" "8 * k + j < 2 ^ 31"
      using j(1) step.hyps assms(3) by auto
    have "sint (of_nat k * INDEX_MAX + of_nat j :: u32) = int (8 * k + j)"
      using sint_of_nat_small[OF lt(2)] by (simp add: algebra_simps)
    then have "valid_bit_from bitmap [k..<n] = int (8 * k + j)"
      using False j(4) by (simp add: up Let_def)
    moreover have "8 * k + j \<notin> bits bitmap"
      using byte_bits[OF k j(1)] j(2) by simp
    ultimately show ?thesis
      using lt below[OF j(3)] j(1) by (intro disjI2 exI[of _ "8 * k + j"]) auto
  qed
qed

lemma get_valid_bit_spec:
  assumes "unat bit_max \<le> 8 * length bitmap" "unat bit_max \<le> 2 ^ 31" "unat bit_max mod 8 = 0"
  shows "get_valid_bit (Some bitmap) bit_max = INVALID_BIT \<and> {..<unat bit_max} \<subseteq> bits bitmap \<or>
    (\<exists>i < unat bit_max. get_valid_bit (Some bitmap) bit_max = int i \<and> i \<notin> bits bitmap \<and> {..<i} \<subseteq> bits bitmap)"
proof -
  have "8 * (unat bit_max div 8) = unat bit_max"
    using assms(3) by auto
  then show ?thesis
    using valid_bit_from_spec[of 0 "unat bit_max div 8" bitmap] assms(1,2)
    by (auto simp: unat_drop_bit_3 atLeast0LessThan)
qed


section \<open>Allocators of numbers\<close>

text \<open>
  The contract of an allocator of numbers from a finite universe \<open>U\<close>: \<open>ids s\<close> are the numbers in use
  in a good state \<open>s\<close>; \<open>alloc\<close> returns a number that was not in use and takes it, and fails only when
  every number of \<open>U\<close> is in use; \<open>release\<close> gives a number back.
\<close>

locale id_allocator =
  fixes good :: "'s \<Rightarrow> bool"
    and ids :: "'s \<Rightarrow> nat set"
    and U :: "nat set"
    and alloc :: "'s \<Rightarrow> nat option \<times> 's"
    and release :: "nat \<Rightarrow> 's \<Rightarrow> 's"
  assumes finite_U: "finite U"
    and ids_U: "good s \<Longrightarrow> ids s \<subseteq> U"
    and alloc_good: "good s \<Longrightarrow> good (snd (alloc s))"
    and alloc_Some: "good s \<Longrightarrow> fst (alloc s) = Some i \<Longrightarrow>
      i \<in> U - ids s \<and> ids (snd (alloc s)) = insert i (ids s)"
    and alloc_None: "good s \<Longrightarrow> fst (alloc s) = None \<Longrightarrow>
      ids s = U \<and> ids (snd (alloc s)) = ids s"
    and release_good: "good s \<Longrightarrow> i \<in> U \<Longrightarrow> good (release i s)"
    and release_ids: "good s \<Longrightarrow> i \<in> U \<Longrightarrow> ids (release i s) = ids s - {i}"
begin

fun alloc_n :: "nat \<Rightarrow> 's \<Rightarrow> nat option list \<times> 's" where
  "alloc_n 0 s = ([], s)"
| "alloc_n (Suc k) s = (let (r, s) = alloc s; (rs, s) = alloc_n k s in (r # rs, s))"

lemma alloc_succeeds: "good s \<Longrightarrow> ids s \<noteq> U \<Longrightarrow> \<exists>i. fst (alloc s) = Some i"
  using alloc_None by fastforce

lemma allocs_fresh:
  assumes "good s" "alloc_n k s = (rs, s')"
  shows "distinct (List.map_filter id rs) \<and> set (List.map_filter id rs) \<inter> ids s = {} \<and>
    ids s' = ids s \<union> set (List.map_filter id rs) \<and> good s' \<and>
    length (List.map_filter id rs) = min k (card (U - ids s))"
  using assms
proof (induction k arbitrary: s rs)
  case 0
  then show ?case by (simp add: map_filter_simps)
next
  case (Suc k)
  obtain r s1 where a: "alloc s = (r, s1)" by fastforce
  obtain rs1 where r1: "alloc_n k s1 = (rs1, s')" and rs: "rs = r # rs1"
    using Suc.prems(2) a by (cases "alloc_n k s1") (auto simp: Let_def)
  have g: "good s1" using alloc_good[OF Suc.prems(1)] a by simp
  note IH = Suc.IH[OF g r1]
  show ?case
  proof (cases r)
    case None
    then have "ids s = U" "ids s1 = U"
      using alloc_None[OF Suc.prems(1)] a by simp_all
    with IH None rs show ?thesis by (simp add: map_filter_simps)
  next
    case (Some i)
    then have i: "i \<in> U - ids s" "ids s1 = insert i (ids s)"
      using alloc_Some[OF Suc.prems(1)] a by simp_all
    have "U - ids s = insert i (U - ids s1)" "i \<notin> U - ids s1"
      using i by auto
    then have "card (U - ids s) = Suc (card (U - ids s1))"
      using finite_U by (metis card_insert_disjoint finite_Diff)
    with IH Some rs i show ?thesis by (auto simp: map_filter_simps)
  qed
qed

lemma release_then_alloc:
  assumes "good s" "i \<in> U"
  shows "\<exists>j. fst (alloc (release i s)) = Some j \<and> j \<notin> ids s - {i}"
proof -
  have "ids (release i s) \<noteq> U"
    using release_ids[OF assms] assms(2) by auto
  then obtain j where "fst (alloc (release i s)) = Some j"
    using alloc_succeeds release_good assms by blast
  then show ?thesis
    using alloc_Some[OF release_good[OF assms]] release_ids[OF assms] by auto
qed

end


section \<open>Properties\<close>



end
