(* ===== verification/Drv_Index.thy ===== *)
theory Drv_Index
  imports Bitmap
begin

text \<open>
  The driver index allocator of the driver manager, \<open>framework/drvmgr/src/drv_index_mgr.c\<close>.  The
  state is \<open>g_drv_index_bitmap\<close>.  The result of \<open>pthread_mutex_lock\<close>, which the code tests, is the
  argument \<open>lock_ret\<close>; a failing unlock is only logged.
\<close>

abbreviation (input) DRV_INDEX_MAX :: u32 where "DRV_INDEX_MAX \<equiv> 1024"

definition drv_mutex_lock :: "addr option \<Rightarrow> int \<Rightarrow> int" where
  "drv_mutex_lock mtx lock_ret = (if mtx = None then - 1 else lock_ret)"

definition alloc_drv_index :: "addr \<Rightarrow> int \<Rightarrow> u8 list \<Rightarrow> int \<times> u8 list" where
  "alloc_drv_index mtx lock_ret bm = (
    if drv_mutex_lock (Some mtx) lock_ret \<noteq> 0 then (- 1, bm)
    else (let drv_index = get_valid_bit (Some bm) DRV_INDEX_MAX in
      if drv_index = - 1 then (- 1, bm)
      else (let bm = the (set_bitmap (Some bm) DRV_INDEX_MAX (of_int drv_index)) in (drv_index + 1, bm))))"

definition clear_drv_index :: "addr \<Rightarrow> int \<Rightarrow> int \<Rightarrow> u8 list \<Rightarrow> u8 list" where
  "clear_drv_index mtx lock_ret drv_index bm = (
    if drv_index \<le> 0 \<or> drv_index > uint DRV_INDEX_MAX then bm
    else if drv_mutex_lock (Some mtx) lock_ret \<noteq> 0 then bm
    else the (clear_bitmap (Some bm) DRV_INDEX_MAX (of_int (drv_index - 1))))"

definition drv_index_ok :: "u8 list \<Rightarrow> bool" where
  "drv_index_ok bm \<longleftrightarrow> length bm = 128"

definition drv_indexes :: "u8 list \<Rightarrow> nat set" where
  "drv_indexes bm = Suc ` bits bm"

lemma unat_of_int_nat: "i < 2 ^ 32 \<Longrightarrow> unat (of_int (int i) :: u32) = i"
  by (simp add: unat_of_nat_u32)

lemma drv_lock_ok [simp]: "drv_mutex_lock (Some m) r = r"
  by (simp add: drv_mutex_lock_def)

lemma alloc_drv_index_cases:
  assumes "drv_index_ok bm"
  obtains "alloc_drv_index mtx 0 bm = (- 1, bm)" "{..<1024} \<subseteq> bits bm"
  | i bm' where "alloc_drv_index mtx 0 bm = (int (Suc i), bm')" "i < 1024" "i \<notin> bits bm"
      "{..<i} \<subseteq> bits bm" "drv_index_ok bm'" "bits bm' = insert i (bits bm)"
proof -
  have l: "length bm = 128" using assms by (simp add: drv_index_ok_def)
  consider "get_valid_bit (Some bm) DRV_INDEX_MAX = - 1" "{..<1024} \<subseteq> bits bm"
    | i where "i < 1024" "get_valid_bit (Some bm) DRV_INDEX_MAX = int i" "i \<notin> bits bm" "{..<i} \<subseteq> bits bm"
    using get_valid_bit_spec[of DRV_INDEX_MAX bm] l by auto
  then show thesis
  proof cases
    case 1
    then show ?thesis
      by (intro that(1)) (simp_all add: alloc_drv_index_def del: get_valid_bit.simps)
  next
    case (2 i)
    have u: "unat (of_int (int i) :: u32) = i"
      using 2(1) by (intro unat_of_int_nat) simp
    obtain bm' where bm': "set_bitmap (Some bm) DRV_INDEX_MAX (of_int (int i)) = Some bm'"
        "length bm' = length bm" "bits bm' = insert i (bits bm)"
      using set_bitmap_bits[of DRV_INDEX_MAX bm "of_int (int i)"] u 2(1) l by auto
    have "alloc_drv_index mtx 0 bm = (int (Suc i), bm')"
      using 2(2) bm'(1) by (simp add: alloc_drv_index_def del: get_valid_bit.simps set_bitmap.simps)
    with 2 bm' l show ?thesis
      by (intro that(2)[of i bm']) (simp_all add: drv_index_ok_def)
  qed
qed

lemma clear_drv_index_bits:
  assumes "drv_index_ok bm" "i < 1024"
  shows "drv_index_ok (clear_drv_index mtx 0 (int (Suc i)) bm) \<and>
    bits (clear_drv_index mtx 0 (int (Suc i)) bm) = bits bm - {i}"
proof -
  have l: "length bm = 128" using assms by (simp add: drv_index_ok_def)
  have u: "unat (of_int (int i) :: u32) = i"
    using assms(2) by (intro unat_of_int_nat) simp
  obtain bm' where bm': "clear_bitmap (Some bm) DRV_INDEX_MAX (of_int (int i)) = Some bm'"
      "length bm' = length bm" "bits bm' = bits bm - {i}"
    using clear_bitmap_bits[of DRV_INDEX_MAX bm "of_int (int i)"] u assms(2) l by auto
  have "clear_drv_index mtx 0 (int (Suc i)) bm = bm'"
    using bm'(1) assms(2) by (simp add: clear_drv_index_def del: clear_bitmap.simps)
  with bm' l show ?thesis by (simp add: drv_index_ok_def)
qed

definition drv_alloc :: "addr \<Rightarrow> u8 list \<Rightarrow> nat option \<times> u8 list" where
  "drv_alloc mtx bm = (let (r, bm) = alloc_drv_index mtx 0 bm in (if r = - 1 then None else Some (nat r), bm))"

interpretation drv_index: id_allocator drv_index_ok drv_indexes "{1..1024}" "drv_alloc mtx"
  "\<lambda>i. clear_drv_index mtx 0 (int i)" for mtx
proof
  fix bm :: "u8 list" and i
  assume ok: "drv_index_ok bm"
  then have sub: "bits bm \<subseteq> {..<1024}"
    using wbits_subset[of bm] by (simp add: drv_index_ok_def)
  then show "drv_indexes bm \<subseteq> {1..1024}"
    by (auto simp: drv_indexes_def)
  show "drv_index_ok (snd (drv_alloc mtx bm))"
    using ok by (rule alloc_drv_index_cases[of bm mtx]) (use ok in \<open>simp_all add: drv_alloc_def\<close>)
  show "i \<in> {1..1024} - drv_indexes bm \<and> drv_indexes (snd (drv_alloc mtx bm)) = insert i (drv_indexes bm)"
    if "fst (drv_alloc mtx bm) = Some i"
    using ok that by (cases rule: alloc_drv_index_cases[of bm mtx]) (auto simp: drv_alloc_def drv_indexes_def)
  show "drv_indexes bm = {1..1024} \<and> drv_indexes (snd (drv_alloc mtx bm)) = drv_indexes bm"
    if none: "fst (drv_alloc mtx bm) = None"
    using ok
  proof (cases rule: alloc_drv_index_cases[of bm mtx])
    case 1
    then have "bits bm = {..<1024}" using sub by auto
    then show ?thesis
      using 1 by (simp add: drv_alloc_def drv_indexes_def image_Suc_lessThan)
  next
    case 2
    with none show ?thesis by (simp add: drv_alloc_def split: if_splits)
  qed
  show "drv_index_ok (clear_drv_index mtx 0 (int i) bm)" "drv_indexes (clear_drv_index mtx 0 (int i) bm) = drv_indexes bm - {i}"
    if "i \<in> {1..1024}"
    using clear_drv_index_bits[OF ok, of "i - 1" mtx] that by (auto simp: drv_indexes_def image_set_diff)
qed simp


section \<open>Properties\<close>

text \<open>
  C4: However often \<open>alloc_drv_index\<close> is called, the indexes it returns are pairwise distinct, were not in
  use before, lie in 1..1024, and it keeps succeeding until all 1024 indexes are in use.
\<close>
theorem drv_indexes_unique:
  assumes "length bm = 128" and "drv_index.alloc_n mtx k bm = (rs, bm')"
  shows "distinct (List.map_filter id rs) \<and>
    set (List.map_filter id rs) \<inter> drv_indexes bm = {} \<and>
    drv_indexes bm' = drv_indexes bm \<union> set (List.map_filter id rs) \<and>
    drv_indexes bm' \<subseteq> {1..1024} \<and>
    length (List.map_filter id rs) = min k (1024 - card (drv_indexes bm))"
proof -
  have ok: "drv_index_ok bm" using assms(1) by (simp add: drv_index_ok_def)
  have "card ({1..1024} - drv_indexes bm) = 1024 - card (drv_indexes bm)"
    using drv_index.ids_U[OF ok] finite_subset[OF drv_index.ids_U[OF ok]]
    by (subst card_Diff_subset) auto
  then show ?thesis
    using drv_index.allocs_fresh[OF ok assms(2)] drv_index.ids_U[of bm'] by simp
qed

theorem drv_indexes_unique_witness:
  "distinct (List.map_filter id (fst (drv_index.alloc_n 0 3 (replicate 128 0)))) \<and>
   length (List.map_filter id (fst (drv_index.alloc_n 0 3 (replicate 128 0)))) = 3"
  using drv_indexes_unique[of "replicate 128 0" 0 3 "fst (drv_index.alloc_n 0 3 (replicate 128 0))"
    "snd (drv_index.alloc_n 0 3 (replicate 128 0))"]
  by (simp add: drv_indexes_def)

end
