(* ===== verification/Tee_Defs.thy ===== *)
theory Tee_Defs
  imports Prelude
begin

text \<open>
  The constants and the message types that the managers of the global task share: result codes
  (\<open>libteeos/include/tee/tee_defines.h\<close>), command and message identifiers
  (\<open>ta_framework.h\<close>, \<open>tee_common.h\<close>, \<open>gtask_inner.h\<close>), UUIDs (\<open>tee_inner_uuid.h\<close>), and the command
  structure \<open>smc_cmd_t\<close> exchanged with the normal world.
\<close>

section \<open>Result codes and identifiers\<close>

abbreviation (input) TEE_SUCCESS :: u32 where "TEE_SUCCESS \<equiv> 0"
abbreviation (input) TEE_ERROR_INVALID_CMD :: u32 where "TEE_ERROR_INVALID_CMD \<equiv> 1"
abbreviation (input) TEE_ERROR_SERVICE_NOT_EXIST :: u32 where "TEE_ERROR_SERVICE_NOT_EXIST \<equiv> 2"
abbreviation (input) TEE_ERROR_SESSION_NOT_EXIST :: u32 where "TEE_ERROR_SESSION_NOT_EXIST \<equiv> 3"
abbreviation (input) TEE_ERROR_SESSION_MAXIMUM :: u32 where "TEE_ERROR_SESSION_MAXIMUM \<equiv> 4"
abbreviation (input) TEE_ERROR_REGISTER_EXIST_SERVICE :: u32 where "TEE_ERROR_REGISTER_EXIST_SERVICE \<equiv> 5"
abbreviation (input) TEE_ERROR_GENERIC :: u32 where "TEE_ERROR_GENERIC \<equiv> 0xFFFF0000"
abbreviation (input) TEE_ERROR_ACCESS_DENIED :: u32 where "TEE_ERROR_ACCESS_DENIED \<equiv> 0xFFFF0001"
abbreviation (input) TEE_ERROR_ACCESS_CONFLICT :: u32 where "TEE_ERROR_ACCESS_CONFLICT \<equiv> 0xFFFF0003"
abbreviation (input) TEE_ERROR_BAD_PARAMETERS :: u32 where "TEE_ERROR_BAD_PARAMETERS \<equiv> 0xFFFF0006"
abbreviation (input) TEE_ERROR_BAD_STATE :: u32 where "TEE_ERROR_BAD_STATE \<equiv> 0xFFFF0007"
abbreviation (input) TEE_ERROR_OUT_OF_MEMORY :: u32 where "TEE_ERROR_OUT_OF_MEMORY \<equiv> 0xFFFF000C"
abbreviation (input) TEE_ERROR_BUSY :: u32 where "TEE_ERROR_BUSY \<equiv> 0xFFFF000D"
abbreviation (input) TEE_ERROR_SHORT_BUFFER :: u32 where "TEE_ERROR_SHORT_BUFFER \<equiv> 0xFFFF0010"
abbreviation (input) TEE_PENDING :: u32 where "TEE_PENDING \<equiv> 0xFFFF2000"
abbreviation (input) TEE_PENDING2 :: u32 where "TEE_PENDING2 \<equiv> 0xFFFF2001"
abbreviation (input) TEE_ERROR_TARGET_DEAD :: u32 where "TEE_ERROR_TARGET_DEAD \<equiv> 0xFFFF3024"

abbreviation (input) GT_ERR_OK :: int where "GT_ERR_OK \<equiv> 0"
abbreviation (input) GT_ERR_END_CMD :: int where "GT_ERR_END_CMD \<equiv> -1"

abbreviation (input) CMD_TYPE_GLOBAL :: u32 where "CMD_TYPE_GLOBAL \<equiv> 0"
abbreviation (input) CMD_TYPE_TA :: u32 where "CMD_TYPE_TA \<equiv> 1"
abbreviation (input) CMD_TYPE_TA_AGENT :: u32 where "CMD_TYPE_TA_AGENT \<equiv> 2"
abbreviation (input) CMD_TYPE_TA2TA_AGENT :: u32 where "CMD_TYPE_TA2TA_AGENT \<equiv> 3"
abbreviation (input) CMD_TYPE_BUILDIN_AGENT :: u32 where "CMD_TYPE_BUILDIN_AGENT \<equiv> 4"

abbreviation (input) CMD_TYPE_NS_TO_SECURE :: u32 where "CMD_TYPE_NS_TO_SECURE \<equiv> 1"
abbreviation (input) CMD_TYPE_SECURE_TO_SECURE :: u32 where "CMD_TYPE_SECURE_TO_SECURE \<equiv> 2"

abbreviation (input) GLOBAL_CMD_ID_OPEN_SESSION :: u32 where "GLOBAL_CMD_ID_OPEN_SESSION \<equiv> 2"
abbreviation (input) GLOBAL_CMD_ID_CLOSE_SESSION :: u32 where "GLOBAL_CMD_ID_CLOSE_SESSION \<equiv> 3"
abbreviation (input) GLOBAL_CMD_ID_KILL_TASK :: u32 where "GLOBAL_CMD_ID_KILL_TASK \<equiv> 0x10"

section \<open>UUIDs and commands\<close>

record TEE_UUID =
  timeLow :: u32
  timeMid :: u16
  timeHiAndVersion :: u16
  clockSeqAndNode :: "u8 list"

definition TEE_SERVICE_GLOBAL :: TEE_UUID where
  "TEE_SERVICE_GLOBAL = \<lparr>timeLow = 0, timeMid = 0, timeHiAndVersion = 0, clockSeqAndNode = replicate 8 0\<rparr>"

definition TEE_SERVICE_REET :: TEE_UUID where
  "TEE_SERVICE_REET = \<lparr>timeLow = 0x0A0A0A0A, timeMid = 0x0A0A, timeHiAndVersion = 0x0A0A,
    clockSeqAndNode = replicate 8 0x0A\<rparr>"

text \<open>
  \<open>smc_cmd_t\<close>.  The sixteen bytes of its \<open>uuid\<close> field are only read through a cast to \<open>TEE_UUID\<close>, so the
  field has that type here.
\<close>

record smc_cmd =
  c_uuid :: TEE_UUID
  c_cmd_type :: u32
  c_cmd_id :: u32
  c_dev_file_id :: u32
  c_context :: u32
  c_agent_id :: u32
  c_operation_phys :: u32
  c_operation_h_phys :: u32
  c_login_method :: u32
  c_login_data_phy :: u32
  c_login_data_h_phy :: u32
  c_login_data_len :: u32
  c_err_origin :: u32
  c_ret_val :: u32
  c_event_nr :: u32
  c_uid :: u32
  c_ca_pid :: u32
  c_pid :: u32
  c_eventindex :: u32
  c_started :: bool

definition zero_cmd :: smc_cmd where
  "zero_cmd = \<lparr>c_uuid = TEE_SERVICE_GLOBAL, c_cmd_type = 0, c_cmd_id = 0, c_dev_file_id = 0, c_context = 0,
    c_agent_id = 0, c_operation_phys = 0, c_operation_h_phys = 0, c_login_method = 0, c_login_data_phy = 0,
    c_login_data_h_phy = 0, c_login_data_len = 0, c_err_origin = 0, c_ret_val = 0, c_event_nr = 0, c_uid = 0,
    c_ca_pid = 0, c_pid = 0, c_eventindex = 0, c_started = False\<rparr>"

text \<open>The session context of a command: service index in the high, session id in the low half.\<close>

definition set_session_context_bit :: "u32 \<Rightarrow> u32 \<Rightarrow> u32" where
  "set_session_context_bit index i = (push_bit 16 index OR (i AND 0xFFFF))"

definition service_index_of_context :: "u32 \<Rightarrow> u32" where
  "service_index_of_context context = drop_bit 16 context"

definition session_id_of_context :: "u32 \<Rightarrow> u32" where
  "session_id_of_context context = context AND 0xFFFF"

lemma and_FFFF: "w AND 0xFFFF = take_bit 16 w" for w :: u32
  by (simp add: take_bit_eq_mask mask_eq_exp_minus_1)

lemma high_bits_zero:
  fixes w :: u32
  assumes "unat w < 2 ^ 16" "bit w n"
  shows "n < 16"
proof -
  have "take_bit 16 w = w"
    using assms(1) by (intro word_unat_eq_iff[THEN iffD2]) (simp add: unsigned_take_bit_eq take_bit_nat_eq_self)
  then show ?thesis
    using assms(2) by (metis bit_take_bit_iff)
qed

lemma session_context_roundtrip:
  assumes "unat index < 2 ^ 16" "unat i < 2 ^ 16"
  shows "service_index_of_context (set_session_context_bit index i) = index"
    and "session_id_of_context (set_session_context_bit index i) = i"
proof -
  show "service_index_of_context (set_session_context_bit index i) = index"
    by (rule bit_word_eqI)
      (use high_bits_zero[OF assms(1)] in \<open>auto simp: service_index_of_context_def set_session_context_bit_def
        bit_drop_bit_eq and_FFFF bit_or_iff bit_take_bit_iff bit_push_bit_iff\<close>)
  show "session_id_of_context (set_session_context_bit index i) = i"
    by (rule bit_word_eqI)
      (use high_bits_zero[OF assms(2)] in \<open>auto simp: session_id_of_context_def set_session_context_bit_def
        and_FFFF bit_or_iff bit_take_bit_iff bit_push_bit_iff\<close>)
qed

end
