(* ===== verification/Smc_Queue.thy ===== *)
theory Smc_Queue
  imports Tee_Defs
begin

text \<open>
  The command queue between the normal world and the global task:
  \<open>framework/gtask/src/framework/global_task.c\<close> on the shared area \<open>nwd_cmd_t\<close> of
  \<open>framework/gtask/src/include/gtask_inner.h\<close>.

  \<open>smc_state\<close> holds the shared area \<open>g_nwd_cmd\<close>, which the normal world may rewrite at any time between two
  calls, the private bitmap \<open>cmd_doing_bitmap\<close>, and the static variable \<open>last_index\<close> of
  \<open>get_last_in_cmd\<close>.  That function reads the command of a slot three times from the shared area: for the first
  \<open>is_abort_cmd\<close>, for the copy, and for the second \<open>is_abort_cmd\<close>.  The copy reads \<open>smc_in\<close>; what the
  two tests see is given by the arguments \<open>view1\<close> and \<open>view2\<close>, so that a normal world which ignores the
  queue lock is covered as well.  A \<open>memcpy_s\<close> between objects of the same size does not fail (C11,
  Annex K), and has no failure branch here.
\<close>

section \<open>The shared area and the bit operations\<close>

abbreviation (input) MAX_SMC_CMD :: u32 where "MAX_SMC_CMD \<equiv> 18"

record nwd_cmd =
  in_bitmap :: "u64 list"
  doing_bitmap :: "u64 list"
  out_bitmap :: "u64 list"
  smc_in :: "smc_cmd list"
  smc_out :: "smc_cmd list"

record smc_state =
  nwd :: nwd_cmd
  cmd_doing_bitmap :: "u64 list"
  last_index :: u32

definition set_bit :: "nat \<Rightarrow> u64 list \<Rightarrow> u64 list" where
  "set_bit nr addr = (let mask = push_bit (nr mod 64) 1; p = nr div 64 in addr[p := addr ! p OR mask])"

definition clear_bit :: "nat \<Rightarrow> u64 list \<Rightarrow> u64 list" where
  "clear_bit nr addr = (let mask = push_bit (nr mod 64) 1; p = nr div 64 in addr[p := addr ! p AND NOT mask])"

definition test_bit :: "nat \<Rightarrow> u64 list \<Rightarrow> bool" where
  "test_bit nr addr \<longleftrightarrow> 1 AND drop_bit (nr AND 63) (addr ! (nr div 64)) \<noteq> 0"

definition is_abort_cmd :: "smc_cmd option \<Rightarrow> bool" where
  "is_abort_cmd cmd = (case cmd of None \<Rightarrow> False
    | Some c \<Rightarrow> c_cmd_type c = CMD_TYPE_GLOBAL \<and> c_cmd_id c = GLOBAL_CMD_ID_KILL_TASK)"


section \<open>Taking a command from the queue\<close>

definition mark_doing :: "u32 \<Rightarrow> smc_state \<Rightarrow> smc_state" where
  "mark_doing i s = s\<lparr>nwd := (nwd s)\<lparr>doing_bitmap := set_bit (unat i) (doing_bitmap (nwd s))\<rparr>\<rparr>"

text \<open>
  The loop of \<open>get_last_in_cmd\<close>, entered at the \<open>do\<close>.  A \<open>continue\<close> jumps to the loop condition without
  advancing \<open>i\<close>.
\<close>

partial_function (option) scan_in_cmd ::
  "(u32 \<Rightarrow> smc_cmd) \<Rightarrow> (u32 \<Rightarrow> smc_cmd) \<Rightarrow> u32 \<Rightarrow> smc_cmd \<Rightarrow> smc_state \<Rightarrow> (int \<times> smc_cmd \<times> smc_state) option" where
  "scan_in_cmd view1 view2 i cmd s = (
    let i = (if i = MAX_SMC_CMD then 0 else i) in
    if test_bit (unat i) (in_bitmap (nwd s)) \<and> \<not> test_bit (unat i) (doing_bitmap (nwd s)) then
      (if test_bit (unat i) (cmd_doing_bitmap s) \<and> \<not> is_abort_cmd (Some (view1 i)) then
        (let s = mark_doing i s in
         if i \<noteq> last_index s then scan_in_cmd view1 view2 i cmd s else Some (GT_ERR_END_CMD, cmd, s))
      else
        (let cmd = smc_in (nwd s) ! unat i in
         if c_event_nr cmd \<noteq> i then
           (let s = mark_doing i s in
            if i \<noteq> last_index s then scan_in_cmd view1 view2 i cmd s else Some (GT_ERR_END_CMD, cmd, s))
         else
           (let s = mark_doing i s;
                s = (if \<not> is_abort_cmd (Some (view2 i))
                     then s\<lparr>cmd_doing_bitmap := set_bit (unat i) (cmd_doing_bitmap s)\<rparr> else s);
                s = s\<lparr>last_index := i + 1\<rparr>
            in Some (GT_ERR_OK, cmd, s))))
    else (let i = i + 1 in
      if i \<noteq> last_index s then scan_in_cmd view1 view2 i cmd s else Some (GT_ERR_END_CMD, cmd, s)))"

declare scan_in_cmd.simps [code]

definition get_last_in_cmd ::
  "(u32 \<Rightarrow> smc_cmd) \<Rightarrow> (u32 \<Rightarrow> smc_cmd) \<Rightarrow> smc_cmd \<Rightarrow> smc_state \<Rightarrow> (int \<times> smc_cmd \<times> smc_state) option" where
  "get_last_in_cmd view1 view2 cmd s = (
    let i = last_index s in
    case scan_in_cmd view1 view2 i cmd s of
      None \<Rightarrow> None
    | Some (ret, cmd, s) \<Rightarrow> Some (if c_event_nr cmd \<ge> MAX_SMC_CMD then GT_ERR_END_CMD else ret, cmd, s))"

text \<open>
  The queue part of \<open>put_last_out_cmd\<close>; the update of the current session that precedes it is part of
  the definition in \<open>Gtask_State\<close>.
\<close>

definition put_out_slot :: "smc_cmd \<Rightarrow> smc_state \<Rightarrow> smc_state" where
  "put_out_slot cmd s = (
    let nr = unat (c_event_nr cmd);
        s = s\<lparr>nwd := (nwd s)\<lparr>smc_out := (smc_out (nwd s))[nr := cmd]\<rparr>\<rparr>;
        s = s\<lparr>nwd := (nwd s)\<lparr>out_bitmap := set_bit nr (out_bitmap (nwd s))\<rparr>\<rparr>;
        s = s\<lparr>cmd_doing_bitmap := clear_bit nr (cmd_doing_bitmap s)\<rparr>
    in s)"

definition restore_cmd_in :: "smc_cmd option \<Rightarrow> smc_state \<Rightarrow> smc_state" where
  "restore_cmd_in cmd s = (case cmd of None \<Rightarrow> s
    | Some c \<Rightarrow>
      (let index = c_event_nr c in
       if index \<ge> MAX_SMC_CMD then s
       else if index \<noteq> c_event_nr (smc_in (nwd s) ! unat index) then s
       else s\<lparr>nwd := (nwd s)\<lparr>smc_in := (smc_in (nwd s))[unat index := c]\<rparr>\<rparr>))"

definition is_cmd_in_unproceed :: "smc_state \<Rightarrow> bool" where
  "is_cmd_in_unproceed s = (case find (\<lambda>i. test_bit i (in_bitmap (nwd s)) \<and> \<not> test_bit i (doing_bitmap (nwd s))) [0..<18]
    of None \<Rightarrow> False | Some _ \<Rightarrow> True)"


section \<open>Bits of the queue bitmaps\<close>

lemma test_bit_iff: "nr < 64 * length addr \<Longrightarrow> test_bit nr addr \<longleftrightarrow> nr \<in> wbits addr"
proof -
  have "nr AND 63 = nr mod 64"
    using take_bit_eq_mask[of 6 nr] by (simp add: mask_eq_exp_minus_1 take_bit_eq_mod)
  then have "test_bit nr addr \<longleftrightarrow> bit (addr ! (nr div 64)) (nr mod 64)"
    by (simp add: test_bit_def bit_iff_odd_drop_bit one_and_eq even_iff_mod_2_eq_zero)
  then show "nr < 64 * length addr \<Longrightarrow> test_bit nr addr \<longleftrightarrow> nr \<in> wbits addr"
    by (simp add: mem_wbits_iff)
qed

lemma wbits_set_bit [simp]: "nr < 64 * length addr \<Longrightarrow> wbits (set_bit nr addr) = insert nr (wbits addr)"
  using wbits_update(1)[of nr addr] by (simp add: set_bit_def Let_def)

lemma wbits_clear_bit [simp]: "nr < 64 * length addr \<Longrightarrow> wbits (clear_bit nr addr) = wbits addr - {nr}"
  using wbits_update(2)[of nr addr] by (simp add: clear_bit_def Let_def)

lemma length_set_bit [simp]: "length (set_bit nr addr) = length addr" "length (clear_bit nr addr) = length addr"
  by (simp_all add: set_bit_def clear_bit_def Let_def)


definition smc_wf :: "smc_state \<Rightarrow> bool" where
  "smc_wf s \<longleftrightarrow> length (in_bitmap (nwd s)) = 1 \<and> length (doing_bitmap (nwd s)) = 1 \<and>
    length (out_bitmap (nwd s)) = 1 \<and> length (cmd_doing_bitmap s) = 1 \<and>
    length (smc_in (nwd s)) = 18 \<and> length (smc_out (nwd s)) = 18 \<and>
    1 \<le> unat (last_index s) \<and> unat (last_index s) \<le> 18"

definition pending :: "smc_state \<Rightarrow> nat set" where
  "pending s = wbits (in_bitmap (nwd s)) - wbits (doing_bitmap (nwd s))"

lemma mark_doing_simps [simp]:
  "in_bitmap (nwd (mark_doing i s)) = in_bitmap (nwd s)"
  "out_bitmap (nwd (mark_doing i s)) = out_bitmap (nwd s)"
  "smc_in (nwd (mark_doing i s)) = smc_in (nwd s)"
  "smc_out (nwd (mark_doing i s)) = smc_out (nwd s)"
  "doing_bitmap (nwd (mark_doing i s)) = set_bit (unat i) (doing_bitmap (nwd s))"
  "cmd_doing_bitmap (mark_doing i s) = cmd_doing_bitmap s"
  "last_index (mark_doing i s) = last_index s"
  by (simp_all add: mark_doing_def)

lemma smc_wf_mark_doing [simp]: "smc_wf (mark_doing i s) = smc_wf s"
  by (simp add: smc_wf_def)

lemma pending_mark_doing [simp]:
  "smc_wf s \<Longrightarrow> unat i < 18 \<Longrightarrow> pending (mark_doing i s) = pending s - {unat i}"
  by (auto simp: pending_def smc_wf_def)


section \<open>The loop visits the slots in round-robin order\<close>

text \<open>
  \<open>slots l k\<close> are the slots the loop still has to look at when it is at position \<open>k\<close> and \<open>last_index\<close> is \<open>l\<close>;
  \<open>scan_slots\<close> is the loop as a recursion over that list.
\<close>

definition slots :: "nat \<Rightarrow> nat \<Rightarrow> nat list" where
  "slots l k = (let k = (if k = 18 then 0 else k) in if k < l then [k..<l] else [k..<18] @ [0..<l])"

definition deliver :: "(u32 \<Rightarrow> smc_cmd) \<Rightarrow> nat \<Rightarrow> smc_state \<Rightarrow> smc_state" where
  "deliver view2 k s = (let s = mark_doing (of_nat k) s;
    s = (if \<not> is_abort_cmd (Some (view2 (of_nat k))) then s\<lparr>cmd_doing_bitmap := set_bit k (cmd_doing_bitmap s)\<rparr> else s)
    in s\<lparr>last_index := of_nat (Suc k)\<rparr>)"

fun scan_slots :: "(u32 \<Rightarrow> smc_cmd) \<Rightarrow> (u32 \<Rightarrow> smc_cmd) \<Rightarrow> nat list \<Rightarrow> smc_cmd \<Rightarrow> smc_state \<Rightarrow> int \<times> smc_cmd \<times> smc_state" where
  "scan_slots view1 view2 [] cmd s = (GT_ERR_END_CMD, cmd, s)"
| "scan_slots view1 view2 (k # ks) cmd s = (
    if k \<notin> pending s then scan_slots view1 view2 ks cmd s
    else
      (let busy = (k \<in> wbits (cmd_doing_bitmap s) \<and> \<not> is_abort_cmd (Some (view1 (of_nat k))));
           cmd' = (if busy then cmd else smc_in (nwd s) ! k);
           s' = mark_doing (of_nat k) s
       in if busy \<or> c_event_nr cmd' \<noteq> of_nat k
          then (if k = unat (last_index s) then (GT_ERR_END_CMD, cmd', s') else scan_slots view1 view2 ks cmd' s')
          else (GT_ERR_OK, cmd', deliver view2 k s)))"

lemma slots_Cons:
  assumes "1 \<le> l" "l \<le> 18" "k \<le> 18"
  shows "slots l k = (let j = if k = 18 then 0 else k in j # (if Suc j = l then [] else slots l (Suc j)))"
  using assms by (auto simp: slots_def Let_def upt_conv_Cons)

lemma set_slots: "l \<le> 18 \<Longrightarrow> k \<le> 18 \<Longrightarrow> set (slots l k) \<subseteq> {..<18}"
  by (auto simp: slots_def Let_def)

lemma set_slots_start: "1 \<le> l \<Longrightarrow> l \<le> 18 \<Longrightarrow> set (slots l l) = {..<18}"
  by (auto simp: slots_def Let_def)

lemma scan_unfold:
  assumes wf: "smc_wf s" and k: "k \<le> 18" and j: "j = (if k = 18 then 0 else k)"
  shows "scan_in_cmd view1 view2 (of_nat k) cmd s = (
    if j \<notin> pending s then
      (if Suc j \<noteq> unat (last_index s) then scan_in_cmd view1 view2 (of_nat (Suc j)) cmd s
       else Some (GT_ERR_END_CMD, cmd, s))
    else
      (let busy = (j \<in> wbits (cmd_doing_bitmap s) \<and> \<not> is_abort_cmd (Some (view1 (of_nat j))));
           cmd' = (if busy then cmd else smc_in (nwd s) ! j);
           s' = mark_doing (of_nat j) s
       in if busy \<or> c_event_nr cmd' \<noteq> of_nat j
          then (if j = unat (last_index s) then Some (GT_ERR_END_CMD, cmd', s')
                else scan_in_cmd view1 view2 (of_nat j) cmd' s')
          else Some (GT_ERR_OK, cmd', deliver view2 j s)))"
proof -
  have j18: "j < 18" using j k by auto
  have norm: "(if of_nat k = MAX_SMC_CMD then 0 else of_nat k) = (of_nat j :: u32)"
    using j k of_nat_u32_eq_iff[of k 18] by auto
  have uj: "unat (of_nat j :: u32) = j" "unat (of_nat (Suc j) :: u32) = Suc j"
    using j18 by (auto intro!: unat_of_nat_u32 simp del: of_nat_Suc)
  have eqs: "(of_nat j = last_index s) = (j = unat (last_index s))"
      "(of_nat (Suc j) = last_index s) = (Suc j = unat (last_index s))"
    by (metis uj(1) word_unat_eq_iff) (metis uj(2) word_unat_eq_iff)
  have suc: "of_nat j + 1 = (of_nat (Suc j) :: u32)" by simp
  have pend: "(test_bit j (in_bitmap (nwd s)) \<and> \<not> test_bit j (doing_bitmap (nwd s))) = (j \<in> pending s)"
    and doing: "test_bit j (cmd_doing_bitmap s) = (j \<in> wbits (cmd_doing_bitmap s))"
    using j18 wf by (auto simp: test_bit_iff pending_def smc_wf_def)
  show ?thesis
    unfolding scan_in_cmd.simps[of view1 view2 "of_nat k"] Let_def norm uj pend doing suc
      mark_doing_simps eqs deliver_def
    by (simp del: of_nat_Suc)
qed

lemma scan_in_cmd_slots:
  assumes "smc_wf s" "k \<le> 18"
  shows "scan_in_cmd view1 view2 (of_nat k) cmd s =
    Some (scan_slots view1 view2 (slots (unat (last_index s)) k) cmd s)"
  using assms
proof (induction "slots (unat (last_index s)) k" arbitrary: k cmd s)
  case Nil
  then show ?case
    using slots_Cons[of "unat (last_index s)" k] by (simp add: smc_wf_def Let_def)
next
  case (Cons j rest)
  define l where "l = unat (last_index s)"
  have l: "1 \<le> l" "l \<le> 18"
    using Cons.prems by (auto simp: l_def smc_wf_def)
  have j: "j = (if k = 18 then 0 else k)" and rest: "rest = (if Suc j = l then [] else slots l (Suc j))"
    using Cons.hyps(2) slots_Cons[OF l Cons.prems(2)] by (simp_all add: l_def[symmetric] Let_def)
  have j18: "j < 18" using j Cons.prems(2) by auto
  have skip: "(if Suc j \<noteq> l then scan_in_cmd view1 view2 (of_nat (Suc j)) c t
      else Some (GT_ERR_END_CMD, c, t)) = Some (scan_slots view1 view2 rest c t)"
    if "smc_wf t" "unat (last_index t) = l" for c t
    using Cons.hyps(1)[of t "Suc j" c] that j18 rest by auto
  have again: "scan_in_cmd view1 view2 (of_nat j) c (mark_doing (of_nat j) s) =
      Some (scan_slots view1 view2 rest c (mark_doing (of_nat j) s))" for c
    using skip[of "mark_doing (of_nat j) s" c] Cons.prems(1) j18
    by (subst scan_unfold[of _ j j]) (simp_all add: l_def unat_of_nat_u32 del: of_nat_Suc)
  show ?case
    unfolding Cons.hyps(2)[symmetric] scan_unfold[OF Cons.prems j]
    using skip[OF Cons.prems(1)] again by (simp add: l_def Let_def del: of_nat_Suc)
qed


section \<open>What the loop delivers\<close>

lemma deliver_simps:
  assumes "smc_wf s" "k < 18"
  shows "smc_wf (deliver view2 k s)"
    and "wbits (doing_bitmap (nwd (deliver view2 k s))) = insert k (wbits (doing_bitmap (nwd s)))"
    and "wbits (cmd_doing_bitmap (deliver view2 k s)) =
      (if is_abort_cmd (Some (view2 (of_nat k))) then wbits (cmd_doing_bitmap s) else insert k (wbits (cmd_doing_bitmap s)))"
    and "unat (last_index (deliver view2 k s)) = Suc k"
proof -
  have u: "unat (of_nat k :: u32) = k" "unat (of_nat (Suc k) :: u32) = Suc k"
    using assms(2) by (auto intro!: unat_of_nat_u32 simp del: of_nat_Suc)
  show "smc_wf (deliver view2 k s)"
    "wbits (doing_bitmap (nwd (deliver view2 k s))) = insert k (wbits (doing_bitmap (nwd s)))"
    "wbits (cmd_doing_bitmap (deliver view2 k s)) =
      (if is_abort_cmd (Some (view2 (of_nat k))) then wbits (cmd_doing_bitmap s) else insert k (wbits (cmd_doing_bitmap s)))"
    "unat (last_index (deliver view2 k s)) = Suc k"
    using assms u by (simp_all add: deliver_def Let_def smc_wf_def del: of_nat_Suc)
qed

text \<open>
  \<open>eligible\<close>: the slot holds a command that may be handed to the global task, going by what the three reads
  of the slot see.
\<close>

definition eligible :: "(u32 \<Rightarrow> smc_cmd) \<Rightarrow> smc_state \<Rightarrow> nat \<Rightarrow> bool" where
  "eligible view1 s k \<longleftrightarrow> k \<in> pending s \<and> c_event_nr (smc_in (nwd s) ! k) = of_nat k \<and>
    (k \<in> wbits (cmd_doing_bitmap s) \<longrightarrow> is_abort_cmd (Some (view1 (of_nat k))))"

lemma eligible_mark_doing:
  "smc_wf s \<Longrightarrow> j < 18 \<Longrightarrow> eligible view1 (mark_doing (of_nat j) s) k \<longleftrightarrow> eligible view1 s k \<and> k \<noteq> j"
  by (auto simp: eligible_def unat_of_nat_u32)

text \<open>
  The outcome of a scan over the slots \<open>ks\<close>: the first eligible slot is delivered and taken; or nothing is delivered,
  and then no slot was eligible, or the scan stopped at slot \<open>last_index\<close>, whose command it rejected.
\<close>

definition delivered :: "(u32 \<Rightarrow> smc_cmd) \<Rightarrow> (u32 \<Rightarrow> smc_cmd) \<Rightarrow> nat list \<Rightarrow> smc_state \<Rightarrow> nat \<Rightarrow> smc_cmd \<Rightarrow> smc_state \<Rightarrow> bool" where
  "delivered view1 view2 ks s k cmd s' \<longleftrightarrow>
    (\<exists>pre post. ks = pre @ k # post \<and> (\<forall>j \<in> set pre. \<not> eligible view1 s j)) \<and> eligible view1 s k \<and>
    cmd = smc_in (nwd s) ! k \<and> unat (last_index s') = Suc k \<and>
    wbits (cmd_doing_bitmap s') = wbits (cmd_doing_bitmap s) \<union> (if is_abort_cmd (Some (view2 (of_nat k))) then {} else {k})"

definition rejected_last :: "(u32 \<Rightarrow> smc_cmd) \<Rightarrow> smc_state \<Rightarrow> smc_state \<Rightarrow> bool" where
  "rejected_last view1 s s' \<longleftrightarrow> unat (last_index s) \<in> pending s \<and> unat (last_index s) \<notin> pending s' \<and>
    {k. eligible view1 s k} \<subseteq> {k. eligible view1 s' k}"

definition unchanged :: "smc_state \<Rightarrow> smc_state \<Rightarrow> bool" where
  "unchanged s s' \<longleftrightarrow> cmd_doing_bitmap s' = cmd_doing_bitmap s \<and> last_index s' = last_index s \<and>
    smc_in (nwd s') = smc_in (nwd s)"

lemma delivered_Cons:
  assumes "delivered view1 view2 ks s1 k cmd s'" "\<And>i. eligible view1 s1 i = eligible view1 s i" "\<not> eligible view1 s j"
    and "cmd_doing_bitmap s1 = cmd_doing_bitmap s" "smc_in (nwd s1) = smc_in (nwd s)"
  shows "delivered view1 view2 (j # ks) s k cmd s'"
proof -
  obtain pre post where "ks = pre @ k # post" "\<forall>i \<in> set pre. \<not> eligible view1 s1 i"
    using assms(1) by (auto simp: delivered_def)
  then have "j # ks = (j # pre) @ k # post \<and> (\<forall>i \<in> set (j # pre). \<not> eligible view1 s i)"
    using assms(2,3) by simp
  then show ?thesis
    using assms unfolding delivered_def by metis
qed

lemma scan_slots_outcome:
  assumes "smc_wf s" "set ks \<subseteq> {..<18}" "scan_slots view1 view2 ks cmd s = (ret, cmd', s')"
  shows "smc_wf s' \<and>
    (ret = GT_ERR_OK \<and> (\<exists>k. delivered view1 view2 ks s k cmd' s') \<or>
     ret = GT_ERR_END_CMD \<and> unchanged s s' \<and>
       (rejected_last view1 s s' \<or> (\<forall>k \<in> set ks. \<not> eligible view1 s k)))"
  using assms
proof (induction ks arbitrary: cmd s)
  case Nil
  then show ?case by (simp add: unchanged_def)
next
  case (Cons j ks)
  have j: "j < 18" and ks: "set ks \<subseteq> {..<18}"
    using Cons.prems by auto
  have uj: "unat (of_nat j :: u32) = j"
    using j by (intro unat_of_nat_u32) simp
  consider (skip) "j \<notin> pending s" | (bad) "j \<in> pending s" "\<not> eligible view1 s j" | (good) "eligible view1 s j"
    by (auto simp: eligible_def)
  then show ?case
  proof cases
    case skip
    then have ne: "\<not> eligible view1 s j" and "scan_slots view1 view2 ks cmd s = (ret, cmd', s')"
      using Cons.prems(3) by (simp_all add: eligible_def)
    from Cons.IH[OF Cons.prems(1) ks this(2)] show ?thesis
      using delivered_Cons[of view1 view2 ks s _ cmd' s' s j] ne by auto
  next
    case good
    then have "ret = GT_ERR_OK" "cmd' = smc_in (nwd s) ! j" "s' = deliver view2 j s"
      using Cons.prems(3) by (auto simp: eligible_def Let_def)
    moreover have "\<exists>pre post. j # ks = pre @ j # post \<and> (\<forall>i \<in> set pre. \<not> eligible view1 s i)"
      by (intro exI[of _ "[]"] exI[of _ ks]) simp
    ultimately have "delivered view1 view2 (j # ks) s j cmd' s'"
      using good deliver_simps[OF Cons.prems(1) j, of view2] by (simp add: delivered_def)
    then show ?thesis
      using \<open>ret = GT_ERR_OK\<close> \<open>s' = _\<close> deliver_simps(1)[OF Cons.prems(1) j] by auto
  next
    case bad
    define s1 where "s1 = mark_doing (of_nat j) s"
    have wf1: "smc_wf s1" using Cons.prems(1) by (simp add: s1_def)
    have el: "eligible view1 s1 k \<longleftrightarrow> eligible view1 s k" for k
      using eligible_mark_doing[OF Cons.prems(1) j] bad(2) by (auto simp: s1_def)
    obtain c1 where step: "(if j = unat (last_index s) then (GT_ERR_END_CMD, c1, s1)
        else scan_slots view1 view2 ks c1 s1) = (ret, cmd', s')"
      using Cons.prems(3) bad by (auto simp: eligible_def Let_def s1_def split: if_splits)
    have same: "cmd_doing_bitmap s1 = cmd_doing_bitmap s" "smc_in (nwd s1) = smc_in (nwd s)" "last_index s1 = last_index s"
      and pend: "pending s1 = pending s - {j}"
      using pending_mark_doing[OF Cons.prems(1), of "of_nat j"] j uj by (simp_all add: s1_def)
    show ?thesis
    proof (cases "j = unat (last_index s)")
      case True
      then show ?thesis
        using step wf1 same pend bad el by (auto simp: unchanged_def rejected_last_def)
    next
      case False
      then have "scan_slots view1 view2 ks c1 s1 = (ret, cmd', s')"
        using step by simp
      note IH = Cons.IH[OF wf1 ks this]
      have "(\<exists>k. delivered view1 view2 ks s1 k cmd' s') \<longrightarrow> (\<exists>k. delivered view1 view2 (j # ks) s k cmd' s')"
        using delivered_Cons[OF _ el bad(2) same(1,2)] by blast
      moreover have "unchanged s1 s' = unchanged s s'" "rejected_last view1 s1 s' \<longrightarrow> rejected_last view1 s s'"
        using same pend el by (auto simp: unchanged_def rejected_last_def)
      ultimately show ?thesis
        using IH bad el by auto
    qed
  qed
qed

text \<open>What all three reads of a slot see when the normal world keeps its hands off during the call.\<close>

definition stable :: "smc_state \<Rightarrow> u32 \<Rightarrow> smc_cmd" where
  "stable s i = smc_in (nwd s) ! unat i"

lemma get_last_in_cmd_outcome:
  assumes wf: "smc_wf s"
  obtains ret cmd' s' where "get_last_in_cmd view1 view2 cmd s = Some (ret, cmd', s')" "smc_wf s'"
    and "ret = GT_ERR_OK \<and> (\<exists>k. delivered view1 view2 (slots (unat (last_index s)) (unat (last_index s))) s k cmd' s') \<or>
     ret = GT_ERR_END_CMD \<and> unchanged s s' \<and> (rejected_last view1 s s' \<or> (\<forall>k<18. \<not> eligible view1 s k))"
proof -
  define l where "l = unat (last_index s)"
  have l: "1 \<le> l" "l \<le> 18" using wf by (simp_all add: l_def smc_wf_def)
  obtain ret c' s' where scan: "scan_slots view1 view2 (slots l l) cmd s = (ret, c', s')"
    by (metis prod_cases3)
  have eq: "get_last_in_cmd view1 view2 cmd s =
      Some (if c_event_nr c' \<ge> MAX_SMC_CMD then GT_ERR_END_CMD else ret, c', s')"
    using scan_in_cmd_slots[OF wf l(2), of view1 view2 cmd] scan
    by (simp add: get_last_in_cmd_def l_def)
  have out: "smc_wf s'" "ret = GT_ERR_OK \<and> (\<exists>k. delivered view1 view2 (slots l l) s k c' s') \<or>
     ret = GT_ERR_END_CMD \<and> unchanged s s' \<and> (rejected_last view1 s s' \<or> (\<forall>k<18. \<not> eligible view1 s k))"
    using scan_slots_outcome[OF wf _ scan] set_slots_start[OF l] by auto
  have "\<not> c_event_nr c' \<ge> MAX_SMC_CMD" if "delivered view1 view2 (slots l l) s k c' s'" for k
  proof -
    have "k \<in> set (slots l l)" "c_event_nr c' = of_nat k"
      using that by (auto simp: delivered_def eligible_def)
    then show ?thesis
      using set_slots_start[OF l] by (simp add: word_le_nat_alt unat_of_nat_u32)
  qed
  with out eq show thesis
    by (intro that[of "if c_event_nr c' \<ge> MAX_SMC_CMD then GT_ERR_END_CMD else ret" c' s']) (auto simp: l_def)
qed


lemma get_last_in_cmd_result:
  assumes wf: "smc_wf s" and get: "get_last_in_cmd view1 view2 cmd s = Some (ret, cmd', s')"
  shows "smc_wf s'"
    and "ret = GT_ERR_OK \<and> (\<exists>k. delivered view1 view2 (slots (unat (last_index s)) (unat (last_index s))) s k cmd' s') \<or>
     ret = GT_ERR_END_CMD \<and> unchanged s s' \<and> (rejected_last view1 s s' \<or> (\<forall>k<18. \<not> eligible view1 s k))"
  using get by (auto intro: get_last_in_cmd_outcome[OF wf, of view1 view2 cmd])

lemma delivered_slot:
  assumes "smc_wf s" "delivered view1 view2 (slots (unat (last_index s)) (unat (last_index s))) s k cmd s'"
  shows "unat (c_event_nr cmd) = k" "k < 18" "stable s (of_nat k) = cmd"
proof -
  have l: "1 \<le> unat (last_index s)" "unat (last_index s) \<le> 18" using assms(1) by (simp_all add: smc_wf_def)
  have "k < 18" "c_event_nr cmd = of_nat k" "cmd = smc_in (nwd s) ! k"
    using assms(2) set_slots_start[OF l] by (auto simp: delivered_def eligible_def)
  then show "unat (c_event_nr cmd) = k" "k < 18" "stable s (of_nat k) = cmd"
    by (simp_all add: unat_of_nat_u32 stable_def)
qed


section \<open>Runs of the queue\<close>

text \<open>
  A run interleaves calls of \<open>get_last_in_cmd\<close> by the main loop, answers through \<open>put_last_out_cmd\<close>, and
  arbitrary changes of the shared area by the normal world in between.  The log records which slots
  were delivered, with or without an abort command, and which were answered.
\<close>

datatype smc_event = Deliver nat bool | Answer nat

definition nwd_wf :: "nwd_cmd \<Rightarrow> bool" where
  "nwd_wf n \<longleftrightarrow> length (in_bitmap n) = 1 \<and> length (doing_bitmap n) = 1 \<and> length (out_bitmap n) = 1 \<and>
    length (smc_in n) = 18 \<and> length (smc_out n) = 18"

inductive smc_run :: "smc_event list \<Rightarrow> smc_state \<Rightarrow> bool" where
  boot: "nwd_wf n \<Longrightarrow> smc_run [] \<lparr>nwd = n, cmd_doing_bitmap = [0], last_index = MAX_SMC_CMD\<rparr>"
| normal_world: "smc_run evs s \<Longrightarrow> nwd_wf n \<Longrightarrow> smc_run evs (s\<lparr>nwd := n\<rparr>)"
| take_cmd: "smc_run evs s \<Longrightarrow> get_last_in_cmd (stable s) (stable s) zero_cmd s = Some (ret, cmd, s') \<Longrightarrow>
    smc_run (if ret = GT_ERR_OK then Deliver (unat (c_event_nr cmd)) (is_abort_cmd (Some cmd)) # evs else evs) s'"
| answer: "smc_run evs s \<Longrightarrow> unat (c_event_nr cmd) < 18 \<Longrightarrow>
    smc_run (Answer (unat (c_event_nr cmd)) # evs) (put_out_slot cmd s)"

fun outstanding :: "smc_event list \<Rightarrow> nat set" where
  "outstanding [] = {}"
| "outstanding (Deliver k abort # evs) = (if abort then outstanding evs else insert k (outstanding evs))"
| "outstanding (Answer k # evs) = outstanding evs - {k}"

fun exclusive :: "smc_event list \<Rightarrow> bool" where
  "exclusive [] = True"
| "exclusive (Deliver k abort # evs) = ((abort \<or> k \<notin> outstanding evs) \<and> exclusive evs)"
| "exclusive (Answer k # evs) = exclusive evs"

lemma smc_wf_boot: "nwd_wf n \<Longrightarrow> smc_wf \<lparr>nwd = n, cmd_doing_bitmap = [0], last_index = MAX_SMC_CMD\<rparr>"
  by (simp add: smc_wf_def nwd_wf_def)

lemma smc_wf_nwd: "smc_wf s \<Longrightarrow> nwd_wf n \<Longrightarrow> smc_wf (s\<lparr>nwd := n\<rparr>)"
  by (simp add: smc_wf_def nwd_wf_def)

lemma put_out_slot_wf:
  "smc_wf s \<Longrightarrow> unat (c_event_nr cmd) < 18 \<Longrightarrow> smc_wf (put_out_slot cmd s) \<and>
    wbits (cmd_doing_bitmap (put_out_slot cmd s)) = wbits (cmd_doing_bitmap s) - {unat (c_event_nr cmd)}"
  by (simp add: smc_wf_def put_out_slot_def Let_def)

lemma take_cmd_delivered:
  assumes wf: "smc_wf s" and get: "get_last_in_cmd (stable s) (stable s) cmd s = Some (ret, cmd', s')"
  shows "smc_wf s' \<and> (ret = GT_ERR_OK \<longrightarrow>
      unat (c_event_nr cmd') < 18 \<and> cmd' = smc_in (nwd s) ! unat (c_event_nr cmd') \<and>
      eligible (stable s) s (unat (c_event_nr cmd')) \<and>
      wbits (cmd_doing_bitmap s') = wbits (cmd_doing_bitmap s) \<union>
        (if is_abort_cmd (Some cmd') then {} else {unat (c_event_nr cmd')})) \<and>
     (ret \<noteq> GT_ERR_OK \<longrightarrow> cmd_doing_bitmap s' = cmd_doing_bitmap s)"
proof (cases "ret = GT_ERR_OK")
  case True
  then obtain k where k: "delivered (stable s) (stable s) (slots (unat (last_index s)) (unat (last_index s))) s k cmd' s'"
    using get_last_in_cmd_result(2)[OF wf get] by auto
  with delivered_slot[OF wf k] True get_last_in_cmd_result(1)[OF wf get] show ?thesis
    by (simp add: delivered_def)
next
  case False
  with get_last_in_cmd_result[OF wf get] show ?thesis by (auto simp: unchanged_def)
qed

lemma smc_run_inv:
  "smc_run evs s \<Longrightarrow> smc_wf s \<and> wbits (cmd_doing_bitmap s) = outstanding evs \<and> exclusive evs"
proof (induction rule: smc_run.induct)
  case (boot n)
  have "wbits [0 :: u64] = {}" using wbits_replicate_0[of 1] by simp
  with boot show ?case by (simp add: smc_wf_boot)
next
  case (normal_world evs s n)
  then show ?case by (simp add: smc_wf_nwd)
next
  case (take_cmd evs s ret cmd s')
  then show ?case
    using take_cmd_delivered[of s zero_cmd ret cmd s'] by (auto simp: eligible_def stable_def unat_of_nat_u32)
next
  case (answer evs s cmd)
  then show ?case using put_out_slot_wf by simp
qed

lemma exclusive_Answer_between:
  assumes "exclusive (evs3 @ Deliver k False # evs2 @ Deliver k False # evs1)"
  shows "Answer k \<in> set evs2"
proof -
  have suffix: "exclusive (xs @ ys) \<Longrightarrow> exclusive ys" for xs ys
    by (induction xs rule: exclusive.induct) auto
  have "k \<notin> outstanding (evs2 @ Deliver k False # evs1)"
    using suffix[OF assms] by simp
  then show ?thesis
    by (induction evs2 rule: outstanding.induct) (auto split: if_splits)
qed

lemma stable_eligible:
  assumes "unchanged s s'"
  shows "stable s' = stable s"
  using assms by (auto simp: stable_def unchanged_def)


section \<open>Properties\<close>


text \<open>
  C6: The loop of \<open>get_last_in_cmd\<close> ends whatever the shared area contains, and keeps the queue state well formed.  When it returns a
  command, that is the command of the first eligible slot in round-robin order after the last delivered
  one, with the slot number as its event number, and the next search starts behind it.
\<close>
theorem get_last_in_cmd_round_robin:
  assumes "smc_wf s"
  shows "\<exists>ret cmd' s'. get_last_in_cmd (stable s) (stable s) cmd s = Some (ret, cmd', s') \<and> smc_wf s' \<and>
    (ret = GT_ERR_OK \<longrightarrow> (\<exists>k pre post. slots (unat (last_index s)) (unat (last_index s)) = pre @ k # post \<and>
      (\<forall>j \<in> set pre. \<not> eligible (stable s) s j) \<and> eligible (stable s) s k \<and>
      cmd' = smc_in (nwd s) ! k \<and> unat (c_event_nr cmd') = k \<and> k < 18 \<and> unat (last_index s') = Suc k)) \<and>
    (ret \<noteq> GT_ERR_OK \<longrightarrow> cmd_doing_bitmap s' = cmd_doing_bitmap s)"
proof -
  obtain ret cmd' s' where out: "get_last_in_cmd (stable s) (stable s) cmd s = Some (ret, cmd', s')" "smc_wf s'"
      "ret = GT_ERR_OK \<and> (\<exists>k. delivered (stable s) (stable s) (slots (unat (last_index s)) (unat (last_index s))) s k cmd' s') \<or>
       ret = GT_ERR_END_CMD \<and> unchanged s s'"
    by (rule get_last_in_cmd_outcome[OF assms, of "stable s" "stable s" cmd]) blast
  show ?thesis
  proof (cases "ret = GT_ERR_OK")
    case True
    then obtain k where k: "delivered (stable s) (stable s) (slots (unat (last_index s)) (unat (last_index s))) s k cmd' s'"
      using out(3) by auto
    with True out delivered_slot[OF assms k] show ?thesis
      unfolding delivered_def by blast
  next
    case False
    with out show ?thesis by (simp add: unchanged_def)
  qed
qed


definition demo_cmd :: "nat \<Rightarrow> smc_cmd" where
  "demo_cmd k = zero_cmd\<lparr>c_cmd_type := CMD_TYPE_TA, c_cmd_id := 7, c_event_nr := of_nat k\<rparr>"

definition demo_nwd :: "u64 \<Rightarrow> u64 \<Rightarrow> nwd_cmd" where
  "demo_nwd ins doing = \<lparr>in_bitmap = [ins], doing_bitmap = [doing], out_bitmap = [0],
    smc_in = map demo_cmd [0..<18], smc_out = map demo_cmd [0..<18]\<rparr>"

definition demo_queue :: "u64 \<Rightarrow> u64 \<Rightarrow> u64 \<Rightarrow> u32 \<Rightarrow> smc_state" where
  "demo_queue ins doing private l = \<lparr>nwd = demo_nwd ins doing, cmd_doing_bitmap = [private], last_index = l\<rparr>"

lemma demo_queue_wf: "1 \<le> unat l \<Longrightarrow> unat l \<le> 18 \<Longrightarrow> smc_wf (demo_queue ins doing private l)"
  by (simp add: smc_wf_def demo_queue_def demo_nwd_def)

lemma get_last_in_cmd_eval:
  assumes "smc_wf s"
  shows "get_last_in_cmd view1 view2 cmd s =
    (let (ret, cmd', s') = scan_slots view1 view2 (slots (unat (last_index s)) (unat (last_index s))) cmd s
     in Some (if c_event_nr cmd' \<ge> MAX_SMC_CMD then GT_ERR_END_CMD else ret, cmd', s'))"
  using scan_in_cmd_slots[OF assms, of "unat (last_index s)" view1 view2 cmd] assms
  by (simp add: get_last_in_cmd_def smc_wf_def case_prod_beta)

lemmas demo_simps = demo_queue_def demo_nwd_def stable_def eligible_def pending_def wbits_def

lemma demo_cmd_simps [simp]:
  "c_event_nr (demo_cmd k) = of_nat k" "is_abort_cmd (Some (demo_cmd k)) = False"
  by (simp_all add: demo_cmd_def is_abort_cmd_def)

lemma slots_demo:
  "slots 18 18 = [0, 1, 2, 3, 4, 5, 6, 7, 8, 9, 10, 11, 12, 13, 14, 15, 16, 17]"
  "slots 2 2 = [2, 3, 4, 5, 6, 7, 8, 9, 10, 11, 12, 13, 14, 15, 16, 17, 0, 1]"
  by (simp_all add: slots_def upt_rec)

lemma demo_take:
  "get_last_in_cmd (stable (demo_queue 2 0 0 18)) (stable (demo_queue 2 0 0 18)) zero_cmd (demo_queue 2 0 0 18) =
    Some (GT_ERR_OK, demo_cmd 1, demo_queue 2 2 2 2)"
  "get_last_in_cmd (stable (demo_queue 2 0 0 2)) (stable (demo_queue 2 0 0 2)) zero_cmd (demo_queue 2 0 0 2) =
    Some (GT_ERR_OK, demo_cmd 1, demo_queue 2 2 2 2)"
  "get_last_in_cmd (stable (demo_queue 6 0 4 2)) (stable (demo_queue 6 0 4 2)) zero_cmd (demo_queue 6 0 4 2) =
    Some (GT_ERR_END_CMD, zero_cmd, demo_queue 6 4 4 2)"
  using get_last_in_cmd_eval[OF demo_queue_wf[of 18 2 0 0]] get_last_in_cmd_eval[OF demo_queue_wf[of 2 2 0 0]]
    get_last_in_cmd_eval[OF demo_queue_wf[of 2 6 0 4]]
  by (simp_all add: demo_simps slots_demo deliver_def mark_doing_def set_bit_def Let_def word_le_nat_alt)

theorem get_last_in_cmd_round_robin_witness:
  "smc_wf (demo_queue 2 0 0 18) \<and> (\<exists>cmd' s'. get_last_in_cmd (stable (demo_queue 2 0 0 18)) (stable (demo_queue 2 0 0 18))
    zero_cmd (demo_queue 2 0 0 18) = Some (GT_ERR_OK, cmd', s') \<and> smc_wf s' \<and> unat (last_index s') = 2)"
  using get_last_in_cmd_round_robin[of "demo_queue 2 0 0 18" zero_cmd] demo_queue_wf[of 18 2 0 0] demo_take(1)
  by auto


lemma demo_run: "smc_run [Deliver 1 False, Answer 1, Deliver 1 False] (demo_queue 2 2 2 2)"
proof -
  have wf: "nwd_wf (demo_nwd 2 0)" by (simp add: nwd_wf_def demo_nwd_def)
  have "smc_run [] (demo_queue 2 0 0 18)"
    using smc_run.boot[OF wf] by (simp add: demo_queue_def)
  from smc_run.take_cmd[OF this demo_take(1)] have "smc_run [Deliver 1 False] (demo_queue 2 2 2 2)"
    by simp
  from smc_run.answer[OF this, of "demo_cmd 1"]
  have "smc_run [Answer 1, Deliver 1 False] (put_out_slot (demo_cmd 1) (demo_queue 2 2 2 2))"
    by simp
  from smc_run.normal_world[OF this wf] have "smc_run [Answer 1, Deliver 1 False] (demo_queue 2 0 0 2)"
    by (simp add: put_out_slot_def clear_bit_def demo_queue_def Let_def)
  from smc_run.take_cmd[OF this demo_take(2)] show ?thesis by simp
qed


text \<open>
  The guard of \<open>get_last_in_cmd\<close> reads the command from the shared area instead of from its copy.  A normal world that
  changes the slot between the test and the copy gets a command delivered although the slot is
  still in progress.
\<close>
lemma double_fetch_dispatch:
  "\<exists>view1 cmd' s'. get_last_in_cmd view1 (stable (demo_queue 2 0 2 18)) zero_cmd (demo_queue 2 0 2 18) = Some (GT_ERR_OK, cmd', s') \<and>
    \<not> is_abort_cmd (Some cmd') \<and> unat (c_event_nr cmd') \<in> wbits (cmd_doing_bitmap (demo_queue 2 0 2 18))"
proof -
  define view1 where "view1 = (\<lambda>i :: u32. zero_cmd\<lparr>c_cmd_id := GLOBAL_CMD_ID_KILL_TASK\<rparr>)"
  have "get_last_in_cmd view1 (stable (demo_queue 2 0 2 18)) zero_cmd (demo_queue 2 0 2 18) =
      Some (GT_ERR_OK, demo_cmd 1, demo_queue 2 2 2 2)"
    using get_last_in_cmd_eval[OF demo_queue_wf[of 18 2 0 2]]
    by (simp add: view1_def is_abort_cmd_def demo_simps zero_cmd_def slots_demo deliver_def mark_doing_def set_bit_def
      Let_def word_le_nat_alt)
  then show ?thesis
    by (intro exI[of _ view1] exI[of _ "demo_cmd 1"] exI[of _ "demo_queue 2 2 2 2"]) (simp add: demo_simps)
qed

end
