(* ===== verification/Gtask_State.thy ===== *)
theory Gtask_State
  imports Tee_Defs Bitmap Smc_Queue
begin

text \<open>
  The state of the global task (\<open>framework/gtask\<close>): sessions, services and agents
  (\<open>include/gtask_core.h\<close>, \<open>include/gtask_inner.h\<close>), the global variables of its managers, and the
  calls it makes to code outside the managers.

  Objects live in stores from addresses to records; an address that is not in the store is freed or
  was never allocated, and reading it has no result.  A list head (\<open>session_head\<close>, \<open>locked_agents\<close>,
  \<open>waiting_sessions\<close>, \<open>child_ta_sess_head\<close>, \<open>g_service_head\<close>, \<open>g_agent_head\<close>) is the sequence of the objects
  linked on it, which is what \<open>dlist.h\<close> implements by theory \<open>Dlist\<close>.  A list node embedded in an object that can
  be on different lists (\<open>waiting_agent\<close>, \<open>child_ta_sess_list\<close>, \<open>session_list\<close> of an agent) records the owner of the list
  it is linked on.  Unlinking a node whose list head is freed, or linking a node that is still linked elsewhere, corrupts the
  C lists; such an operation has no result either.

  Calls that leave the managers (IPC, memory mapping, process control, time, allocation) are answered by an environment
  \<open>E\<close> from the history of all such calls, so that answers may differ from call to call.
\<close>

section \<open>Objects\<close>

record ta_property =
  p_uuid :: TEE_UUID
  p_stack_size :: u32
  p_heap_size :: u32
  p_single_instance :: bool
  p_multi_session :: bool
  p_keep_alive :: bool
  p_ssa_enum_enable :: bool
  p_other_buff :: "u8 list option"
  p_other_len :: u32

text \<open>
  Parameters of a command.  \<open>tee_param_32\<close> is a union of two words: \<open>value.a\<close> or \<open>memref.buffer\<close>, and \<open>value.b\<close> or \<open>memref.size\<close>.
  Arrays of \<open>TEE_PARAM_NUM\<close> entries are functions of the index.
\<close>

record tee_param_32 =
  tp_a :: u32
  tp_b :: u32

record tee_operation_gtask =
  op_p_type :: u32
  op_p :: "nat \<Rightarrow> tee_param_32"
  op_p_h_addr :: "nat \<Rightarrow> u32"

text \<open>
  \<open>pam_node\<close>: the copy of the operation, whether the application is a 64-bit one, the address of the parameters shared
  with it, and the addresses of the memory references in the TEE and in the normal world.  A node has one owner, so
  it is stored in its owner.
\<close>

record pam_node =
  n_op :: tee_operation_gtask
  n_param_type :: bool
  n_p_for_ta :: u64
  n_vaddr_gt_tee :: "nat \<Rightarrow> u64"
  n_vaddr_gt_ree :: "nat \<Rightarrow> u64"

record mem_region_ns =
  r_addr :: u64
  r_size :: u32
  r_event_nr :: u32
  r_task_id :: u32
  r_ta2ta :: bool

record mempool_state =
  mb_init :: bool
  mb_start :: u64
  mb_size :: u32
  mb_va :: u64

record session_struct =
  s_task_id :: u32
  s_session_id :: u32
  s_session_context :: u64
  s_login_method :: u32
  s_name :: string
  s_ta2ta_from_taskid :: u32
  s_cancelable :: bool
  s_agent_pending :: bool
  s_locked_agents :: "addr list"
  s_waiting_agent :: ptr
  s_cmd_type :: u32
  s_cmd :: bool
  s_cmd_in :: smc_cmd
  s_oper_addr :: u64
  s_pam_node :: "pam_node option"
  s_map_mem :: "mem_region_ns list"
  s_ta2ta_level :: u32
  s_ta2ta_handle :: int
  s_wait_ta_back_msg :: bool
  s_session_status :: u32
  s_child_ta_sess_head :: "addr list"
  s_child_ta_sess_list :: ptr

text \<open>
  The field \<open>cmd\<close> of a session only ever points to its own \<open>cmd_in\<close> or is NULL; \<open>s_cmd\<close> says which.
\<close>

record service_struct =
  v_name :: string
  v_property :: ta_property
  v_index :: u32
  v_session_head :: "addr list"
  v_ref_cnt :: int
  v_session_count :: u32
  v_session_bitmap :: "u32 list"
  v_init_build :: u32
  v_elf_state :: u32
  v_service_thread :: u32
  v_ta_64bit :: bool
  v_first_open :: bool
  v_load_elf_time :: "u32 \<times> u32"
  v_is_service_dead :: bool
  v_is_dyn_conf_registed :: bool
  v_img_type :: u32

definition v_uuid :: "service_struct \<Rightarrow> TEE_UUID" where
  "v_uuid v = p_uuid (v_property v)"

text \<open>Memory from \<open>TEE_Malloc\<close> is filled with zeros.\<close>

definition zero_property :: ta_property where
  "zero_property = \<lparr>p_uuid = TEE_SERVICE_GLOBAL, p_stack_size = 0, p_heap_size = 0, p_single_instance = False,
    p_multi_session = False, p_keep_alive = False, p_ssa_enum_enable = False, p_other_buff = None, p_other_len = 0\<rparr>"

definition zero_service :: service_struct where
  "zero_service = \<lparr>v_name = [], v_property = zero_property, v_index = 0, v_session_head = [], v_ref_cnt = 0,
    v_session_count = 0, v_session_bitmap = [0], v_init_build = 0, v_elf_state = 0, v_service_thread = 0,
    v_ta_64bit = False, v_first_open = False, v_load_elf_time = (0, 0), v_is_service_dead = False,
    v_is_dyn_conf_registed = False, v_img_type = 0\<rparr>"

record agent_control =
  a_id :: u32
  a_locked :: bool
  a_buffer :: u64
  a_phys_buffer :: u64
  a_size :: u32
  a_locking_session :: ptr
  a_waiting_sessions :: "addr list"
  a_session_list :: ptr

text \<open>
  An internal task known to the task adaptors (\<open>task_adaptor/task_adaptor.h\<close>).  Its function pointers are NULL or functions of
  one of the adaptors, so a pointer is the adaptor it belongs to.
\<close>

datatype adaptor = Ssa_adaptor | Perm_adaptor | Se_adaptor | Dynamic_adaptor

record task_caller_info =
  ci_taskid :: u32
  ci_cmd :: u32

record srv_adaptor_config =
  cf_task_prio :: u32
  cf_agent_id :: u32
  cf_is_need_release_ta_res :: bool
  cf_crash_callback :: bool
  cf_is_need_create_msg :: bool
  cf_is_need_release_msg :: bool

record task_adaptor_info =
  ti_task_name :: string
  ti_uuid :: TEE_UUID
  ti_task_id :: u32
  ti_task_prio :: u32
  ti_is_agent :: bool
  ti_agent_id :: u32
  ti_agent_status :: u32
  ti_is_need_release_ta_res :: bool
  ti_crash_callback :: bool
  ti_is_need_create_msg :: bool
  ti_is_need_release_msg :: bool
  ti_caller_info :: task_caller_info
  ti_register_ta_to_task :: "adaptor option"
  ti_unregister_ta_to_task :: "adaptor option"
  ti_task_crash_callback :: "adaptor option"
  ti_register_agent_buffer_to_task :: bool
  ti_send_ta_create_msg_to_task :: "adaptor option"
  ti_send_ta_release_msg_to_task :: "adaptor option"

record global_to_ta_msg =
  m_session_id :: u32
  m_session_type :: u32
  m_cmd_id :: u32
  m_param_type :: u32
  m_params :: u64
  m_session_context :: u64
  m_dev_id :: u32
  m_first_session :: bool
  m_last_session :: bool
  m_started :: bool
  m_stack_size :: u32
  m_ret :: u32

definition zero_msg :: global_to_ta_msg where
  "zero_msg = \<lparr>m_session_id = 0, m_session_type = 0, m_cmd_id = 0, m_param_type = 0, m_params = 0,
    m_session_context = 0, m_dev_id = 0, m_first_session = False, m_last_session = False, m_started = False, m_stack_size = 0, m_ret = 0\<rparr>"


record ta_init_msg =
  i_fs_mem :: u64
  i_misc_mem :: u64
  i_prop :: ta_property
  i_login_method :: u32
  i_time_data :: u64

definition zero_init_msg :: ta_init_msg where
  "zero_init_msg = \<lparr>i_fs_mem = 0, i_misc_mem = 0, i_prop = zero_property, i_login_method = 0, i_time_data = 0\<rparr>"

record ta_to_global_msg =
  t_ret :: u32
  t_agent_id :: u32
  t_session_context :: u64
  t_ta2ta_from_taskid :: u32


section \<open>Calls to the environment\<close>

datatype payload =
    Msg_to_ta global_to_ta_msg
  | Msg_init ta_init_msg
  | Msg_prop
  | Msg_create_thread u64
  | Msg_remove_thread u32 u32
  | Msg_ta2ta_ret u32 smc_cmd
  | Msg_reg_agent u32 u64 u32
  | Msg_reg_ta u32 TEE_UUID u32 bool
  | Msg_unreg_ta_se u32
  | Msg_rsp u32
  | Msg_reeinfo u32 u32
  | Msg_none

datatype ext =
    Ipc_msg_snd u32 u32 payload
  | Ipc_release_from_taskid u32
  | Ipc_msg_q_recv
  | Init_spawn_argv_env TEE_UUID
  | Spawnattr_init
  | Spawnattr_setstack u64
  | Spawnattr_setheap u64
  | Posix_spawn_ex TEE_UUID
  | Kill_task u32
  | Wait_child
  | Alloc_sharemem u32
  | Free_sharemem u64 u32
  | Map_sharemem u32 u64 u32
  | Unmap_sharemem u64 u32
  | Copy_from_ree u64 u64 u32
  | Copy_to_ree u64 u64 u32
  | Ree_read_operation u64
  | Ree_memref_size u64 nat
  | Ree_set_value u64 nat u32 u32
  | Ree_set_size u64 nat u32
  | Ta_value_a u64 nat
  | Ta_value_b u64 nat
  | Ta_memref_size u64 nat
  | Ta_set_value u64 nat u32 u32
  | Ta_set_size u64 nat u32
  | Ta_set_buffer u64 nat u64
  | Map_secure_cmd u32 u64
  | Task_map_ns_phy_mem u32 u64 u32
  | Task_unmap u32 u64 u32
  | Sre_release_dynamic_region TEE_UUID u32
  | Unregister_conf TEE_UUID
  | Release_timer_event TEE_UUID
  | Tee_delete_all_libinfo addr
  | Load_dynamic_service service_struct
  | Load_internal_task TEE_UUID
  | Tee_malloc
  | Tee_get_system_time
  | Ipc_get_ch_from_path string
  | Ipc_msg_notification u64 u32 payload
  | Ipc_release_from_path string u64
  | Tee_ext_register_ta TEE_UUID u32 u32
  | Tee_ext_unregister_ta TEE_UUID u32 u32
  | Tee_ext_notify_unload_ta TEE_UUID
  | Tee_ext_load_file
  | Elf_verify_crash_callback
  | Tee_drv_task_exit u32
  | Is_sys_task u32
  | Adjust_sys_time u32 u32
  | Tee_get_chip_type
  | Tee_push_rdr_update_addr u64 u32 bool bool
  | Tee_get_max_api_level
  | Load_secure_file_image smc_cmd
  | Need_load_app smc_cmd
  | Dump_statmeminfo smc_cmd
  | Handle_unlink_dynamic_drv u32
  | Process_register_elf_req u32
  | Stray_read
  | Call string "u64 list"

text \<open>
  The answers of the environment: result codes, produced values, an address from the allocator, a received message
  (result, message id, sender), and fixed data of the platform.
\<close>

record env =
  env_ret :: "ext list \<Rightarrow> ext \<Rightarrow> u32"
  env_val :: "ext list \<Rightarrow> ext \<Rightarrow> u64"
  env_bool :: "ext list \<Rightarrow> ext \<Rightarrow> bool"
  env_addr :: "ext list \<Rightarrow> ptr"
  env_recv :: "ext list \<Rightarrow> u32 \<times> u32 \<times> u32"
  env_cmd :: "ext list \<Rightarrow> smc_cmd"
  env_oper :: "ext list \<Rightarrow> tee_operation_gtask"
  build_in :: "TEE_UUID \<Rightarrow> bool"
  taskid_to_pid :: "u32 \<Rightarrow> u32"
  taskid_to_tid :: "u32 \<Rightarrow> u32"
  timer_pid :: u32
  mailbox_size :: u32


section \<open>The global state\<close>

record gtask =
  g_service_head :: "addr list"
  services :: "addr \<Rightarrow> service_struct option"
  sessions :: "addr \<Rightarrow> session_struct option"
  g_cur_service :: ptr
  g_cur_session :: ptr
  g_service_index_map :: "u8 list"
  g_cur_index :: u32
  g_agent_head :: "addr list"
  agents :: "addr \<Rightarrow> agent_control option"
  g_agent_cnt :: u32
  tasks :: "addr \<Rightarrow> task_adaptor_info option"
  g_task_list_head :: "addr list"
  g_task_list_num :: u32
  svc_cmd :: smc_cmd
  svc_working :: bool
  svc_pending :: "u32 list"
  smc :: smc_state
  g_mb_state :: mempool_state
  g_mem_ns :: "mem_region_ns list"
  g_gt_pam_node :: "pam_node option"
  g_gt_oper_addr :: u64
  g_systime_set_flag :: bool
  g_rdr_mem_registered :: bool
  history :: "ext list"

definition ext_ret :: "env \<Rightarrow> ext \<Rightarrow> gtask \<Rightarrow> u32 \<times> gtask" where
  "ext_ret E c s = (env_ret E (history s) c, s\<lparr>history := c # history s\<rparr>)"

definition ext_val :: "env \<Rightarrow> ext \<Rightarrow> gtask \<Rightarrow> (u32 \<times> u64) \<times> gtask" where
  "ext_val E c s = ((env_ret E (history s) c, env_val E (history s) c), s\<lparr>history := c # history s\<rparr>)"

definition ext_bool :: "env \<Rightarrow> ext \<Rightarrow> gtask \<Rightarrow> bool \<times> gtask" where
  "ext_bool E c s = (env_bool E (history s) c, s\<lparr>history := c # history s\<rparr>)"

definition ipc_msg_q_recv :: "env \<Rightarrow> gtask \<Rightarrow> (u32 \<times> u32 \<times> u32) \<times> gtask" where
  "ipc_msg_q_recv E s = (env_recv E (history s), s\<lparr>history := Ipc_msg_q_recv # history s\<rparr>)"

definition notify :: "ext \<Rightarrow> gtask \<Rightarrow> gtask" where
  "notify c s = s\<lparr>history := c # history s\<rparr>"

text \<open>
  \<open>TEE_Malloc\<close> fails or returns an address that is not in use; an address in use proposed by the
  environment counts as failure.
\<close>

definition in_use :: "gtask \<Rightarrow> addr \<Rightarrow> bool" where
  "in_use s a \<longleftrightarrow> services s a \<noteq> None \<or> sessions s a \<noteq> None \<or> agents s a \<noteq> None \<or> tasks s a \<noteq> None"

definition TEE_Malloc :: "env \<Rightarrow> gtask \<Rightarrow> ptr \<times> gtask" where
  "TEE_Malloc E s = (
    case env_addr E (history s) of
      None \<Rightarrow> (None, notify Tee_malloc s)
    | Some a \<Rightarrow> (if in_use s a then None else Some a, notify Tee_malloc s))"


section \<open>Access to objects\<close>

definition upd_session :: "addr \<Rightarrow> (session_struct \<Rightarrow> session_struct) \<Rightarrow> gtask \<Rightarrow> gtask option" where
  "upd_session a f s = (case sessions s a of None \<Rightarrow> None | Some x \<Rightarrow> Some (s\<lparr>sessions := (sessions s)(a \<mapsto> f x)\<rparr>))"

definition upd_service :: "addr \<Rightarrow> (service_struct \<Rightarrow> service_struct) \<Rightarrow> gtask \<Rightarrow> gtask option" where
  "upd_service a f s = (case services s a of None \<Rightarrow> None | Some x \<Rightarrow> Some (s\<lparr>services := (services s)(a \<mapsto> f x)\<rparr>))"

definition upd_task :: "addr \<Rightarrow> (task_adaptor_info \<Rightarrow> task_adaptor_info) \<Rightarrow> gtask \<Rightarrow> gtask option" where
  "upd_task a f s = (case tasks s a of None \<Rightarrow> None | Some x \<Rightarrow> Some (s\<lparr>tasks := (tasks s)(a \<mapsto> f x)\<rparr>))"

definition upd_agent :: "addr \<Rightarrow> (agent_control \<Rightarrow> agent_control) \<Rightarrow> gtask \<Rightarrow> gtask option" where
  "upd_agent a f s = (case agents s a of None \<Rightarrow> None | Some x \<Rightarrow> Some (s\<lparr>agents := (agents s)(a \<mapsto> f x)\<rparr>))"

text \<open>
  \<open>dlist_for_each_entry\<close> over a list of objects with a \<open>break\<close> at the first one that satisfies a test.
\<close>

fun find_entry :: "(addr \<Rightarrow> 'a option) \<Rightarrow> ('a \<Rightarrow> bool) \<Rightarrow> addr list \<Rightarrow> ptr option" where
  "find_entry h P [] = Some None"
| "find_entry h P (a # as) =
    (case h a of None \<Rightarrow> None | Some x \<Rightarrow> if P x then Some (Some a) else find_entry h P as)"

lemma find_entry_find:
  "set as \<subseteq> dom h \<Longrightarrow> find_entry h P as = Some (find (\<lambda>a. P (the (h a))) as)"
  by (induction as) (auto split: option.splits)

lemma find_entry_cases:
  assumes "\<And>a. a \<in> set as \<Longrightarrow> h a \<noteq> None"
  obtains "find_entry h P as = Some None" "\<And>a x. a \<in> set as \<Longrightarrow> h a = Some x \<Longrightarrow> \<not> P x"
  | a x where "find_entry h P as = Some (Some a)" "a \<in> set as" "h a = Some x" "P x"
proof -
  have "find_entry h P as = Some None \<and> (\<forall>a \<in> set as. \<not> P (the (h a))) \<or>
    (\<exists>a x. find_entry h P as = Some (Some a) \<and> a \<in> set as \<and> h a = Some x \<and> P x)"
    using assms
  proof (induction as)
    case (Cons b bs)
    then obtain x where x: "h b = Some x" by fastforce
    have "find_entry h P bs = Some None \<and> (\<forall>a \<in> set bs. \<not> P (the (h a))) \<or>
      (\<exists>a x. find_entry h P bs = Some (Some a) \<and> a \<in> set bs \<and> h a = Some x \<and> P x)"
      using Cons by simp
    then show ?case
      using x by (cases "P x") auto
  qed simp
  then show thesis using that by force
qed

lemma find_entry_cong:
  "(\<And>a. a \<in> set as \<Longrightarrow> h a = h' a) \<Longrightarrow> find_entry h P as = find_entry h' P as"
  by (induction as) (auto split: option.splits)

lemma notify_simps [simp]:
  "g_service_head (notify c s) = g_service_head s" "services (notify c s) = services s"
  "sessions (notify c s) = sessions s" "g_cur_service (notify c s) = g_cur_service s"
  "g_cur_session (notify c s) = g_cur_session s" "g_service_index_map (notify c s) = g_service_index_map s"
  "g_cur_index (notify c s) = g_cur_index s" "g_agent_head (notify c s) = g_agent_head s"
  "agents (notify c s) = agents s" "g_agent_cnt (notify c s) = g_agent_cnt s" "svc_cmd (notify c s) = svc_cmd s"
  "svc_working (notify c s) = svc_working s" "svc_pending (notify c s) = svc_pending s" "smc (notify c s) = smc s"
  "g_mb_state (notify c s) = g_mb_state s" "g_mem_ns (notify c s) = g_mem_ns s" "g_gt_pam_node (notify c s) = g_gt_pam_node s"
  "g_gt_oper_addr (notify c s) = g_gt_oper_addr s" "tasks (notify c s) = tasks s" "g_task_list_head (notify c s) = g_task_list_head s"
  "g_task_list_num (notify c s) = g_task_list_num s" "g_systime_set_flag (notify c s) = g_systime_set_flag s"
  "g_rdr_mem_registered (notify c s) = g_rdr_mem_registered s"
  by (simp_all add: notify_def)

lemma ext_notify [simp]:
  "snd (ext_ret E c s) = notify c s" "snd (ext_val E c s) = notify c s" "snd (ext_bool E c s) = notify c s"
  by (simp_all add: ext_ret_def ext_val_def ext_bool_def notify_def)

lemma ext_pair:
  "ext_ret E c s = (env_ret E (history s) c, notify c s)"
  "ext_val E c s = ((env_ret E (history s) c, env_val E (history s) c), notify c s)"
  "ext_bool E c s = (env_bool E (history s) c, notify c s)"
  by (simp_all add: ext_ret_def ext_val_def ext_bool_def notify_def)

lemma ipc_msg_q_recv_pair: "ipc_msg_q_recv E s = (env_recv E (history s), notify Ipc_msg_q_recv s)"
  by (simp add: ipc_msg_q_recv_def notify_def)

text \<open>Steps that change nothing but the history of calls.\<close>

definition quiet :: "gtask \<Rightarrow> gtask \<Rightarrow> bool" where
  "quiet s s' \<longleftrightarrow> (\<exists>h. s' = s\<lparr>history := h\<rparr>)"

lemma quiet_refl [simp, intro]: "quiet s s"
  unfolding quiet_def by (rule exI[of _ "history s"]) simp

lemma quiet_notify [simp]: "quiet s (notify c s') \<longleftrightarrow> quiet s s'" "quiet (notify c s) s' \<longleftrightarrow> quiet s s'"
proof -
  have "s'\<lparr>history := history s'\<rparr> = s'" "(notify c s')\<lparr>history := h\<rparr> = s'\<lparr>history := h\<rparr>" for h s'
    by (simp_all add: notify_def)
  then show "quiet s (notify c s') \<longleftrightarrow> quiet s s'" "quiet (notify c s) s' \<longleftrightarrow> quiet s s'"
    unfolding quiet_def by (metis gtask.surjective gtask.update_convs(24) notify_def)+
qed

lemma quiet_trans: "quiet s s' \<Longrightarrow> quiet s' s'' \<Longrightarrow> quiet s s''"
  by (auto simp: quiet_def)

lemma quietD:
  assumes "quiet s s'"
  shows "g_service_head s' = g_service_head s" "services s' = services s" "sessions s' = sessions s"
    "g_cur_service s' = g_cur_service s" "g_cur_session s' = g_cur_session s"
    "g_service_index_map s' = g_service_index_map s" "g_cur_index s' = g_cur_index s" "g_agent_head s' = g_agent_head s"
    "agents s' = agents s" "g_agent_cnt s' = g_agent_cnt s" "svc_cmd s' = svc_cmd s" "svc_working s' = svc_working s"
    "svc_pending s' = svc_pending s" "smc s' = smc s" "g_mb_state s' = g_mb_state s" "g_mem_ns s' = g_mem_ns s"
    "g_gt_pam_node s' = g_gt_pam_node s" "g_gt_oper_addr s' = g_gt_oper_addr s" "tasks s' = tasks s"
    "g_task_list_head s' = g_task_list_head s" "g_task_list_num s' = g_task_list_num s" "g_systime_set_flag s' = g_systime_set_flag s"
    "g_rdr_mem_registered s' = g_rdr_mem_registered s"
  using assms by (auto simp: quiet_def)

lemma TEE_Malloc_cases:
  obtains "TEE_Malloc E s = (None, notify Tee_malloc s)"
  | a where "TEE_Malloc E s = (Some a, notify Tee_malloc s)" "\<not> in_use s a"
proof (cases "env_addr E (history s)")
  case None
  then show thesis by (intro that(1)) (simp add: TEE_Malloc_def)
next
  case (Some a)
  then show thesis
    by (cases "in_use s a") (auto intro: that simp: TEE_Malloc_def)
qed

lemma upd_Some [simp]:
  "sessions s a = Some x \<Longrightarrow> upd_session a f s = Some (s\<lparr>sessions := (sessions s)(a \<mapsto> f x)\<rparr>)"
  "services s a = Some v \<Longrightarrow> upd_service a g s = Some (s\<lparr>services := (services s)(a \<mapsto> g v)\<rparr>)"
  "agents s a = Some c \<Longrightarrow> upd_agent a h s = Some (s\<lparr>agents := (agents s)(a \<mapsto> h c)\<rparr>)"
  "tasks s a = Some d \<Longrightarrow> upd_task a i s = Some (s\<lparr>tasks := (tasks s)(a \<mapsto> i d)\<rparr>)"
  by (simp_all add: upd_session_def upd_service_def upd_agent_def upd_task_def)


section \<open>The state after loading, and a quiet environment\<close>

text \<open>
  The initial values of the static variables, and an environment in which every call succeeds with value
  0 and every allocation gets a new address; the examples start from them.
\<close>

definition boot_gtask :: gtask where
  "boot_gtask = \<lparr>g_service_head = [], services = (\<lambda>_. None), sessions = (\<lambda>_. None), g_cur_service = None, g_cur_session = None,
    g_service_index_map = replicate 256 0, g_cur_index = 1, g_agent_head = [], agents = (\<lambda>_. None), g_agent_cnt = 0,
    tasks = (\<lambda>_. None), g_task_list_head = [], g_task_list_num = 0, svc_cmd = zero_cmd, svc_working = False, svc_pending = [],
    smc = \<lparr>nwd = \<lparr>in_bitmap = [0], doing_bitmap = [0], out_bitmap = [0], smc_in = replicate 18 zero_cmd, smc_out = replicate 18 zero_cmd\<rparr>,
      cmd_doing_bitmap = [0], last_index = 18\<rparr>,
    g_mb_state = \<lparr>mb_init = False, mb_start = 0, mb_size = 0, mb_va = 0\<rparr>, g_mem_ns = [], g_gt_pam_node = None, g_gt_oper_addr = 0,
    g_systime_set_flag = False, g_rdr_mem_registered = False, history = []\<rparr>"

definition calm_env :: env where
  "calm_env = \<lparr>env_ret = (\<lambda>_ _. 0), env_val = (\<lambda>_ _. 0), env_bool = (\<lambda>_ _. False), env_addr = (\<lambda>h. Some (length h)),
    env_recv = (\<lambda>_. (0, 3, 9)), env_cmd = (\<lambda>_. zero_cmd),
    env_oper = (\<lambda>_. \<lparr>op_p_type = 0, op_p = (\<lambda>_. \<lparr>tp_a = 0, tp_b = 0\<rparr>), op_p_h_addr = (\<lambda>_. 0)\<rparr>), build_in = (\<lambda>_. False), taskid_to_pid = (\<lambda>x. x), taskid_to_tid = (\<lambda>x. x),
    timer_pid = 9, mailbox_size = 0x100000\<rparr>"

end
