(* ===== verification/Task_Adaptor.thy ===== *)
theory Task_Adaptor
  imports Gtask_State
begin

text \<open>
  The internal tasks (secure storage, permission service, secure element service and configured services) that the global task
  starts and informs about applications: the task list of \<open>task_adaptor/task_adaptor.c\<close> and the functions of the
  adaptors for storage, permission service, secure element and dynamic services that send messages to them.  Starting and
  restarting the tasks is not modelled.

  The managers record a broadcast (\<open>task_adapt_register_ta\<close>, \<open>task_adapt_unregister_ta\<close>, \<open>task_adapt_ta_create\<close>,
  \<open>task_adapt_ta_release\<close>, \<open>task_adapt_register_agent\<close>) as one call in the history; the definitions here are the messages
  it consists of.
\<close>

abbreviation (input) INVALID_TASK_ID :: u32 where "INVALID_TASK_ID \<equiv> 0"
abbreviation (input) MAX_TASK_NUM :: u32 where "MAX_TASK_NUM \<equiv> 20"
abbreviation (input) MAX_TASK_NAME_LEN :: nat where "MAX_TASK_NAME_LEN \<equiv> 64"
abbreviation (input) TEE_TASK_OPEN_TA_SESSION :: u32 where "TEE_TASK_OPEN_TA_SESSION \<equiv> 0x1001"
abbreviation (input) TEE_TASK_CLOSE_TA_SESSION :: u32 where "TEE_TASK_CLOSE_TA_SESSION \<equiv> 0x1002"
abbreviation (input) TEE_TASK_REGISTER_AGENT :: u32 where "TEE_TASK_REGISTER_AGENT \<equiv> 0x1003"
abbreviation (input) TEE_TASK_SET_CALLER_INFO :: u32 where "TEE_TASK_SET_CALLER_INFO \<equiv> 0x1004"
abbreviation (input) TEE_TASK_SET_CALLER_INFO_ACK :: u32 where "TEE_TASK_SET_CALLER_INFO_ACK \<equiv> 0x1005"
abbreviation (input) TEE_TASK_AGENT_SMC_CMD :: u32 where "TEE_TASK_AGENT_SMC_CMD \<equiv> 0x1006"
abbreviation (input) TEE_TASK_AGENT_SMC_ACK :: u32 where "TEE_TASK_AGENT_SMC_ACK \<equiv> 0x1007"
abbreviation (input) TEE_TASK_CREATE_TA_SERVICE :: u32 where "TEE_TASK_CREATE_TA_SERVICE \<equiv> 0x1009"
abbreviation (input) TEE_TASK_RELEASE_TA_SERVICE :: u32 where "TEE_TASK_RELEASE_TA_SERVICE \<equiv> 0x100A"

section \<open>The task list\<close>

definition find_task_by_taskid :: "env \<Rightarrow> gtask \<Rightarrow> u32 \<Rightarrow> ptr option" where
  "find_task_by_taskid E s task_id = (
    if task_id = INVALID_TASK_ID then Some None
    else find_entry (tasks s) (\<lambda>t. taskid_to_pid E (ti_task_id t) = taskid_to_pid E task_id) (g_task_list_head s))"

definition find_task_by_uuid :: "gtask \<Rightarrow> TEE_UUID option \<Rightarrow> ptr option" where
  "find_task_by_uuid s uuid = (case uuid of None \<Rightarrow> Some None
    | Some u \<Rightarrow> find_entry (tasks s) (\<lambda>t. ti_uuid t = u) (g_task_list_head s))"

definition zero_task :: task_adaptor_info where
  "zero_task = \<lparr>ti_task_name = [], ti_uuid = TEE_SERVICE_GLOBAL, ti_task_id = 0, ti_task_prio = 0, ti_is_agent = False, ti_agent_id = 0,
    ti_agent_status = 0, ti_is_need_release_ta_res = False, ti_crash_callback = False, ti_is_need_create_msg = False,
    ti_is_need_release_msg = False, ti_caller_info = \<lparr>ci_taskid = 0, ci_cmd = 0\<rparr>, ti_register_ta_to_task = None,
    ti_unregister_ta_to_task = None, ti_task_crash_callback = None, ti_register_agent_buffer_to_task = False,
    ti_send_ta_create_msg_to_task = None, ti_send_ta_release_msg_to_task = None\<rparr>"

text \<open>The entry that \<open>add_task_to_list\<close> fills in, lines 83 to 118.\<close>

definition new_task :: "TEE_UUID \<Rightarrow> string \<Rightarrow> srv_adaptor_config option \<Rightarrow> task_adaptor_info" where
  "new_task u task_name srv_config = (
    let task = zero_task\<lparr>ti_uuid := u, ti_task_name := task_name\<rparr>;
        task = (case srv_config of None \<Rightarrow> task
          | Some c \<Rightarrow> task\<lparr>ti_agent_id := cf_agent_id c, ti_is_need_release_ta_res := cf_is_need_release_ta_res c,
              ti_crash_callback := cf_crash_callback c, ti_is_need_create_msg := cf_is_need_create_msg c,
              ti_is_need_release_msg := cf_is_need_release_msg c\<rparr>)
    in task\<lparr>ti_task_id := INVALID_TASK_ID, ti_is_agent := False\<rparr>)"

lemma ti_uuid_new_task [simp]: "ti_uuid (new_task u n c) = u"
  by (simp add: new_task_def Let_def split: option.split)

definition add_task_to_list ::
  "env \<Rightarrow> TEE_UUID option \<Rightarrow> string \<Rightarrow> srv_adaptor_config option \<Rightarrow> gtask \<Rightarrow> (ptr \<times> gtask) option" where
  "add_task_to_list E uuid task_name srv_config s = (case uuid of None \<Rightarrow> Some (None, s)
    | Some u \<Rightarrow> do {
        e \<leftarrow> find_task_by_uuid s uuid;
        (case e of Some a \<Rightarrow> Some (Some a, s)
         | None \<Rightarrow>
          if g_task_list_num s \<ge> MAX_TASK_NUM then Some (None, s)
          else
           (let (m, s) = TEE_Malloc E s in
            case m of None \<Rightarrow> Some (None, s)
            | Some a \<Rightarrow>
              if length task_name > MAX_TASK_NAME_LEN then Some (None, s)
              else
                Some (Some a, s\<lparr>tasks := (tasks s)(a \<mapsto> new_task u task_name srv_config),
                  g_task_list_head := g_task_list_head s @ [a], g_task_list_num := g_task_list_num s + 1\<rparr>)))
      })"

definition del_task_from_list :: "TEE_UUID option \<Rightarrow> gtask \<Rightarrow> gtask option" where
  "del_task_from_list uuid s = (case uuid of None \<Rightarrow> Some s
    | Some u \<Rightarrow> do {
        e \<leftarrow> find_entry (tasks s) (\<lambda>t. ti_uuid t = u) (g_task_list_head s);
        (case e of None \<Rightarrow> Some s
         | Some a \<Rightarrow> Some (s\<lparr>g_task_list_head := remove1 a (g_task_list_head s), tasks := (tasks s)(a := None),
             g_task_list_num := (if g_task_list_num s > 0 then g_task_list_num s - 1 else g_task_list_num s)\<rparr>))
      })"

definition is_internal_task_by_task_id :: "env \<Rightarrow> gtask \<Rightarrow> u32 \<Rightarrow> bool option" where
  "is_internal_task_by_task_id E s task_id = do { e \<leftarrow> find_task_by_taskid E s task_id; Some (e \<noteq> None) }"

definition is_internal_task_by_uuid :: "gtask \<Rightarrow> TEE_UUID option \<Rightarrow> bool option" where
  "is_internal_task_by_uuid s uuid = do { e \<leftarrow> find_task_by_uuid s uuid; Some (e \<noteq> None) }"

text \<open>The message is a \<open>struct task_caller_info\<close> of eight bytes.\<close>

definition task_adapt_set_caller_info :: "env \<Rightarrow> u32 \<Rightarrow> u8 list option \<Rightarrow> gtask \<Rightarrow> (int \<times> gtask) option" where
  "task_adapt_set_caller_info E task_id msg_buf s = do {
    e \<leftarrow> find_task_by_taskid E s task_id;
    (case e of None \<Rightarrow> Some (GT_ERR_END_CMD, s)
     | Some a \<Rightarrow> do {
        (ret, s) \<leftarrow> (case msg_buf of None \<Rightarrow> Some (TEE_ERROR_BAD_PARAMETERS, s)
          | Some b \<Rightarrow>
            if length b < 8 then Some (TEE_ERROR_BAD_PARAMETERS, s)
            else do {
              s \<leftarrow> upd_task a (\<lambda>t. t\<lparr>ti_caller_info := \<lparr>ci_taskid = field_u32 0 b, ci_cmd = field_u32 4 b\<rparr>\<rparr>) s;
              Some (TEE_SUCCESS, s)
            });
        let (sre_ret, s) = ext_ret E (Ipc_msg_snd TEE_TASK_SET_CALLER_INFO_ACK task_id (Msg_rsp ret)) s;
        Some (if sre_ret \<noteq> 0 \<or> ret \<noteq> TEE_SUCCESS then GT_ERR_END_CMD else GT_ERR_OK, s)
      })
  }"


section \<open>Messages to the internal tasks\<close>

abbreviation (input) SE_PATH :: string where "SE_PATH \<equiv> ''seservice''"
abbreviation (input) CMD_SESRV_UNREGISTER_TA :: u32 where "CMD_SESRV_UNREGISTER_TA \<equiv> 0x108"

definition send_register_ta_to_task :: "env \<Rightarrow> payload \<Rightarrow> u32 \<Rightarrow> gtask \<Rightarrow> gtask" where
  "send_register_ta_to_task E reg_msg dest_task_id s = snd (ext_ret E (Ipc_msg_snd TEE_TASK_OPEN_TA_SESSION dest_task_id reg_msg) s)"

definition send_unregister_ta_to_task :: "env \<Rightarrow> payload \<Rightarrow> u32 \<Rightarrow> gtask \<Rightarrow> gtask" where
  "send_unregister_ta_to_task E reg_msg dest_task_id s = snd (ext_ret E (Ipc_msg_snd TEE_TASK_CLOSE_TA_SESSION dest_task_id reg_msg) s)"

definition register_ta_to_perm_serv :: "TEE_UUID \<Rightarrow> u32 \<Rightarrow> u32 \<Rightarrow> gtask \<Rightarrow> gtask" where
  "register_ta_to_perm_serv uuid taskid userid s = notify (Tee_ext_register_ta uuid taskid userid) s"

definition unregister_ta_to_perm_serv :: "TEE_UUID \<Rightarrow> u32 \<Rightarrow> u32 \<Rightarrow> gtask \<Rightarrow> gtask" where
  "unregister_ta_to_perm_serv uuid taskid userid s = notify (Tee_ext_unregister_ta uuid taskid userid) s"

definition send_ta_release_msg_to_perm_serv :: "TEE_UUID \<Rightarrow> gtask \<Rightarrow> gtask" where
  "send_ta_release_msg_to_perm_serv uuid s = notify (Tee_ext_notify_unload_ta uuid) s"

definition send_unregister_ta_to_sesrv :: "env \<Rightarrow> u32 \<Rightarrow> gtask \<Rightarrow> gtask" where
  "send_unregister_ta_to_sesrv E taskid s = (
    let ((rc, rslot), s) = ext_val E (Ipc_get_ch_from_path SE_PATH) s in
    if rc = - 1 then s
    else notify (Ipc_release_from_path SE_PATH rslot)
      (notify (Ipc_msg_notification rslot CMD_SESRV_UNREGISTER_TA (Msg_unreg_ta_se taskid)) s))"

definition send_msg_to_srv :: "env \<Rightarrow> string \<Rightarrow> payload \<Rightarrow> u32 \<Rightarrow> gtask \<Rightarrow> gtask" where
  "send_msg_to_srv E cur_task_name ta_info msg_id s = (
    let ((ret, ch), s) = ext_val E (Ipc_get_ch_from_path cur_task_name) s in
    if ret \<noteq> 0 then s
    else notify (Ipc_release_from_path cur_task_name ch) (notify (Ipc_msg_notification ch msg_id ta_info) s))"

text \<open>A call through a function pointer of a task.\<close>

definition register_ta_to_task :: "env \<Rightarrow> adaptor \<Rightarrow> u32 \<Rightarrow> TEE_UUID \<Rightarrow> u32 \<Rightarrow> bool \<Rightarrow> u32 \<Rightarrow> gtask \<Rightarrow> gtask" where
  "register_ta_to_task E f taskid uuid userid ssa dest s = (case f of
      Ssa_adaptor \<Rightarrow> send_register_ta_to_task E (Msg_reg_ta taskid uuid userid ssa) dest s
    | Perm_adaptor \<Rightarrow> register_ta_to_perm_serv uuid taskid userid s
    | _ \<Rightarrow> s)"

definition unregister_ta_to_task :: "env \<Rightarrow> adaptor \<Rightarrow> string \<Rightarrow> u32 \<Rightarrow> TEE_UUID \<Rightarrow> u32 \<Rightarrow> gtask \<Rightarrow> gtask" where
  "unregister_ta_to_task E f name taskid uuid dest s = (case f of
      Ssa_adaptor \<Rightarrow> send_unregister_ta_to_task E (Msg_reg_ta taskid uuid 0 False) dest s
    | Perm_adaptor \<Rightarrow> unregister_ta_to_perm_serv uuid taskid 0 s
    | Se_adaptor \<Rightarrow> send_unregister_ta_to_sesrv E taskid s
    | Dynamic_adaptor \<Rightarrow> send_msg_to_srv E name (Msg_reg_ta taskid uuid 0 False) TEE_TASK_CLOSE_TA_SESSION s)"

definition send_ta_create_msg_to_task :: "env \<Rightarrow> adaptor \<Rightarrow> string \<Rightarrow> u32 \<Rightarrow> TEE_UUID \<Rightarrow> gtask \<Rightarrow> gtask" where
  "send_ta_create_msg_to_task E f name pid uuid s = (case f of
      Dynamic_adaptor \<Rightarrow> send_msg_to_srv E name (Msg_reg_ta pid uuid 0 False) TEE_TASK_CREATE_TA_SERVICE s
    | _ \<Rightarrow> s)"

definition send_ta_release_msg_to_task :: "env \<Rightarrow> adaptor \<Rightarrow> string \<Rightarrow> TEE_UUID \<Rightarrow> gtask \<Rightarrow> gtask" where
  "send_ta_release_msg_to_task E f name uuid s = (case f of
      Dynamic_adaptor \<Rightarrow> send_msg_to_srv E name (Msg_reg_ta 0 uuid 0 False) TEE_TASK_RELEASE_TA_SERVICE s
    | Perm_adaptor \<Rightarrow> send_ta_release_msg_to_perm_serv uuid s
    | _ \<Rightarrow> s)"

text \<open>\<open>dlist_for_each\<close> over the task list.\<close>

fun for_each_task :: "(task_adaptor_info \<Rightarrow> gtask \<Rightarrow> gtask) \<Rightarrow> addr list \<Rightarrow> gtask \<Rightarrow> gtask option" where
  "for_each_task f [] s = Some s"
| "for_each_task f (a # as) s = do { t \<leftarrow> tasks s a; for_each_task f as (f t s) }"

definition task_adapt_register_ta :: "env \<Rightarrow> u32 \<Rightarrow> u32 \<Rightarrow> bool \<Rightarrow> TEE_UUID option \<Rightarrow> gtask \<Rightarrow> gtask option" where
  "task_adapt_register_ta E ta_task_id userid ssa_enum_enable uuid s = (case uuid of None \<Rightarrow> Some s
    | Some u \<Rightarrow> for_each_task (\<lambda>t s. case ti_register_ta_to_task t of None \<Rightarrow> s
        | Some f \<Rightarrow>
          if ti_task_id t \<noteq> INVALID_TASK_ID \<and> ta_task_id \<noteq> ti_task_id t
          then register_ta_to_task E f ta_task_id u userid ssa_enum_enable (ti_task_id t) s else s)
      (g_task_list_head s) s)"

definition task_adapt_unregister_ta :: "env \<Rightarrow> TEE_UUID option \<Rightarrow> u32 \<Rightarrow> gtask \<Rightarrow> gtask option" where
  "task_adapt_unregister_ta E ta_uuid ta_task_id s = (case ta_uuid of None \<Rightarrow> Some s
    | Some u \<Rightarrow> for_each_task (\<lambda>t s. case ti_unregister_ta_to_task t of None \<Rightarrow> s
        | Some f \<Rightarrow>
          if ti_task_id t \<noteq> INVALID_TASK_ID \<and> ta_task_id \<noteq> ti_task_id t
          then unregister_ta_to_task E f (ti_task_name t) ta_task_id u (ti_task_id t) s else s)
      (g_task_list_head s) s)"

definition task_adapt_ta_create :: "env \<Rightarrow> u32 \<Rightarrow> TEE_UUID option \<Rightarrow> gtask \<Rightarrow> gtask option" where
  "task_adapt_ta_create E pid uuid s = (case uuid of None \<Rightarrow> Some s
    | Some u \<Rightarrow> for_each_task (\<lambda>t s. case ti_send_ta_create_msg_to_task t of None \<Rightarrow> s
        | Some f \<Rightarrow>
          if ti_task_id t \<noteq> INVALID_TASK_ID \<and> u \<noteq> ti_uuid t
          then send_ta_create_msg_to_task E f (ti_task_name t) pid u s else s)
      (g_task_list_head s) s)"

definition task_adapt_ta_release :: "env \<Rightarrow> TEE_UUID option \<Rightarrow> gtask \<Rightarrow> gtask option" where
  "task_adapt_ta_release E uuid s = (case uuid of None \<Rightarrow> Some s
    | Some u \<Rightarrow> for_each_task (\<lambda>t s. case ti_send_ta_release_msg_to_task t of None \<Rightarrow> s
        | Some f \<Rightarrow>
          if ti_task_id t \<noteq> INVALID_TASK_ID \<and> u \<noteq> ti_uuid t
          then send_ta_release_msg_to_task E f (ti_task_name t) u s else s)
      (g_task_list_head s) s)"


section \<open>Agent tasks\<close>

text \<open>The pointer to the status of the agent is the entry that holds it.\<close>

definition is_service_agent_request :: "env \<Rightarrow> gtask \<Rightarrow> u32 \<Rightarrow> (u32 \<times> addr) option option" where
  "is_service_agent_request E s agent_task_id = do {
    e \<leftarrow> find_task_by_taskid E s agent_task_id;
    (case e of None \<Rightarrow> Some None
     | Some a \<Rightarrow> do {
        t \<leftarrow> tasks s a;
        Some (if ti_is_agent t then Some (ci_taskid (ti_caller_info t), a) else None)
      })
  }"

definition is_agent_response :: "gtask \<Rightarrow> u32 \<Rightarrow> (u32 \<times> u32 \<times> addr) option option" where
  "is_agent_response s agent_id = do {
    e \<leftarrow> find_entry (tasks s) (\<lambda>t. ti_agent_id t = agent_id \<and> ti_is_agent t) (g_task_list_head s);
    (case e of None \<Rightarrow> Some None
     | Some a \<Rightarrow> do { t \<leftarrow> tasks s a; Some (Some (ti_task_id t, ci_taskid (ti_caller_info t), a)) })
  }"

definition check_system_agent_permission :: "gtask \<Rightarrow> u32 \<Rightarrow> u32 \<Rightarrow> bool option" where
  "check_system_agent_permission s task_id agent_id = do {
    e \<leftarrow> find_entry (tasks s) (\<lambda>t. ti_is_agent t \<and> agent_id = ti_agent_id t \<and> task_id \<noteq> ti_task_id t) (g_task_list_head s);
    Some (e = None)
  }"

definition fs_agent_late_init :: "gtask \<Rightarrow> gtask" where
  "fs_agent_late_init s = notify Tee_ext_load_file s"


section \<open>The invariant of the task list\<close>

text \<open>
  Every task is linked once, no two tasks have the same UUID, and the count is the length of the list, which is at most
  \<open>MAX_TASK_NUM\<close>.
\<close>

definition wf_tasks :: "gtask \<Rightarrow> bool" where
  "wf_tasks s \<longleftrightarrow> distinct (g_task_list_head s) \<and> (\<forall>a. a \<in> set (g_task_list_head s) \<longleftrightarrow> tasks s a \<noteq> None) \<and>
    (\<forall>a b t u. tasks s a = Some t \<longrightarrow> tasks s b = Some u \<longrightarrow> ti_uuid t = ti_uuid u \<longrightarrow> a = b) \<and>
    unat (g_task_list_num s) = length (g_task_list_head s) \<and> length (g_task_list_head s) \<le> 20"

lemma wf_tasks_quiet: "quiet s s' \<Longrightarrow> wf_tasks s' = wf_tasks s"
  by (simp add: wf_tasks_def quietD)

lemma wf_tasks_notify [simp]: "wf_tasks (notify c s) = wf_tasks s"
  by (simp add: wf_tasks_def)

lemma wf_tasks_linked: "wf_tasks s \<Longrightarrow> a \<in> set (g_task_list_head s) \<Longrightarrow> tasks s a \<noteq> None"
  by (simp add: wf_tasks_def)

lemma for_each_task_quiet:
  assumes "\<And>a. a \<in> set as \<Longrightarrow> tasks s a \<noteq> None" "\<And>t s'. quiet s s' \<Longrightarrow> quiet s (f t s')" "quiet s s'"
  shows "okay (for_each_task f as s') (quiet s)"
  using assms(1,3)
proof (induction as arbitrary: s')
  case (Cons a as)
  then obtain t where "tasks s' a = Some t" using quietD(19)[OF Cons.prems(2)] by fastforce
  then show ?case using Cons assms(2) by simp
qed simp

lemma adaptor_call_quiet:
  "quiet s s' \<Longrightarrow> quiet s (send_msg_to_srv E n p i s')" "quiet s s' \<Longrightarrow> quiet s (register_ta_to_task E f t u i b d s')"
  "quiet s s' \<Longrightarrow> quiet s (unregister_ta_to_task E f n t u d s')" "quiet s s' \<Longrightarrow> quiet s (send_ta_create_msg_to_task E f n p' u s')"
  "quiet s s' \<Longrightarrow> quiet s (send_ta_release_msg_to_task E f n u s')"
  by (simp_all add: send_msg_to_srv_def register_ta_to_task_def unregister_ta_to_task_def send_ta_create_msg_to_task_def
      send_ta_release_msg_to_task_def send_register_ta_to_task_def send_unregister_ta_to_task_def send_unregister_ta_to_sesrv_def
      register_ta_to_perm_serv_def unregister_ta_to_perm_serv_def send_ta_release_msg_to_perm_serv_def ext_pair Let_def split: adaptor.splits)

text \<open>Broadcasts to the tasks only make calls.\<close>

lemma task_adapt_quiet:
  assumes "wf_tasks s"
  shows "okay (task_adapt_register_ta E t i b u s) (quiet s)" "okay (task_adapt_unregister_ta E u t s) (quiet s)"
    "okay (task_adapt_ta_create E t u s) (quiet s)" "okay (task_adapt_ta_release E u s) (quiet s)"
proof -
  have dom: "tasks s a \<noteq> None" if "a \<in> set (g_task_list_head s)" for a using assms that by (simp add: wf_tasks_def)
  show "okay (task_adapt_register_ta E t i b u s) (quiet s)" "okay (task_adapt_unregister_ta E u t s) (quiet s)"
    "okay (task_adapt_ta_create E t u s) (quiet s)" "okay (task_adapt_ta_release E u s) (quiet s)"
    unfolding task_adapt_register_ta_def task_adapt_unregister_ta_def task_adapt_ta_create_def task_adapt_ta_release_def
    by (cases u; simp; intro for_each_task_quiet[OF dom]; simp add: adaptor_call_quiet split: option.splits)+
qed

lemma task_list_cases [consumes 1, case_names none some]:
  assumes wf: "wf_tasks s"
  obtains "find_entry (tasks s) P (g_task_list_head s) = Some None" "\<And>a t. tasks s a = Some t \<Longrightarrow> \<not> P t"
  | a t where "find_entry (tasks s) P (g_task_list_head s) = Some (Some a)" "tasks s a = Some t" "P t" "a \<in> set (g_task_list_head s)"
proof (rule find_entry_cases[where P = P and as = "g_task_list_head s" and h = "tasks s"])
  assume 1: "find_entry (tasks s) P (g_task_list_head s) = Some None"
    "\<And>a x. a \<in> set (g_task_list_head s) \<Longrightarrow> tasks s a = Some x \<Longrightarrow> \<not> P x"
  then show thesis using wf by (intro that(1)) (auto simp: wf_tasks_def)
qed (use wf that(2) in \<open>auto simp: wf_tasks_linked\<close>)

text \<open>The lookup by UUID returns the entry with this UUID, whenever there is one.\<close>

lemma find_task_by_uuid_wf:
  assumes wf: "wf_tasks s"
  shows "find_task_by_uuid s (Some u) = Some (Some a) \<longleftrightarrow> (\<exists>t. tasks s a = Some t \<and> ti_uuid t = u)"
  using wf
proof (cases rule: task_list_cases[where P = "\<lambda>t. ti_uuid t = u"])
  case none
  then show ?thesis by (auto simp: find_task_by_uuid_def)
next
  case (some b x)
  moreover have "a = b" if "tasks s a = Some t" "ti_uuid t = u" for t
    using wf that some(2,3) unfolding wf_tasks_def by blast
  ultimately show ?thesis by (auto simp: find_task_by_uuid_def)
qed

lemma find_task_by_uuid_total: "wf_tasks s \<Longrightarrow> \<exists>e. find_task_by_uuid s (Some u) = Some e"
  by (cases rule: task_list_cases[where P = "\<lambda>t. ti_uuid t = u"]) (auto simp: find_task_by_uuid_def)

lemma add_task_to_list_okay:
  assumes wf: "wf_tasks s"
  shows "okay (add_task_to_list E (Some u) name cfg s) (\<lambda>(e, s'). wf_tasks s' \<and>
    (case e of None \<Rightarrow> quiet s s' | Some a \<Rightarrow> find_task_by_uuid s' (Some u) = Some (Some a)) \<and>
    services s' = services s \<and> sessions s' = sessions s \<and> agents s' = agents s)"
proof -
  obtain e where e: "find_task_by_uuid s (Some u) = Some e" using find_task_by_uuid_total[OF wf] by blast
  show ?thesis
  proof (cases e)
    case (Some a)
    then show ?thesis using e wf by (simp add: add_task_to_list_def)
  next
    case None
    then have fresh: "ti_uuid t \<noteq> u" if "tasks s a = Some t" for a t
      using e that find_task_by_uuid_wf[OF wf, of u a] by auto
    show ?thesis
    proof (cases "g_task_list_num s \<ge> MAX_TASK_NUM")
      case True
      then show ?thesis using e None wf by (simp add: add_task_to_list_def)
    next
      case False
      then have len: "length (g_task_list_head s) < 20" using wf by (simp add: wf_tasks_def word_le_nat_alt)
      show ?thesis
      proof (cases rule: TEE_Malloc_cases[of E s])
        case 1
        then show ?thesis using e None False wf by (simp add: add_task_to_list_def)
      next
        case (2 a)
        let ?t = "\<lambda>t. ti_uuid t = u"
        have new: "tasks s a = None" "a \<notin> set (g_task_list_head s)" using 2(2) wf by (auto simp: in_use_def wf_tasks_def)
        have num: "unat (g_task_list_num s + 1) = Suc (length (g_task_list_head s))"
          using wf len by (simp add: wf_tasks_def unat_word_ariths)
        have add: "wf_tasks s' \<and> find_task_by_uuid s' (Some u) = Some (Some a)"
          if s': "tasks s' = (tasks s)(a \<mapsto> t)" "g_task_list_head s' = g_task_list_head s @ [a]"
            "g_task_list_num s' = g_task_list_num s + 1" "ti_uuid t = u" for s' t
        proof -
          have "wf_tasks s'"
            using wf new len num fresh that by (auto simp: wf_tasks_def dest: fresh)
          then show ?thesis using find_task_by_uuid_wf[of s' u a] that by auto
        qed
        show ?thesis
        proof (cases "length name > MAX_TASK_NAME_LEN")
          case True
          then show ?thesis using e None False 2(1) wf by (simp add: add_task_to_list_def)
        next
          case name: False
          then show ?thesis
            using e None False 2(1) add[OF _ _ _ ti_uuid_new_task] by (simp add: add_task_to_list_def)
        qed
      qed
    qed
  qed
qed

lemma del_task_from_list_okay:
  assumes wf: "wf_tasks s"
  shows "okay (del_task_from_list (Some u) s) (\<lambda>s'. wf_tasks s' \<and> find_task_by_uuid s' (Some u) = Some None \<and>
    (\<forall>a t. tasks s' a = Some t \<longleftrightarrow> tasks s a = Some t \<and> ti_uuid t \<noteq> u) \<and>
    services s' = services s \<and> sessions s' = sessions s \<and> agents s' = agents s)"
proof -
  have gone: "find_task_by_uuid s' (Some u) = Some None" if "wf_tasks s'" "\<And>a t. tasks s' a = Some t \<Longrightarrow> ti_uuid t \<noteq> u" for s'
    using find_task_by_uuid_total[OF that(1), of u] find_task_by_uuid_wf[OF that(1), of u] that(2)
    by (metis not_None_eq)
  from wf show ?thesis
  proof (cases rule: task_list_cases[where P = "\<lambda>t. ti_uuid t = u"])
    case none
    have "del_task_from_list (Some u) s = Some s" using none(1) by (simp add: del_task_from_list_def)
    moreover have "\<forall>b t. tasks s b = Some t \<longleftrightarrow> tasks s b = Some t \<and> ti_uuid t \<noteq> u" using none(2) by blast
    ultimately show ?thesis unfolding okay_iff using wf gone[OF wf none(2)]
      by (intro exI[of _ s] conjI) (assumption | rule refl)+
  next
    case (some a x)
    note 2 = some(1,4,2,3)
    let ?s = "s\<lparr>g_task_list_head := remove1 a (g_task_list_head s), tasks := (tasks s)(a := None), g_task_list_num := g_task_list_num s - 1\<rparr>"
    have pos: "0 < length (g_task_list_head s)" by (rule length_pos_if_in_set[OF 2(2)])
    then have n: "g_task_list_num s > 0" using wf by (simp add: wf_tasks_def word_less_nat_alt)
    then have "1 \<le> g_task_list_num s" by (simp add: word_le_nat_alt word_less_nat_alt)
    then have "unat (g_task_list_num s - 1) = unat (g_task_list_num s) - 1" by (simp add: unat_sub)
    then have "wf_tasks ?s"
      using wf 2(2) by (auto simp: wf_tasks_def length_remove1)
    moreover have uniq: "b = a" if "tasks s b = Some t" "ti_uuid t = u" for b t
      using wf that 2(3,4) unfolding wf_tasks_def by blast
    ultimately have wf': "wf_tasks ?s" and left: "tasks ?s b = Some t \<Longrightarrow> ti_uuid t \<noteq> u" for b t by (auto split: if_splits)
    have "tasks ?s b = Some t \<longleftrightarrow> tasks s b = Some t \<and> ti_uuid t \<noteq> u" for b t
    proof (cases "b = a")
      case False
      then have "tasks s b = Some t \<longrightarrow> ti_uuid t \<noteq> u" using uniq by blast
      then show ?thesis using False by auto
    qed (use 2(3,4) in auto)
    moreover have "del_task_from_list (Some u) s = Some ?s" using 2(1) n by (simp add: del_task_from_list_def)
    ultimately show ?thesis unfolding okay_iff using wf' gone[OF wf' left] by (intro exI[of _ ?s] conjI allI) (assumption | simp)+
  qed
qed

end
