(* ===== verification/Tee_Task.thy ===== *)
theory Tee_Task
  imports Task_Adaptor
begin

text \<open>
  Creating and deleting the tasks of a service, \<open>framework/gtask/src/framework/tee_task.c\<close>.  The first task of a service
  is its process, later ones are threads that the service thread creates on request; the global task then waits for
  the acknowledgement of the service thread, dropping messages of other senders, until a timer message ends the wait.
  Building the argument and environment strings of the new process is a call to the environment.
\<close>

section \<open>Operations\<close>

abbreviation (input) SUCC_RET :: int where "SUCC_RET \<equiv> 0"
abbreviation (input) NORMAL_FAIL_RET :: int where "NORMAL_FAIL_RET \<equiv> -1"
abbreviation (input) TIMEOUT_FAIL_RET :: int where "TIMEOUT_FAIL_RET \<equiv> -2"
abbreviation (input) CREATE_THREAD_FAIL :: u32 where "CREATE_THREAD_FAIL \<equiv> 0xFFFFFFFF"
abbreviation (input) TIMER_CALLBACK_TIMEOUT :: u32 where "TIMER_CALLBACK_TIMEOUT \<equiv> 3"
abbreviation (input) MAX_STACK_SIZE :: u64 where "MAX_STACK_SIZE \<equiv> 8388608"
abbreviation (input) PAGE_SIZE :: u64 where "PAGE_SIZE \<equiv> 4096"
abbreviation (input) TA_STACK_MAX :: u64 where "TA_STACK_MAX \<equiv> 5"
abbreviation (input) CALL_TA_CREATE_THREAD :: u32 where "CALL_TA_CREATE_THREAD \<equiv> 0x19"
abbreviation (input) CALL_TA_REMOVE_THREAD :: u32 where "CALL_TA_REMOVE_THREAD \<equiv> 0x22"
abbreviation (input) EINVAL_RET :: int where "EINVAL_RET \<equiv> -22"

fun wait_children :: "env \<Rightarrow> u32 \<Rightarrow> nat \<Rightarrow> gtask \<Rightarrow> gtask" where
  "wait_children E task_id 0 s = s"
| "wait_children E task_id (Suc n) s = (
    let ((r, v), s) = ext_val E Wait_child s in
    if ucast v = taskid_to_pid E task_id then s else wait_children E task_id n s)"

definition gt_wait_process :: "env \<Rightarrow> u32 \<Rightarrow> gtask \<Rightarrow> gtask" where
  "gt_wait_process E task_id s = wait_children E task_id 5 (notify (Ipc_release_from_taskid task_id) s)"

text \<open>The receive loop that \<open>gt_create_thread\<close> and \<open>gt_recycle_thread\<close> share: they differ in the sender they wait for.\<close>

partial_function (option) wait_service_ack ::
  "env \<Rightarrow> (u32 \<Rightarrow> bool) \<Rightarrow> gtask \<Rightarrow> ((int \<times> u32 \<times> u32) \<times> gtask) option" where
  "wait_service_ack E from s = (
    let ((rc, msg_id, sender), s) = ipc_msg_q_recv E s in
    if rc \<noteq> 0 then Some ((NORMAL_FAIL_RET, 0, 0), s)
    else if taskid_to_pid E sender = timer_pid E \<and> msg_id = TIMER_CALLBACK_TIMEOUT then Some ((TIMEOUT_FAIL_RET, 0, 0), s)
    else if from sender then Some ((SUCC_RET, msg_id, sender), s)
    else wait_service_ack E from s)"

declare wait_service_ack.simps [code]

definition gt_create_thread :: "env \<Rightarrow> gtask \<Rightarrow> ((int \<times> u32 option) \<times> gtask) option" where
  "gt_create_thread E s = (case g_cur_service s of None \<Rightarrow> Some ((NORMAL_FAIL_RET, None), s)
    | Some a \<Rightarrow> do {
        v \<leftarrow> services s a;
        if v_service_thread v = 0 then Some ((NORMAL_FAIL_RET, None), s)
        else (
          let stack_size = ucast (p_stack_size (v_property v)) :: u64 in
          if stack_size > MAX_STACK_SIZE then Some ((NORMAL_FAIL_RET, None), s)
          else if stack_size + PAGE_SIZE \<le> stack_size then Some ((NORMAL_FAIL_RET, None), s)
          else (
            let (rc, s) = ext_ret E (Ipc_msg_snd CALL_TA_CREATE_THREAD (v_service_thread v)
                  (Msg_create_thread (stack_size + PAGE_SIZE))) s in
            if rc \<noteq> 0 then Some ((NORMAL_FAIL_RET, None), s)
            else do {
              ((ret, msg_id, sender), s) \<leftarrow>
                wait_service_ack E (\<lambda>x. taskid_to_pid E x = taskid_to_pid E (v_service_thread v)) s;
              if ret \<noteq> SUCC_RET then Some ((ret, None), s)
              else if msg_id = CREATE_THREAD_FAIL then Some ((NORMAL_FAIL_RET, None), s)
              else Some ((SUCC_RET, Some sender), s)
            }))
      })"

definition gt_recycle_thread :: "env \<Rightarrow> u32 \<Rightarrow> u32 \<Rightarrow> gtask \<Rightarrow> (int \<times> gtask) option" where
  "gt_recycle_thread E task_id session_id s = (case g_cur_service s of None \<Rightarrow> Some (NORMAL_FAIL_RET, s)
    | Some a \<Rightarrow> do {
        v \<leftarrow> services s a;
        if v_service_thread v = 0 then Some (NORMAL_FAIL_RET, s)
        else (
          let (rc, s) = ext_ret E (Ipc_msg_snd CALL_TA_REMOVE_THREAD (v_service_thread v)
                (Msg_remove_thread (taskid_to_tid E task_id) session_id)) s in
          if rc \<noteq> 0 then Some (NORMAL_FAIL_RET, s)
          else do {
            ((ret, msg_id, sender), s) \<leftarrow> wait_service_ack E (\<lambda>x. x = v_service_thread v) s;
            if ret \<noteq> SUCC_RET then Some (ret, s)
            else if msg_id \<noteq> 0 then Some (NORMAL_FAIL_RET, s)
            else Some (SUCC_RET, s)
          })
      })"

definition set_stack_size :: "env \<Rightarrow> ta_property \<Rightarrow> gtask \<Rightarrow> int \<times> gtask" where
  "set_stack_size E p s = (
    let stack_size = ucast (p_stack_size p) :: u64 in
    if stack_size > MAX_STACK_SIZE then (- 1, s)
    else (let total_size = stack_size + PAGE_SIZE in
      if total_size \<le> stack_size then (- 1, s)
      else (let total_size = (if total_size < PAGE_SIZE * 2 then PAGE_SIZE * 2 else total_size);
                (rc, s) = ext_ret E (Spawnattr_setstack total_size) s
            in (sint rc, s))))"

definition get_mem_total_size :: "ta_property \<Rightarrow> u64 option" where
  "get_mem_total_size p = (
    let heap_size = ucast (p_heap_size p) :: u64; stack_size = ucast (p_stack_size p) :: u64 in
    if p_multi_session p then
      (let tmp_size = stack_size * TA_STACK_MAX in
       if tmp_size \<le> stack_size then None
       else (let total_size = heap_size + tmp_size in
             if total_size \<le> heap_size \<or> total_size \<le> tmp_size then None else Some total_size))
    else
      (let tmp_size = stack_size; total_size = heap_size + tmp_size in
       if total_size \<le> heap_size \<or> total_size \<le> tmp_size then None else Some total_size))"

definition tee_spawn_with_attr :: "env \<Rightarrow> TEE_UUID \<Rightarrow> gtask \<Rightarrow> ((int \<times> u32) \<times> gtask) option" where
  "tee_spawn_with_attr E uuid s = (
    let (rc, s) = ext_ret E Spawnattr_init s in
    if rc \<noteq> 0 then Some ((- 1, 0), s)
    else case g_cur_service s of None \<Rightarrow> Some ((- 1, 0), s)
    | Some a \<Rightarrow> do {
        v \<leftarrow> services s a;
        let (rc, s) = set_stack_size E (v_property v) s;
        if rc \<noteq> 0 then Some ((- 1, 0), s)
        else (case get_mem_total_size (v_property v) of None \<Rightarrow> Some ((- 1, 0), s)
          | Some heap_size \<Rightarrow> (
              let (rc, s) = ext_ret E (Spawnattr_setheap heap_size) s in
              if rc \<noteq> 0 then Some ((- 1, 0), s)
              else (
                let ((rc, val), s) = ext_val E (Posix_spawn_ex uuid) s in
                if rc \<noteq> 0 then Some ((- 1, 0), s) else Some ((0, ucast val), s))))
      })"

text \<open>A failed receive leaves the message id and the sender as they were, and the loop goes on.\<close>

partial_function (option) wait_srvc_thread_message ::
  "env \<Rightarrow> u32 \<Rightarrow> u32 \<times> u32 \<Rightarrow> gtask \<Rightarrow> ((u32 \<times> u32) \<times> gtask) option" where
  "wait_srvc_thread_message E service_thread cur s = (
    let ((rc, m, x), s) = ipc_msg_q_recv E s; (msg_id, task_id) = (if rc \<noteq> 0 then cur else (m, x)) in
    if taskid_to_pid E task_id = timer_pid E \<and> msg_id = TIMER_CALLBACK_TIMEOUT then Some ((CREATE_THREAD_FAIL, task_id), s)
    else if taskid_to_pid E task_id = taskid_to_pid E service_thread then Some ((msg_id, task_id), s)
    else wait_srvc_thread_message E service_thread (msg_id, task_id) s)"

declare wait_srvc_thread_message.simps [code]

text \<open>The message id is uninitialised until the first receive succeeds; \<open>msg0\<close> is the value it happens to have.\<close>

definition create_service_thread :: "env \<Rightarrow> u32 \<Rightarrow> TEE_UUID \<Rightarrow> gtask \<Rightarrow> ((int \<times> u32 option) \<times> gtask) option" where
  "create_service_thread E msg0 uuid s = do {
    ((ret, service_thread), s) \<leftarrow> tee_spawn_with_attr E uuid s;
    if ret \<noteq> 0 then Some ((- 1, None), s)
    else do {
      ((msg_id, task_id), s) \<leftarrow> wait_srvc_thread_message E service_thread (msg0, 0) s;
      if msg_id = CREATE_THREAD_FAIL then
        (let (k, s) = ext_ret E (Kill_task (taskid_to_pid E service_thread)) s in
         Some ((- 1, None), if k = 0 then gt_wait_process E service_thread s else s))
      else do {
        a \<leftarrow> g_cur_service s;
        s \<leftarrow> upd_service a (\<lambda>v. v\<lparr>v_service_thread := service_thread\<rparr>) s;
        v \<leftarrow> services s a;
        s \<leftarrow> task_adapt_ta_create E (taskid_to_pid E service_thread) (Some (v_uuid v)) s;
        Some ((0, Some task_id), s)
      }
    }
  }"

definition gt_create_proc :: "env \<Rightarrow> u32 \<Rightarrow> TEE_UUID \<Rightarrow> gtask \<Rightarrow> ((int \<times> u32 option) \<times> gtask) option" where
  "gt_create_proc E msg0 uuid s = (
    let (rc, s) = ext_ret E (Init_spawn_argv_env uuid) s in
    if rc \<noteq> 0 then Some ((- 1, None), s) else create_service_thread E msg0 uuid s)"

definition sre_task_create :: "env \<Rightarrow> u32 \<Rightarrow> TEE_UUID option \<Rightarrow> gtask \<Rightarrow> ((int \<times> u32 option) \<times> gtask) option" where
  "sre_task_create E msg0 init_param s = (case (init_param, g_cur_service s) of
      (Some uuid, Some a) \<Rightarrow> do {
        v \<leftarrow> services s a;
        if v_service_thread v = 0 then gt_create_proc E msg0 uuid s else gt_create_thread E s
      }
    | _ \<Rightarrow> Some ((EINVAL_RET, None), s))"

definition sre_task_delete_ex :: "env \<Rightarrow> u32 \<Rightarrow> bool \<Rightarrow> u32 \<Rightarrow> gtask \<Rightarrow> (int \<times> gtask) option" where
  "sre_task_delete_ex E uw_task_pid is_service_dead session_id s = (
    let s = notify (Ipc_release_from_taskid uw_task_pid) s in
    if is_service_dead then Some (SUCC_RET, s)
    else gt_recycle_thread E uw_task_pid session_id s)"


section \<open>The waits end, and nothing but the service thread is recorded\<close>

text \<open>
  What the waits rely on: after every history, some later receive delivers the timer message.
\<close>

definition timer_fires :: "env \<Rightarrow> bool" where
  "timer_fires E \<longleftrightarrow> (\<forall>h. \<exists>k. \<exists>x. env_recv E (replicate k Ipc_msg_q_recv @ h) = (0, TIMER_CALLBACK_TIMEOUT, x) \<and>
    taskid_to_pid E x = timer_pid E)"

lemma wait_service_ack_ends:
  assumes "env_recv E (replicate k Ipc_msg_q_recv @ history s) = (0, TIMER_CALLBACK_TIMEOUT, x)"
    "taskid_to_pid E x = timer_pid E"
  shows "okay (wait_service_ack E from s) (\<lambda>((ret, msg_id, sender), s'). quiet s s' \<and>
    (ret = SUCC_RET \<longrightarrow> from sender) \<and> (ret = SUCC_RET \<or> ret = NORMAL_FAIL_RET \<or> ret = TIMEOUT_FAIL_RET))"
  using assms(1)
proof (induction k arbitrary: s)
  case 0
  then show ?case
    using assms(2) by (subst wait_service_ack.simps) (simp add: ipc_msg_q_recv_pair)
next
  case (Suc k)
  obtain rc m y where r: "env_recv E (history s) = (rc, m, y)" by (metis prod_cases3)
  have "env_recv E (replicate k Ipc_msg_q_recv @ history (notify Ipc_msg_q_recv s)) = (0, TIMER_CALLBACK_TIMEOUT, x)"
    using Suc.prems by (simp add: notify_def replicate_app_Cons_same)
  from Suc.IH[OF this] show ?case
    by (subst wait_service_ack.simps) (simp add: ipc_msg_q_recv_pair r)
qed

lemma wait_srvc_thread_message_ends:
  assumes "env_recv E (replicate k Ipc_msg_q_recv @ history s) = (0, TIMER_CALLBACK_TIMEOUT, x)"
    "taskid_to_pid E x = timer_pid E"
  shows "okay (wait_srvc_thread_message E service_thread cur s) (\<lambda>((msg_id, task_id), s'). quiet s s' \<and>
    (msg_id \<noteq> CREATE_THREAD_FAIL \<longrightarrow> taskid_to_pid E task_id = taskid_to_pid E service_thread))"
  using assms(1)
proof (induction k arbitrary: s cur)
  case 0
  then show ?case
    using assms(2) by (subst wait_srvc_thread_message.simps) (simp add: ipc_msg_q_recv_pair)
next
  case (Suc k)
  obtain rc m y where r: "env_recv E (history s) = (rc, m, y)" by (metis prod_cases3)
  have "env_recv E (replicate k Ipc_msg_q_recv @ history (notify Ipc_msg_q_recv s)) = (0, TIMER_CALLBACK_TIMEOUT, x)"
    using Suc.prems by (simp add: notify_def replicate_app_Cons_same)
  note IH = Suc.IH[OF this]
  obtain c1 c2 where cur: "cur = (c1, c2)" by fastforce
  show ?case
    using IH[of "(c1, c2)"] IH[of "(m, y)"]
    by (subst wait_srvc_thread_message.simps, cases "rc = 0") (simp_all add: ipc_msg_q_recv_pair r cur)
qed

lemma gt_wait_process_quiet [simp]:
  assumes "quiet s0 s"
  shows "quiet s0 (gt_wait_process E t s)"
proof -
  have "quiet s (wait_children E t n s)" for n s
  proof (induction n arbitrary: s)
    case (Suc n)
    show ?case using Suc[of "notify Wait_child s"] by (simp add: ext_pair)
  qed simp
  from this[of "notify (Ipc_release_from_taskid t) s"] have "quiet s (gt_wait_process E t s)"
    by (simp add: gt_wait_process_def)
  with assms show ?thesis by (rule quiet_trans)
qed

definition cur_service_ok :: "gtask \<Rightarrow> bool" where
  "cur_service_ok s \<longleftrightarrow> (case g_cur_service s of None \<Rightarrow> True | Some a \<Rightarrow> services s a \<noteq> None)"

lemma cur_service_ok_notify [simp]: "cur_service_ok (notify c s) = cur_service_ok s"
  by (simp add: cur_service_ok_def split: option.splits)

lemma timer_firesE:
  assumes "timer_fires E"
  obtains k x where "env_recv E (replicate k Ipc_msg_q_recv @ h) = (0, TIMER_CALLBACK_TIMEOUT, x)"
    "taskid_to_pid E x = timer_pid E"
  using assms unfolding timer_fires_def by blast

lemma wait_service_ack_okay:
  assumes "timer_fires E"
  shows "okay (wait_service_ack E from s) (\<lambda>((ret, msg_id, sender), s'). quiet s s' \<and>
    (ret = SUCC_RET \<longrightarrow> from sender) \<and> (ret = SUCC_RET \<or> ret = NORMAL_FAIL_RET \<or> ret = TIMEOUT_FAIL_RET))"
  by (rule timer_firesE[OF assms, of "history s"]) (rule wait_service_ack_ends)

lemma wait_srvc_thread_message_okay:
  assumes "timer_fires E"
  shows "okay (wait_srvc_thread_message E service_thread cur s) (\<lambda>((msg_id, task_id), s'). quiet s s' \<and>
    (msg_id \<noteq> CREATE_THREAD_FAIL \<longrightarrow> taskid_to_pid E task_id = taskid_to_pid E service_thread))"
  by (rule timer_firesE[OF assms, of "history s"]) (rule wait_srvc_thread_message_ends)

lemma gt_create_thread_okay:
  assumes "timer_fires E" "g_cur_service s = Some a" "services s a = Some v"
  shows "okay (gt_create_thread E s) (\<lambda>((ret, t), s'). quiet s s' \<and>
    (if ret = SUCC_RET then \<exists>x. t = Some x \<and> taskid_to_pid E x = taskid_to_pid E (v_service_thread v) else t = None))"
proof -
  define s1 where "s1 = notify (Ipc_msg_snd CALL_TA_CREATE_THREAD (v_service_thread v)
    (Msg_create_thread (ucast (p_stack_size (v_property v)) + PAGE_SIZE))) s"
  have "okay (wait_service_ack E (\<lambda>x. taskid_to_pid E x = taskid_to_pid E (v_service_thread v)) s1)
      (\<lambda>((ret, msg_id, sender), s'). quiet s s' \<and>
    (ret = SUCC_RET \<longrightarrow> taskid_to_pid E sender = taskid_to_pid E (v_service_thread v)))"
    by (rule okay_conseq[OF wait_service_ack_okay[OF assms(1)]]) (auto simp: s1_def)
  then show ?thesis
    using assms(2,3)
    by (auto simp: gt_create_thread_def ext_pair s1_def[symmetric] okay_bind Let_def elim!: okay_conseq)
       (simp_all add: s1_def)
qed

lemma gt_recycle_thread_okay:
  assumes "timer_fires E" "cur_service_ok s"
  shows "okay (gt_recycle_thread E task_id session_id s) (\<lambda>(ret, s'). quiet s s')"
proof (cases "g_cur_service s")
  case (Some a)
  then obtain v where v: "services s a = Some v" using assms(2) by (auto simp: cur_service_ok_def)
  define s1 where "s1 = notify (Ipc_msg_snd CALL_TA_REMOVE_THREAD (v_service_thread v)
    (Msg_remove_thread (taskid_to_tid E task_id) session_id)) s"
  have "okay (wait_service_ack E (\<lambda>x. x = v_service_thread v) s1) (\<lambda>((ret, msg_id, sender), s'). quiet s s')"
    by (rule okay_conseq[OF wait_service_ack_okay[OF assms(1)]]) (auto simp: s1_def)
  then show ?thesis
    using Some v
    by (auto simp: gt_recycle_thread_def ext_pair s1_def[symmetric] okay_bind Let_def elim!: okay_conseq)
       (simp_all add: s1_def)
qed (simp add: gt_recycle_thread_def)

lemma sre_task_delete_ex_okay:
  assumes "timer_fires E" "cur_service_ok s"
  shows "okay (sre_task_delete_ex E t dead session_id s) (\<lambda>(ret, s'). quiet s s')"
  using gt_recycle_thread_okay[OF assms(1), of "notify (Ipc_release_from_taskid t) s"] assms(2)
  by (simp add: sre_task_delete_ex_def Let_def)

text \<open>Steps that change nothing but the thread of one service and the history.\<close>

definition sets_thread :: "addr \<Rightarrow> gtask \<Rightarrow> gtask \<Rightarrow> bool" where
  "sets_thread a s s' \<longleftrightarrow> (\<exists>v t h. services s a = Some v \<and>
    s' = s\<lparr>services := (services s)(a \<mapsto> v\<lparr>v_service_thread := t\<rparr>), history := h\<rparr>)"

lemma quiet_sets_thread:
  assumes "quiet s s'" "services s a = Some v"
  shows "sets_thread a s s'"
proof -
  obtain h where "s' = s\<lparr>history := h\<rparr>" using assms(1) by (auto simp: quiet_def)
  then have "s' = s\<lparr>services := (services s)(a \<mapsto> v\<lparr>v_service_thread := v_service_thread v\<rparr>), history := h\<rparr>"
    using assms(2) by (simp add: fun_upd_idem)
  then show ?thesis using assms(2) unfolding sets_thread_def by blast
qed

lemma set_stack_size_quiet: "quiet s (snd (set_stack_size E p s))"
  by (simp add: set_stack_size_def Let_def case_prod_beta)

lemma tee_spawn_with_attr_okay:
  assumes "cur_service_ok s"
  shows "okay (tee_spawn_with_attr E u s) (\<lambda>(r, s'). quiet s s')"
proof -
  define s0 where "s0 = notify Spawnattr_init s"
  have q: "quiet s s0" by (simp add: s0_def)
  show ?thesis
  proof (cases "g_cur_service s")
    case None
    then show ?thesis using q by (simp add: tee_spawn_with_attr_def ext_pair s0_def)
  next
    case (Some a)
    then obtain v where v: "services s0 a = Some v" using assms by (auto simp: cur_service_ok_def s0_def)
    obtain rc s1 where s1: "set_stack_size E (v_property v) s0 = (rc, s1)" by fastforce
    then have "quiet s s1" using set_stack_size_quiet[of s0 E "v_property v"] by (simp add: s0_def)
    then show ?thesis
      using q Some v s1
      by (auto simp: tee_spawn_with_attr_def ext_pair s0_def[symmetric] quietD[OF q] split: option.splits)
  qed
qed

lemma create_service_thread_okay:
  assumes tf: "timer_fires E" and wf: "wf_tasks s" and a: "g_cur_service s = Some a" "services s a = Some v"
  shows "okay (create_service_thread E msg0 u s) (\<lambda>((ret, t), s'). sets_thread a s s' \<and>
    (if ret = 0 then \<exists>x w. t = Some x \<and> services s' a = Some w \<and> taskid_to_pid E x = taskid_to_pid E (v_service_thread w)
     else t = None \<and> quiet s s'))"
proof -
  have "cur_service_ok s" using a by (simp add: cur_service_ok_def)
  from tee_spawn_with_attr_okay[OF this, of E u]
  obtain ret st s1 where s1: "tee_spawn_with_attr E u s = Some ((ret, st), s1)" "quiet s s1"
    by (elim okayE) auto
  obtain m t s2 where s2: "wait_srvc_thread_message E st (msg0, 0) s1 = Some ((m, t), s2)" "quiet s1 s2"
      "m \<noteq> CREATE_THREAD_FAIL \<longrightarrow> taskid_to_pid E t = taskid_to_pid E st"
    using wait_srvc_thread_message_okay[OF tf, of st "(msg0, 0)" s1] by (elim okayE) auto
  have q2: "quiet s s2" using s1(2) s2(2) by (rule quiet_trans)
  have fail: "sets_thread a s s'" if "quiet s s'" for s'
    using quiet_sets_thread[OF that a(2)] .
  have q3: "quiet s (gt_wait_process E st (notify c s2))" for c
    using q2 by simp
  show ?thesis
  proof (cases "ret = 0 \<and> m \<noteq> CREATE_THREAD_FAIL")
    case True
    obtain h where h: "s2 = s\<lparr>history := h\<rparr>" using q2 by (auto simp: quiet_def)
    define s3 where "s3 = s2\<lparr>services := (services s2)(a \<mapsto> v\<lparr>v_service_thread := st\<rparr>)\<rparr>"
    have "wf_tasks s3" using wf by (simp add: s3_def h wf_tasks_def)
    then obtain s4 where s4: "task_adapt_ta_create E (taskid_to_pid E st) (Some (v_uuid v)) s3 = Some s4" "quiet s3 s4"
      using task_adapt_quiet(3)[of s3 E "taskid_to_pid E st" "Some (v_uuid v)"] by (auto simp: okay_iff)
    have "sets_thread a s s4" using a(2) s4(2) unfolding sets_thread_def s3_def h quiet_def by auto
    moreover have "services s4 a = Some (v\<lparr>v_service_thread := st\<rparr>)" using quietD(2)[OF s4(2)] by (simp add: s3_def)
    moreover have "create_service_thread E msg0 u s = Some ((0, Some t), s4)"
      using True s1(1) s2(1) a s4(1) by (simp add: create_service_thread_def quietD[OF q2] s3_def v_uuid_def)
    ultimately show ?thesis using True s2(3) by simp
  next
    case False
    then show ?thesis
      using s1 s2(1) fail[OF s1(2)] fail[OF q2] fail[OF q3] q2 q3
      by (auto simp: create_service_thread_def ext_pair fail)
  qed
qed

lemma sre_task_create_okay:
  assumes tf: "timer_fires E" and wf: "wf_tasks s" and a: "g_cur_service s = Some a" "services s a = Some v"
  shows "okay (sre_task_create E msg0 (Some u) s) (\<lambda>((ret, t), s'). sets_thread a s s' \<and>
    (if ret = 0 then \<exists>x w. t = Some x \<and> services s' a = Some w \<and> taskid_to_pid E x = taskid_to_pid E (v_service_thread w)
     else t = None \<and> quiet s s'))"
proof (cases "v_service_thread v = 0")
  case True
  let ?s = "notify (Init_spawn_argv_env u) s"
  have "sets_thread a ?s s' \<longleftrightarrow> sets_thread a s s'" for s'
    by (simp add: sets_thread_def notify_def)
  then have "okay (create_service_thread E msg0 u ?s) (\<lambda>((ret, t), s'). sets_thread a s s' \<and>
    (if ret = 0 then \<exists>x w. t = Some x \<and> services s' a = Some w \<and> taskid_to_pid E x = taskid_to_pid E (v_service_thread w)
     else t = None \<and> quiet s s'))"
    using a wf by (intro okay_conseq[OF create_service_thread_okay[OF tf, of ?s a v msg0 u]]) (auto split: if_splits)
  then show ?thesis
    using True a quiet_sets_thread[of s ?s a v] by (simp add: sre_task_create_def gt_create_proc_def ext_pair)
next
  case False
  have "okay (gt_create_thread E s) (\<lambda>((ret, t), s'). sets_thread a s s' \<and>
    (if ret = 0 then \<exists>x w. t = Some x \<and> services s' a = Some w \<and> taskid_to_pid E x = taskid_to_pid E (v_service_thread w)
     else t = None \<and> quiet s s'))"
    by (rule okay_conseq[OF gt_create_thread_okay[OF tf a]])
      (auto simp: quietD a(2) split: if_splits intro: quiet_sets_thread[OF _ a(2)])
  then show ?thesis
    using False a by (simp add: sre_task_create_def)
qed


section \<open>Properties\<close>

definition demo_task :: gtask where
  "demo_task = boot_gtask\<lparr>services := [1 \<mapsto> zero_service\<lparr>v_property := zero_property\<lparr>p_stack_size := 8192, p_heap_size := 65536\<rparr>\<rparr>],
    g_cur_service := Some 1\<rparr>"

lemma timer_fires_calm: "timer_fires calm_env"
  by (simp add: timer_fires_def calm_env_def)

text \<open>
  C8: Creating a task of the current service always returns when the timer fires.  On success it yields a task id of the
  process that the service's thread belongs to; on failure the state is unchanged.  In both cases nothing
  but the service thread of the current service can have changed.
\<close>

theorem sre_task_create_correct:
  assumes "timer_fires E" "wf_tasks s" "g_cur_service s = Some a" "services s a = Some v"
  shows "\<exists>ret t s'. sre_task_create E msg0 (Some u) s = Some ((ret, t), s') \<and> sets_thread a s s' \<and>
    (if ret = SUCC_RET then \<exists>x w. t = Some x \<and> services s' a = Some w \<and> taskid_to_pid E x = taskid_to_pid E (v_service_thread w)
     else t = None \<and> quiet s s')"
  using sre_task_create_okay[OF assms, of msg0 u] by (simp only: okay_iff split_paired_Ex prod.case)

theorem sre_task_create_correct_witness:
  "timer_fires calm_env \<and> (\<exists>ret t s'. sre_task_create calm_env 0 (Some TEE_SERVICE_REET) demo_task = Some ((ret, t), s') \<and>
    sets_thread 1 demo_task s')"
  using sre_task_create_correct[OF timer_fires_calm, of demo_task 1 _ 0 TEE_SERVICE_REET] timer_fires_calm
  by (auto simp: demo_task_def boot_gtask_def wf_tasks_def)

text \<open>
  C9: The memory limit of a new process is its heap plus its stack, or plus five stacks for a multi-session
  application, computed without wrap-around; it is refused exactly when heap or stack size is zero.
\<close>

theorem get_mem_total_size_exact:
  "case get_mem_total_size p of
     None \<Rightarrow> p_heap_size p = 0 \<or> p_stack_size p = 0
   | Some n \<Rightarrow> p_heap_size p \<noteq> 0 \<and> p_stack_size p \<noteq> 0 \<and>
       unat n = unat (p_heap_size p) + unat (p_stack_size p) * (if p_multi_session p then 5 else 1)"
proof -
  have lt: "unat (p_heap_size p) < 2 ^ 32" "unat (p_stack_size p) < 2 ^ 32"
    by (rule unat_lt_u32)+
  define h where "h = (ucast (p_heap_size p) :: u64)"
  define k where "k = (ucast (p_stack_size p) :: u64)"
  have u: "unat h = unat (p_heap_size p)" "unat k = unat (p_stack_size p)"
    by (simp_all add: h_def k_def)
  have s5: "unat (k * 5) = unat k * 5"
    using lt(2) u(2) by (simp add: unat_word_ariths)
  have sum: "unat (h + k) = unat h + unat k" "unat (h + k * 5) = unat h + unat k * 5"
    using lt u s5 by (simp_all add: unat_word_ariths)
  have z: "p_heap_size p = 0 \<longleftrightarrow> unat h = 0" "p_stack_size p = 0 \<longleftrightarrow> unat k = 0"
    using u by (simp_all add: unat_eq_0)
  show ?thesis
    unfolding get_mem_total_size_def Let_def h_def[symmetric] k_def[symmetric] word_le_nat_alt z
    using sum s5 u by auto
qed

end
