(* ===== verification/Service_Manager.thy ===== *)
theory Service_Manager
  imports Tee_Task
begin

text \<open>
  The service list of the global task, \<open>framework/gtask/src/manager/service_manager.c\<close>: looking up services
  and tasks, allocating service indexes, registering, ageing and releasing services.  A pointer
  argument that the code tests against NULL has type \<open>option\<close>; a function that fills an output
  pointer returns the value it stores, and \<open>None\<close> there when it stores nothing.
\<close>

section \<open>Looking up services and tasks\<close>

abbreviation (input) ELF_NOT_EXIST :: u32 where "ELF_NOT_EXIST \<equiv> 0"
abbreviation (input) ELF_EXIST :: u32 where "ELF_EXIST \<equiv> 1"
abbreviation (input) SERVICE_INDEX_MAX :: u32 where "SERVICE_INDEX_MAX \<equiv> 2048"
abbreviation (input) FIRST_INDEX :: u32 where "FIRST_INDEX \<equiv> 1"
abbreviation (input) INVALID_SERVICE_INDEX :: int where "INVALID_SERVICE_INDEX \<equiv> -1"
abbreviation (input) TA_REGION_RELEASE :: u32 where "TA_REGION_RELEASE \<equiv> 0"
abbreviation (input) TA_REGION_FOR_REUSE :: u32 where "TA_REGION_FOR_REUSE \<equiv> 1"
abbreviation (input) SERVICE_AGED_TIME_LIMIT :: u64 where "SERVICE_AGED_TIME_LIMIT \<equiv> 2000"
abbreviation (input) SERVICE_NAME_MAX :: nat where "SERVICE_NAME_MAX \<equiv> 100"

definition is_gtask_by_uuid :: "TEE_UUID \<Rightarrow> bool" where
  "is_gtask_by_uuid u \<longleftrightarrow> u = TEE_SERVICE_GLOBAL"

definition find_service :: "gtask \<Rightarrow> TEE_UUID option \<Rightarrow> u32 \<Rightarrow> (int \<times> ptr) option" where
  "find_service s uuid service_index = (case uuid of None \<Rightarrow> Some (- 1, None) | Some u \<Rightarrow>
    do {
      e \<leftarrow> find_entry (services s)
        (\<lambda>v. v_uuid v = u \<and> \<not> v_is_service_dead v \<and> (service_index = 0 \<or> service_index = v_index v))
        (g_service_head s);
      (case e of None \<Rightarrow> Some (- 1, None)
       | Some a \<Rightarrow> do { v \<leftarrow> services s a; Some (sint (v_index v), Some a) })
    })"

definition find_service_dead :: "gtask \<Rightarrow> TEE_UUID option \<Rightarrow> u32 \<Rightarrow> ptr option" where
  "find_service_dead s uuid service_index = (case uuid of None \<Rightarrow> Some None | Some u \<Rightarrow>
    if service_index = 0 then Some None
    else find_entry (services s) (\<lambda>v. v_uuid v = u \<and> v_is_service_dead v \<and> service_index = v_index v)
      (g_service_head s))"

definition find_service_by_task_id :: "env \<Rightarrow> gtask \<Rightarrow> u32 \<Rightarrow> ptr option" where
  "find_service_by_task_id E s task_id =
    find_entry (services s) (\<lambda>v. taskid_to_pid E (v_service_thread v) = taskid_to_pid E task_id \<and> \<not> v_is_service_dead v)
      (g_service_head s)"

definition dynamic_service_exist :: "env \<Rightarrow> gtask \<Rightarrow> TEE_UUID option \<Rightarrow> bool \<Rightarrow> bool option" where
  "dynamic_service_exist E s uuid build_in_flag = (case uuid of None \<Rightarrow> Some False | Some u \<Rightarrow>
    if \<not> build_in_flag \<or> \<not> build_in E u then
      do {
        (i, e) \<leftarrow> find_service s uuid 0;
        (case e of None \<Rightarrow> Some False
         | Some a \<Rightarrow> do { v \<leftarrow> services s a; Some (i \<noteq> - 1 \<and> v_elf_state v = ELF_EXIST) })
      }
    else Some False)"

text \<open>\<open>do_find_task\<close>: all sessions of all services that are dead, or not dead, as asked.\<close>

fun find_task_in :: "gtask \<Rightarrow> u32 \<Rightarrow> bool \<Rightarrow> addr list \<Rightarrow> (addr \<times> addr) option option" where
  "find_task_in s task_id dead [] = Some None"
| "find_task_in s task_id dead (a # as) = (case services s a of None \<Rightarrow> None
    | Some v \<Rightarrow>
      if v_is_service_dead v \<noteq> dead then find_task_in s task_id dead as
      else (case find_entry (sessions s) (\<lambda>x. s_task_id x = task_id) (v_session_head v) of
          None \<Rightarrow> None
        | Some (Some x) \<Rightarrow> Some (Some (a, x))
        | Some None \<Rightarrow> find_task_in s task_id dead as))"

definition do_find_task :: "gtask \<Rightarrow> u32 \<Rightarrow> bool \<Rightarrow> (addr \<times> addr) option option" where
  "do_find_task s task_id dead_status = find_task_in s task_id dead_status (g_service_head s)"

definition find_task :: "gtask \<Rightarrow> u32 \<Rightarrow> (addr \<times> addr) option option" where
  "find_task s task_id = do_find_task s task_id False"

definition find_task_dead :: "gtask \<Rightarrow> u32 \<Rightarrow> (addr \<times> addr) option option" where
  "find_task_dead s task_id = do_find_task s task_id True"

definition is_system_service :: "ptr \<Rightarrow> gtask \<Rightarrow> bool option" where
  "is_system_service service s = (case service of None \<Rightarrow> Some False
    | Some a \<Rightarrow> do {
        v \<leftarrow> services s a;
        if TEE_SERVICE_REET = v_uuid v \<or> TEE_SERVICE_GLOBAL = v_uuid v then Some True
        else is_internal_task_by_uuid s (Some (v_uuid v))
      })"


section \<open>Service indexes and registration\<close>

text \<open>The loop of \<open>get_service_index\<close>; the first argument is \<open>SERVICE_INDEX_MAX - cnt\<close>.\<close>

fun get_service_index_loop :: "nat \<Rightarrow> u8 list \<Rightarrow> u32 \<Rightarrow> int \<times> u8 list \<times> u32" where
  "get_service_index_loop 0 bm cur = (- 1, bm, cur)"
| "get_service_index_loop (Suc n) bm cur = (
    let cur = (if cur \<ge> SERVICE_INDEX_MAX then FIRST_INDEX else cur) in
    if \<not> is_bit_seted (Some bm) SERVICE_INDEX_MAX cur
    then (sint cur, the (set_bitmap (Some bm) SERVICE_INDEX_MAX cur), cur + 1)
    else get_service_index_loop n bm (cur + 1))"

definition get_service_index :: "gtask \<Rightarrow> int \<times> gtask" where
  "get_service_index s = (
    let (i, bm, cur) = get_service_index_loop 2048 (g_service_index_map s) (g_cur_index s)
    in (i, s\<lparr>g_service_index_map := bm, g_cur_index := cur\<rparr>))"

definition add_to_service_list :: "addr \<Rightarrow> service_struct \<Rightarrow> string \<Rightarrow> TEE_UUID \<Rightarrow> gtask \<Rightarrow> u32 \<times> gtask" where
  "add_to_service_list a service name uuid s = (
    let (index, s) = get_service_index s in
    if index < 0 then (TEE_ERROR_OUT_OF_MEMORY, s)
    else
      (let service = service\<lparr>v_index := of_int index, v_init_build := 0,
             v_name := (if length name < SERVICE_NAME_MAX then name else take (SERVICE_NAME_MAX - 1) name),
             v_property := (v_property service)\<lparr>p_uuid := uuid\<rparr>,
             v_session_head := []\<rparr>;
           s = s\<lparr>services := (services s)(a \<mapsto> service), g_service_head := g_service_head s @ [a]\<rparr>
       in (TEE_SUCCESS, s)))"

record service_attr =
  attr_build_in :: bool
  attr_ta_64bit :: bool
  attr_img_type :: u32

definition TEE_GetSystemTime :: "env \<Rightarrow> gtask \<Rightarrow> (u32 \<times> u32) \<times> gtask" where
  "TEE_GetSystemTime E s = (
    let ((r, v), s) = ext_val E Tee_get_system_time s in ((ucast (drop_bit 32 v), ucast v), s))"

definition register_service ::
  "env \<Rightarrow> string option \<Rightarrow> TEE_UUID option \<Rightarrow> bool \<Rightarrow> service_attr option \<Rightarrow> gtask \<Rightarrow> (u32 \<times> gtask) option" where
  "register_service E name uuid dyn_conf_registed attr s = (
    case (name, uuid, attr) of
      (Some name, Some u, Some attr) \<Rightarrow>
        if \<not> attr_build_in attr \<and> build_in E u then Some (TEE_ERROR_REGISTER_EXIST_SERVICE, s)
        else do {
          (i, e) \<leftarrow> find_service s uuid 0;
          if i \<noteq> INVALID_SERVICE_INDEX then
            do { a \<leftarrow> e; s \<leftarrow> upd_service a (\<lambda>v. v\<lparr>v_elf_state := ELF_EXIST\<rparr>) s; Some (TEE_SUCCESS, s) }
          else
            (let (m, s) = TEE_Malloc E s in
             case m of None \<Rightarrow> Some (TEE_ERROR_OUT_OF_MEMORY, s)
             | Some a \<Rightarrow>
               (let service = zero_service\<lparr>v_elf_state := ELF_EXIST, v_ta_64bit := attr_ta_64bit attr,
                      v_first_open := True, v_is_service_dead := False,
                      v_is_dyn_conf_registed := dyn_conf_registed, v_img_type := attr_img_type attr\<rparr>;
                    (t, s) = TEE_GetSystemTime E s;
                    service = service\<lparr>v_load_elf_time := t\<rparr>;
                    service = (if \<not> attr_build_in attr then service\<lparr>v_ref_cnt := 1\<rparr> else service);
                    (ret, s) = add_to_service_list a service name u s
                in Some (ret, s)))
        }
    | _ \<Rightarrow> Some (TEE_ERROR_BAD_PARAMETERS, s))"

definition service_manager_init :: "env \<Rightarrow> bool \<Rightarrow> gtask \<Rightarrow> (u32 \<times> gtask) option" where
  "service_manager_init E aarch64 s = (
    let s = s\<lparr>g_service_head := []\<rparr> in
    register_service E (Some ''global_task'') (Some TEE_SERVICE_GLOBAL) False
      (Some \<lparr>attr_build_in = True, attr_ta_64bit = aarch64, attr_img_type = 0\<rparr>) s)"

definition get_heap_stack_size :: "bool \<Rightarrow> u32 \<Rightarrow> u64" where
  "get_heap_stack_size page_align sz = (
    if \<not> page_align then ucast ((sz + (4096 - 1)) AND NOT (4096 - 1))
    else ucast sz * 4096)"

definition init_service_property ::
  "env \<Rightarrow> TEE_UUID option \<Rightarrow> u32 \<Rightarrow> u32 \<Rightarrow> bool \<Rightarrow> bool \<Rightarrow> bool \<Rightarrow> bool \<Rightarrow> bool \<Rightarrow> u8 list option \<Rightarrow> u32 \<Rightarrow> gtask \<Rightarrow> gtask option" where
  "init_service_property E uuid stack heap single multi keep ssa_enum page_align other_buff other_len s = (
    case uuid of None \<Rightarrow> Some s
    | Some u \<Rightarrow> do {
        e \<leftarrow> find_entry (services s) (\<lambda>v. v_uuid v = u \<and> \<not> v_is_service_dead v) (g_service_head s);
        (case e of None \<Rightarrow> Some s
         | Some a \<Rightarrow> do {
             s \<leftarrow> upd_service a (\<lambda>v. v\<lparr>v_property := (v_property v)\<lparr>
                   p_stack_size := ucast (get_heap_stack_size page_align stack),
                   p_heap_size := ucast (get_heap_stack_size page_align heap),
                   p_single_instance := single, p_multi_session := multi, p_keep_alive := keep,
                   p_ssa_enum_enable := ssa_enum\<rparr>\<rparr>) s;
             (case other_buff of None \<Rightarrow> Some s
              | Some buf \<Rightarrow>
                if other_len = 0 then Some s
                else
                  (let (m, s) = TEE_Malloc E s in
                   case m of None \<Rightarrow> upd_service a (\<lambda>v. v\<lparr>v_property := (v_property v)\<lparr>p_other_buff := None\<rparr>\<rparr>) s
                   | Some _ \<Rightarrow> upd_service a (\<lambda>v. v\<lparr>v_property := (v_property v)\<lparr>
                       p_other_buff := Some (take (unat other_len) buf), p_other_len := other_len\<rparr>\<rparr>) s))
           })
      })"


section \<open>Reference counts, ageing and release\<close>

definition incr_ref_cnt :: "ptr \<Rightarrow> gtask \<Rightarrow> gtask option" where
  "incr_ref_cnt service s = (case service of None \<Rightarrow> Some s
    | Some a \<Rightarrow> upd_service a (\<lambda>v.
        if sint (of_int (v_ref_cnt v + 1) :: u32) < 0 then v else v\<lparr>v_ref_cnt := v_ref_cnt v + 1\<rparr>) s)"

definition decr_ref_cnt :: "ptr \<Rightarrow> gtask \<Rightarrow> gtask option" where
  "decr_ref_cnt service s = (case service of None \<Rightarrow> Some s
    | Some a \<Rightarrow> upd_service a (\<lambda>v. if v_ref_cnt v \<le> 0 then v else v\<lparr>v_ref_cnt := v_ref_cnt v - 1\<rparr>) s)"

definition need_load_srv :: "env \<Rightarrow> TEE_UUID option \<Rightarrow> gtask \<Rightarrow> (bool \<times> gtask) option" where
  "need_load_srv E uuid s = (case uuid of None \<Rightarrow> Some (False, s)
    | Some u \<Rightarrow>
      if build_in E u then Some (False, s)
      else do {
        (i, e) \<leftarrow> find_service s uuid 0;
        if i = INVALID_SERVICE_INDEX then Some (True, s)
        else do {
          a \<leftarrow> e;
          v \<leftarrow> services s a;
          if \<not> p_single_instance (v_property v) then Some (False, s)
          else do {
            s \<leftarrow> incr_ref_cnt e s;
            let (t, s) = TEE_GetSystemTime E s;
            s \<leftarrow> upd_service a (\<lambda>v. v\<lparr>v_load_elf_time := t\<rparr>) s;
            Some (False, s)
          }
        }
      })"

definition get_interval :: "u32 \<times> u32 \<Rightarrow> u32 \<times> u32 \<Rightarrow> u64" where
  "get_interval cur base = (
    let (cur_s, cur_ms) = cur; (base_s, base_ms) = base in
    if cur_s < base_s then 0
    else
      (let interval = (ucast cur_s - ucast base_s) * 1000 :: u64 in
       if cur_ms \<ge> base_ms then interval + (ucast cur_ms - ucast base_ms)
       else interval - (ucast base_ms - ucast cur_ms)))"

definition is_aged_service :: "env \<Rightarrow> ptr \<Rightarrow> gtask \<Rightarrow> (bool \<times> gtask) option" where
  "is_aged_service E service s = (case service of None \<Rightarrow> Some (False, s)
    | Some a \<Rightarrow> (let (current, s) = TEE_GetSystemTime E s in
        do { v \<leftarrow> services s a; Some (get_interval current (v_load_elf_time v) > SERVICE_AGED_TIME_LIMIT, s) }))"

definition recycle_srvc_thread :: "env \<Rightarrow> ptr \<Rightarrow> gtask \<Rightarrow> gtask option" where
  "recycle_srvc_thread E service s = (case service of None \<Rightarrow> Some s
    | Some a \<Rightarrow> do {
        v \<leftarrow> services s a;
        if v_service_thread v \<noteq> 0 then do {
          let (k, s) = ext_ret E (Kill_task (taskid_to_pid E (v_service_thread v))) s;
          let s = (if k = 0 then gt_wait_process E (v_service_thread v) s else s);
          s \<leftarrow> upd_service a (\<lambda>v. v\<lparr>v_service_thread := 0\<rparr>) s;
          task_adapt_ta_release E (Some (v_uuid v)) s
        } else Some s
      })"

definition free_service :: "addr \<Rightarrow> gtask \<Rightarrow> gtask" where
  "free_service a s = s\<lparr>services := (services s)(a := None)\<rparr>"

definition process_release_service :: "env \<Rightarrow> ptr \<Rightarrow> u32 \<Rightarrow> gtask \<Rightarrow> gtask option" where
  "process_release_service E service if_reuse_elf s = (case service of None \<Rightarrow> Some s
    | Some a \<Rightarrow> do {
        v \<leftarrow> services s a;
        let s = (if v_elf_state v = ELF_EXIST
          then notify (Sre_release_dynamic_region (v_uuid v) if_reuse_elf) s else s);
        s \<leftarrow> (if v_is_dyn_conf_registed v
          then upd_service a (\<lambda>v. v\<lparr>v_is_dyn_conf_registed := False\<rparr>) (notify (Unregister_conf (v_uuid v)) s)
          else Some s);
        let s = notify (Release_timer_event (v_uuid v)) s;
        s \<leftarrow> recycle_srvc_thread E service s;
        let s = notify (Tee_delete_all_libinfo a) s;
        let s = s\<lparr>g_service_head := remove1 a (g_service_head s)\<rparr>;
        let s = s\<lparr>g_service_index_map := the (clear_bitmap (Some (g_service_index_map s)) SERVICE_INDEX_MAX (v_index v))\<rparr>;
        Some (free_service a s)
      })"

definition do_age_service :: "env \<Rightarrow> addr \<Rightarrow> gtask \<Rightarrow> gtask option" where
  "do_age_service E a s = do {
    (aged, s) \<leftarrow> is_aged_service E (Some a) s;
    if aged then process_release_service E (Some a) TA_REGION_RELEASE s else Some s
  }"

fun age_service_loop :: "env \<Rightarrow> addr list \<Rightarrow> gtask \<Rightarrow> gtask option" where
  "age_service_loop E [] s = Some s"
| "age_service_loop E (a # as) s = do {
    v \<leftarrow> services s a;
    s \<leftarrow> (if v_is_service_dead v then Some s
      else if build_in E (v_uuid v) then Some s
      else if v_session_count v = 0 \<and> (\<not> p_keep_alive (v_property v) \<or> v_first_open v) then do_age_service E a s
      else Some s);
    age_service_loop E as s
  }"

definition age_service :: "env \<Rightarrow> gtask \<Rightarrow> (u32 \<times> gtask) option" where
  "age_service E s = do { s \<leftarrow> age_service_loop E (g_service_head s) s; Some (TEE_SUCCESS, s) }"

definition release_ion_empty_service :: "env \<Rightarrow> TEE_UUID option \<Rightarrow> gtask \<Rightarrow> (u32 \<times> gtask) option" where
  "release_ion_empty_service E uuid s = (case uuid of None \<Rightarrow> Some (TEE_ERROR_GENERIC, s)
    | Some u \<Rightarrow> do {
        (i, e) \<leftarrow> find_service s uuid 0;
        if i = - 1 then Some (TEE_SUCCESS, s)
        else do {
          a \<leftarrow> e;
          v \<leftarrow> services s a;
          if v_session_count v = 0 \<and> v_ref_cnt v = 0 then
            (if \<not> build_in E u \<and> \<not> p_keep_alive (v_property v)
             then do { s \<leftarrow> process_release_service E e TA_REGION_RELEASE s; Some (TEE_SUCCESS, s) }
             else Some (TEE_SUCCESS, s))
          else Some (TEE_ERROR_GENERIC, s)
        }
      })"


section \<open>The invariant of services and sessions\<close>

declare is_bit_seted.simps [simp del] set_bitmap.simps [simp del] clear_bitmap.simps [simp del]

type_synonym svc_store = "addr \<Rightarrow> service_struct option"
type_synonym sess_store = "addr \<Rightarrow> session_struct option"

definition sid :: "sess_store \<Rightarrow> addr \<Rightarrow> nat" where
  "sid sess x = unat (s_session_id (the (sess x)))"

text \<open>
  The sessions of one service: linked once, with distinct ids from 1 to 8 which are exactly the ids
  marked in its session bitmap, and counted by its session count.
\<close>

definition service_wf :: "sess_store \<Rightarrow> service_struct \<Rightarrow> bool" where
  "service_wf sess v \<longleftrightarrow>
    distinct (v_session_head v) \<and>
    (\<forall>x \<in> set (v_session_head v). sess x \<noteq> None \<and> 1 \<le> sid sess x \<and> sid sess x \<le> 8) \<and>
    (\<forall>x \<in> set (v_session_head v). \<forall>y \<in> set (v_session_head v). sid sess x = sid sess y \<longrightarrow> x = y) \<and>
    length (v_session_bitmap v) = 1 \<and>
    (\<forall>i. i \<in> wbits (v_session_bitmap v) \<longleftrightarrow> (\<exists>x \<in> set (v_session_head v). sid sess x = Suc i)) \<and>
    v_session_count v = of_nat (length (v_session_head v))"

text \<open>Service indexes are distinct, lie in 1..2047 and are exactly the numbers marked in the index map.\<close>

definition index_wf :: "svc_store \<Rightarrow> u8 list \<Rightarrow> u32 \<Rightarrow> bool" where
  "index_wf svcs bm cur \<longleftrightarrow> length bm = 256 \<and> 1 \<le> unat cur \<and> unat cur \<le> 2048 \<and>
    (\<forall>a v. svcs a = Some v \<longrightarrow> 1 \<le> unat (v_index v) \<and> unat (v_index v) \<le> 2047) \<and>
    (\<forall>a b v w. svcs a = Some v \<longrightarrow> svcs b = Some w \<longrightarrow> v_index v = v_index w \<longrightarrow> a = b) \<and>
    (\<forall>i. i \<in> bits bm \<longleftrightarrow> (\<exists>a v. svcs a = Some v \<and> unat (v_index v) = i))"

text \<open>No two live services have the same UUID.\<close>

definition live_uuids :: "svc_store \<Rightarrow> bool" where
  "live_uuids svcs \<longleftrightarrow> (\<forall>a b v w. svcs a = Some v \<longrightarrow> svcs b = Some w \<longrightarrow> \<not> v_is_service_dead v \<longrightarrow>
    \<not> v_is_service_dead w \<longrightarrow> v_uuid v = v_uuid w \<longrightarrow> a = b)"

text \<open>Every session belongs to exactly one service.\<close>

definition sessions_owned :: "svc_store \<Rightarrow> sess_store \<Rightarrow> bool" where
  "sessions_owned svcs sess \<longleftrightarrow>
    (\<forall>a b v w x. svcs a = Some v \<longrightarrow> svcs b = Some w \<longrightarrow> x \<in> set (v_session_head v) \<longrightarrow>
      x \<in> set (v_session_head w) \<longrightarrow> a = b) \<and>
    (\<forall>x. sess x \<noteq> None \<longrightarrow> (\<exists>a v. svcs a = Some v \<and> x \<in> set (v_session_head v)))"

definition wf_svcs :: "addr list \<Rightarrow> svc_store \<Rightarrow> sess_store \<Rightarrow> u8 list \<Rightarrow> u32 \<Rightarrow> bool" where
  "wf_svcs head svcs sess bm cur \<longleftrightarrow>
    distinct head \<and> (\<forall>a. a \<in> set head \<longleftrightarrow> svcs a \<noteq> None) \<and>
    (\<forall>a v. svcs a = Some v \<longrightarrow> service_wf sess v) \<and>
    sessions_owned svcs sess \<and> index_wf svcs bm cur \<and> live_uuids svcs"

text \<open>What following the lists needs: every linked service and every linked session of it exists.\<close>

definition linked :: "gtask \<Rightarrow> bool" where
  "linked s \<longleftrightarrow> (\<forall>a \<in> set (g_service_head s). \<exists>v. services s a = Some v \<and> (\<forall>x \<in> set (v_session_head v). sessions s x \<noteq> None))"

definition wf_services :: "gtask \<Rightarrow> bool" where
  "wf_services s \<longleftrightarrow> wf_svcs (g_service_head s) (services s) (sessions s) (g_service_index_map s) (g_cur_index s)"

lemma wf_servicesD:
  assumes "wf_services s" "services s a = Some v"
  shows "service_wf (sessions s) v"
  using assms by (simp add: wf_services_def wf_svcs_def)

lemma wf_services_linked: "wf_services s \<Longrightarrow> linked s"
  unfolding linked_def using wf_servicesD[of s] by (fastforce simp: wf_services_def wf_svcs_def service_wf_def)

lemma service_wf_cong:
  assumes "\<And>x. x \<in> set (v_session_head v) \<Longrightarrow> map_option s_session_id (sess' x) = map_option s_session_id (sess x)"
  shows "service_wf sess' v = service_wf sess v"
proof -
  have eq: "(\<exists>y. sess' x = Some y) = (\<exists>y. sess x = Some y)" "sid sess' x = sid sess x" if "x \<in> set (v_session_head v)" for x
    using assms[OF that] by (cases "sess x"; cases "sess' x"; simp add: sid_def)+
  show ?thesis
    unfolding service_wf_def by (simp add: eq cong: ball_cong bex_cong)
qed

lemma wf_svcs_sess_cong:
  assumes "\<And>x. map_option s_session_id (sess' x) = map_option s_session_id (sess x)"
  shows "wf_svcs head svcs sess' bm cur = wf_svcs head svcs sess bm cur"
proof -
  have "(\<exists>y. sess' x = Some y) = (\<exists>y. sess x = Some y)" for x
    using assms[of x] by (cases "sess x"; cases "sess' x") simp_all
  then have "sessions_owned svcs sess' = sessions_owned svcs sess"
    unfolding sessions_owned_def by simp
  then show ?thesis
    unfolding wf_svcs_def using service_wf_cong[of _ sess' sess] assms by simp
qed

text \<open>Updates of a service that do not touch its sessions, its index or its identity.\<close>

definition keeps_service :: "(service_struct \<Rightarrow> service_struct) \<Rightarrow> bool" where
  "keeps_service f \<longleftrightarrow> (\<forall>v. v_session_head (f v) = v_session_head v \<and> v_session_bitmap (f v) = v_session_bitmap v \<and>
    v_session_count (f v) = v_session_count v \<and> v_index (f v) = v_index v \<and> v_uuid (f v) = v_uuid v \<and>
    (v_is_service_dead v \<longrightarrow> v_is_service_dead (f v)))"

lemma keeps_service_back:
  assumes "keeps_service f" "svcs a = Some v" "(svcs(a \<mapsto> f v)) b = Some w"
  obtains w0 where "svcs b = Some w0" "v_session_head w = v_session_head w0" "v_index w = v_index w0" "v_uuid w = v_uuid w0"
    "\<not> v_is_service_dead w \<Longrightarrow> \<not> v_is_service_dead w0"
  using assms by (cases "b = a") (auto simp: keeps_service_def)

lemma keeps_service_forth:
  assumes "keeps_service f" "svcs a = Some v" "svcs b = Some w0"
  obtains w where "(svcs(a \<mapsto> f v)) b = Some w" "v_session_head w = v_session_head w0" "v_index w = v_index w0"
  using assms by (cases "b = a") (auto simp: keeps_service_def)

lemma wf_svcs_update:
  assumes wf: "wf_svcs head svcs sess bm cur" and a: "svcs a = Some v" and f: "keeps_service f"
  shows "wf_svcs head (svcs(a \<mapsto> f v)) sess bm cur"
proof -
  note old = keeps_service_back[OF f, of svcs a v, OF a]
  note new = keeps_service_forth[OF f, of svcs a v, OF a]
  have "service_wf sess (f v) = service_wf sess v"
    using f by (simp add: service_wf_def keeps_service_def)
  moreover have "live_uuids (svcs(a \<mapsto> f v))"
    unfolding live_uuids_def
  proof (intro allI impI)
    fix b c w1 w2
    assume *: "(svcs(a \<mapsto> f v)) b = Some w1" "(svcs(a \<mapsto> f v)) c = Some w2"
      "\<not> v_is_service_dead w1" "\<not> v_is_service_dead w2" "v_uuid w1 = v_uuid w2"
    obtain u1 where u1: "svcs b = Some u1" "v_uuid w1 = v_uuid u1" "\<not> v_is_service_dead u1" using old[OF *(1)] *(3) by metis
    obtain u2 where u2: "svcs c = Some u2" "v_uuid w2 = v_uuid u2" "\<not> v_is_service_dead u2" using old[OF *(2)] *(4) by metis
    show "b = c"
      using wf u1 u2 *(5) unfolding wf_svcs_def live_uuids_def by (metis (no_types))
  qed
  moreover have "index_wf (svcs(a \<mapsto> f v)) bm cur"
  proof -
    have ix: "index_wf svcs bm cur" using wf by (simp add: wf_svcs_def)
    have same: "(\<exists>b w. (svcs(a \<mapsto> f v)) b = Some w \<and> unat (v_index w) = i) \<longleftrightarrow>
        (\<exists>b w. svcs b = Some w \<and> unat (v_index w) = i)" for i
      by (rule iffI; elim exE conjE) (metis old, metis new)
    have "b = c" if "(svcs(a \<mapsto> f v)) b = Some w1" "(svcs(a \<mapsto> f v)) c = Some w2" "v_index w1 = v_index w2" for b c w1 w2
      using old[OF that(1)] old[OF that(2)] that(3) ix unfolding index_wf_def by (metis (no_types))
    moreover have "1 \<le> unat (v_index w) \<and> unat (v_index w) \<le> 2047" if "(svcs(a \<mapsto> f v)) b = Some w" for b w
      using old[OF that] ix unfolding index_wf_def by (metis (no_types))
    ultimately show ?thesis
      using ix unfolding index_wf_def same by blast
  qed
  moreover have "sessions_owned (svcs(a \<mapsto> f v)) sess"
  proof -
    have so: "sessions_owned svcs sess" using wf by (simp add: wf_svcs_def)
    have "b = c" if "(svcs(a \<mapsto> f v)) b = Some w1" "(svcs(a \<mapsto> f v)) c = Some w2"
        "x \<in> set (v_session_head w1)" "x \<in> set (v_session_head w2)" for b c w1 w2 x
      using old[OF that(1)] old[OF that(2)] that(3,4) so unfolding sessions_owned_def by (metis (no_types))
    moreover have "\<exists>b w. (svcs(a \<mapsto> f v)) b = Some w \<and> x \<in> set (v_session_head w)" if "sess x \<noteq> None" for x
      using that so new unfolding sessions_owned_def by (metis (no_types))
    ultimately show ?thesis unfolding sessions_owned_def by blast
  qed
  ultimately show ?thesis
    using wf a unfolding wf_svcs_def by (auto split: if_splits)
qed

text \<open>What the index map and the UUIDs depend on.\<close>

definition ident :: "service_struct \<Rightarrow> u32 \<times> TEE_UUID \<times> bool" where
  "ident v = (v_index v, v_uuid v, v_is_service_dead v)"

lemma ident_Some:
  assumes "\<And>b. map_option ident (svcs' b) = map_option ident (svcs b)" "svcs' b = Some w"
  obtains w0 where "svcs b = Some w0" "v_index w0 = v_index w" "v_uuid w0 = v_uuid w" "v_is_service_dead w0 = v_is_service_dead w"
  using assms(2) assms(1)[of b] by (cases "svcs b") (auto simp: ident_def)

lemma index_wf_ident:
  assumes same: "\<And>b. map_option ident (svcs' b) = map_option ident (svcs b)" and ix: "index_wf svcs bm cur"
  shows "index_wf svcs' bm cur"
proof -
  have old: "\<exists>w0. svcs b = Some w0 \<and> v_index w0 = v_index w" if "svcs' b = Some w" for b w
    using ident_Some[of svcs' svcs, OF same that] by metis
  have new: "\<exists>w0. svcs' b = Some w0 \<and> v_index w0 = v_index w" if "svcs b = Some w" for b w
    using ident_Some[of svcs svcs', OF same[symmetric] that] by metis
  have "(\<exists>b w. svcs' b = Some w \<and> unat (v_index w) = i) \<longleftrightarrow> (\<exists>b w. svcs b = Some w \<and> unat (v_index w) = i)" for i
    by (rule iffI; elim exE conjE) (metis old, metis new)
  moreover have "b = c" if "svcs' b = Some w1" "svcs' c = Some w2" "v_index w1 = v_index w2" for b c w1 w2
    using old[OF that(1)] old[OF that(2)] that(3) ix unfolding index_wf_def by (metis (no_types))
  moreover have "1 \<le> unat (v_index w) \<and> unat (v_index w) \<le> 2047" if "svcs' b = Some w" for b w
    using old[OF that] ix unfolding index_wf_def by (metis (no_types))
  ultimately show ?thesis using ix unfolding index_wf_def by simp
qed

lemma live_uuids_ident:
  assumes same: "\<And>b. map_option ident (svcs' b) = map_option ident (svcs b)" and l: "live_uuids svcs"
  shows "live_uuids svcs'"
  unfolding live_uuids_def
proof (intro allI impI)
  fix b c w1 w2
  assume *: "svcs' b = Some w1" "svcs' c = Some w2" "\<not> v_is_service_dead w1" "\<not> v_is_service_dead w2" "v_uuid w1 = v_uuid w2"
  obtain u1 where u1: "svcs b = Some u1" "v_uuid u1 = v_uuid w1" "\<not> v_is_service_dead u1" using ident_Some[of svcs' svcs, OF same *(1)] *(3) by metis
  obtain u2 where u2: "svcs c = Some u2" "v_uuid u2 = v_uuid w2" "\<not> v_is_service_dead u2" using ident_Some[of svcs' svcs, OF same *(2)] *(4) by metis
  show "b = c"
    using l u1 u2 *(5) unfolding live_uuids_def by (metis (no_types))
qed

text \<open>
  A step that gives one service a new session list, keeping its identity: sessions may be created and freed, but only
  sessions of this service.
\<close>

lemma wf_svcs_sessions:
  assumes wf: "wf_svcs head svcs sess bm cur" and a: "svcs a = Some v"
    and v': "v_index v' = v_index v" "v_uuid v' = v_uuid v" "v_is_service_dead v \<longrightarrow> v_is_service_dead v'" "service_wf sess' v'"
    and keep: "\<And>x. x \<notin> set (v_session_head v) \<Longrightarrow> x \<notin> set (v_session_head v') \<Longrightarrow> sess' x = sess x"
    and new: "\<And>x. x \<in> set (v_session_head v') \<Longrightarrow> x \<in> set (v_session_head v) \<or> sess x = None"
    and gone: "\<And>x. x \<in> set (v_session_head v) \<Longrightarrow> x \<in> set (v_session_head v') \<or> sess' x = None"
  shows "wf_svcs head (svcs(a \<mapsto> v')) sess' bm cur"
proof -
  let ?h = "v_session_head"
  have own: "sessions_owned svcs sess" and swf: "\<And>b w. svcs b = Some w \<Longrightarrow> service_wf sess w"
    using wf by (auto simp: wf_svcs_def)
  have apart: "x \<notin> set (?h v)" "x \<notin> set (?h v')" "sess' x = sess x" if w: "svcs b = Some w" "b \<noteq> a" "x \<in> set (?h w)" for b w x
  proof -
    show 1: "x \<notin> set (?h v)" using own a w unfolding sessions_owned_def by blast
    have "sess x \<noteq> None" using swf[OF w(1)] w(3) by (simp add: service_wf_def)
    then show 2: "x \<notin> set (?h v')" using new[of x] 1 by auto
    show "sess' x = sess x" using keep[OF 1 2] .
  qed
  have "service_wf sess' w" if "(svcs(a \<mapsto> v')) b = Some w" for b w
  proof (cases "b = a")
    case False
    then show ?thesis using that swf[of b w] apart(3)[of b w] service_wf_cong[of w sess' sess] by simp
  qed (use that v'(4) in simp)
  moreover have "sessions_owned (svcs(a \<mapsto> v')) sess'"
    unfolding sessions_owned_def
  proof (intro conjI allI impI)
    fix b c w1 w2 x
    assume *: "(svcs(a \<mapsto> v')) b = Some w1" "(svcs(a \<mapsto> v')) c = Some w2" "x \<in> set (?h w1)" "x \<in> set (?h w2)"
    have "b \<noteq> a \<Longrightarrow> c \<noteq> a \<Longrightarrow> b = c" using * own unfolding sessions_owned_def by (metis fun_upd_other)
    moreover have "b \<noteq> a \<Longrightarrow> c \<noteq> a" using apart(2)[of b w1 x] * by auto
    moreover have "c \<noteq> a \<Longrightarrow> b \<noteq> a" using apart(2)[of c w2 x] * by auto
    ultimately show "b = c" by blast
  next
    fix x assume x: "sess' x \<noteq> None"
    show "\<exists>b w. (svcs(a \<mapsto> v')) b = Some w \<and> x \<in> set (?h w)"
    proof (cases "x \<in> set (?h v')")
      case False
      then have "x \<notin> set (?h v)" using gone[of x] x by auto
      then have "sess x \<noteq> None" using keep[of x] False x by simp
      then obtain b w where b: "svcs b = Some w" "x \<in> set (?h w)" using own unfolding sessions_owned_def by blast
      then have "b \<noteq> a" using a \<open>x \<notin> set (?h v)\<close> by auto
      then show ?thesis using b by (intro exI[of _ b] exI[of _ w]) simp
    qed auto
  qed
  moreover have "index_wf (svcs(a \<mapsto> v')) bm cur \<and> live_uuids (svcs(a \<mapsto> v'))"
  proof -
    let ?f = "\<lambda>u. u\<lparr>v_is_service_dead := v_is_service_dead v'\<rparr>"
    have "wf_svcs head (svcs(a \<mapsto> (\<lambda>u. u\<lparr>v_is_service_dead := v_is_service_dead u \<or> v_is_service_dead v'\<rparr>) v)) sess bm cur"
      by (rule wf_svcs_update[OF wf a]) (simp add: keeps_service_def v_uuid_def)
    then have "wf_svcs head (svcs(a \<mapsto> ?f v)) sess bm cur" using v'(3) by (cases "v_is_service_dead v") simp_all
    then have "index_wf (svcs(a \<mapsto> ?f v)) bm cur" "live_uuids (svcs(a \<mapsto> ?f v))" by (simp_all add: wf_svcs_def)
    moreover have "map_option ident ((svcs(a \<mapsto> v')) b) = map_option ident ((svcs(a \<mapsto> ?f v)) b)" for b
      using v'(1,2) by (simp add: ident_def v_uuid_def)
    ultimately show ?thesis by (intro conjI) (rule index_wf_ident live_uuids_ident; assumption)+
  qed
  ultimately show ?thesis using wf a by (auto simp: wf_svcs_def)
qed

lemma service_wf_add:
  assumes wf: "service_wf sess v" and x: "sess x = None" and i: "i < 8" "i \<notin> wbits (v_session_bitmap v)"
    and y: "s_session_id y = of_nat (Suc i)"
    and v': "v_session_head v' = v_session_head v @ [x]" "v_session_count v' = v_session_count v + 1"
      "length (v_session_bitmap v') = 1" "wbits (v_session_bitmap v') = insert i (wbits (v_session_bitmap v))"
  shows "service_wf (sess(x \<mapsto> y)) v'"
proof -
  have new: "x \<notin> set (v_session_head v)" using wf x by (auto simp: service_wf_def)
  then have old: "(sess(x \<mapsto> y)) z = sess z" "sid (sess(x \<mapsto> y)) z = sid sess z" if "z \<in> set (v_session_head v)" for z
    using that by (auto simp: sid_def)
  have sx: "sid (sess(x \<mapsto> y)) x = Suc i" using i(1) by (simp add: sid_def y unat_of_nat_u32 flip: of_nat_Suc)
  have fresh: "sid sess z \<noteq> Suc i" "Suc i \<noteq> sid sess z" if "z \<in> set (v_session_head v)" for z
    using wf i(2) that by (auto simp: service_wf_def)
  show ?thesis
    unfolding service_wf_def v' using wf new i(1) sx old fresh
    by (auto simp: service_wf_def)
qed

lemma service_wf_remove:
  assumes wf: "service_wf sess v" and x: "x \<in> set (v_session_head v)"
    and v': "v_session_head v' = remove1 x (v_session_head v)" "v_session_count v' = v_session_count v - 1"
      "length (v_session_bitmap v') = 1" "wbits (v_session_bitmap v') = wbits (v_session_bitmap v) - {sid sess x - 1}"
  shows "service_wf (sess(x := None)) v'"
proof -
  have d: "distinct (v_session_head v)" using wf by (simp add: service_wf_def)
  have mem: "set (v_session_head v') = set (v_session_head v) - {x}" using d v'(1) by simp
  have old: "(sess(x := None)) z = sess z" "sid (sess(x := None)) z = sid sess z" if "z \<in> set (v_session_head v) - {x}" for z
    using that by (auto simp: sid_def)
  have "i \<in> wbits (v_session_bitmap v') \<longleftrightarrow> (\<exists>z \<in> set (v_session_head v'). sid (sess(x := None)) z = Suc i)" for i
  proof -
    have "i \<in> wbits (v_session_bitmap v') \<longleftrightarrow> (\<exists>z \<in> set (v_session_head v). sid sess z = Suc i) \<and> Suc i \<noteq> sid sess x"
      using wf x by (auto simp: v'(4) service_wf_def)
    also have "\<dots> \<longleftrightarrow> (\<exists>z \<in> set (v_session_head v) - {x}. sid sess z = Suc i)"
    proof -
      have "z = x" if "z \<in> set (v_session_head v)" "sid sess z = sid sess x" for z
        using wf x that unfolding service_wf_def by blast
      then show ?thesis by auto
    qed
    finally show ?thesis using old(2) by (auto simp: mem)
  qed
  moreover have "v_session_count v' = of_nat (length (v_session_head v'))"
  proof -
    have "Suc (length (v_session_head v')) = length (v_session_head v)"
      using length_pos_if_in_set[OF x] x v'(1) by (simp add: length_remove1)
    then have "v_session_count v = of_nat (Suc (length (v_session_head v')))" using wf by (simp add: service_wf_def)
    then show ?thesis by (simp add: v'(2))
  qed
  ultimately show ?thesis
    unfolding service_wf_def mem using wf old d v'(1,3) by (auto simp: service_wf_def)
qed


section \<open>Allocation of service indexes\<close>

text \<open>The index the search looks at in its \<open>k\<close>-th round, when it starts at \<open>c\<close> in 1..2047.\<close>

definition nth_index :: "nat \<Rightarrow> nat \<Rightarrow> nat" where
  "nth_index c k = Suc ((c - 1 + k) mod 2047)"

lemma nth_index_range: "nth_index c k \<in> {1..2047}"
  by (auto simp: nth_index_def Suc_le_eq)

lemma nth_index_Suc:
  assumes "c \<in> {1..2047}"
  shows "nth_index c (Suc k) = nth_index (if Suc c \<ge> 2048 then 1 else Suc c) k"
  using assms by (auto simp: nth_index_def)

lemma nth_index_0: "c \<in> {1..2047} \<Longrightarrow> nth_index c 0 = c"
  by (auto simp: nth_index_def)

lemma nth_index_all:
  assumes "c \<in> {1..2047}" "i \<in> {1..2047}"
  shows "\<exists>k < 2047. nth_index c k = i"
proof -
  let ?k = "(i + 2047 - c) mod 2047"
  have "(c - 1 + ?k) mod 2047 = (c - 1 + (i + 2047 - c)) mod 2047"
    by (simp add: mod_simps)
  also have "c - 1 + (i + 2047 - c) = (i - 1) + 2047"
    using assms by auto
  finally have "(c - 1 + ?k) mod 2047 = i - 1"
    using assms by auto
  then show ?thesis
    using assms by (intro exI[of _ ?k]) (auto simp: nth_index_def)
qed

lemma get_service_index_loop_spec:
  assumes "length bm = 256" "1 \<le> unat cur" "unat cur \<le> 2048"
    and "c = (if unat cur \<ge> 2048 then 1 else unat cur)"
    and "get_service_index_loop n bm cur = (r, bm', cur')"
  shows "length bm' = 256 \<and> 1 \<le> unat cur' \<and> unat cur' \<le> 2048 \<and>
    (r = - 1 \<and> bm' = bm \<and> (\<forall>k<n. nth_index c k \<in> bits bm) \<or>
     (\<exists>k<n. r = int (nth_index c k) \<and> nth_index c k \<notin> bits bm \<and> bits bm' = insert (nth_index c k) (bits bm)))"
  using assms
proof (induction n arbitrary: cur c)
  case 0
  then show ?case by simp
next
  case (Suc n)
  define w :: u32 where "w = (if cur \<ge> SERVICE_INDEX_MAX then FIRST_INDEX else cur)"
  have w: "unat w = c" "c \<in> {1..2047}" and lt: "unat w < 2048"
    using Suc.prems(2-4) by (auto simp: w_def word_le_nat_alt split: if_splits)
  have w1: "unat (w + 1) = Suc c"
    using w by (simp add: unat_word_ariths)
  have bit: "is_bit_seted (Some bm) SERVICE_INDEX_MAX w \<longleftrightarrow> c \<in> bits bm"
    using is_bit_seted_bits[of SERVICE_INDEX_MAX bm w] Suc.prems(1) w lt by simp
  show ?case
  proof (cases "c \<in> bits bm")
    case False
    obtain bm1 where bm1: "set_bitmap (Some bm) SERVICE_INDEX_MAX w = Some bm1" "length bm1 = 256"
        "bits bm1 = insert c (bits bm)"
      using set_bitmap_bits[of SERVICE_INDEX_MAX bm w] Suc.prems(1) w lt by auto
    have "sint w = int c"
      using w sint_unat_small[of w] by simp
    then show ?thesis
      using Suc.prems(5) False bit bm1 w w1 nth_index_0[OF w(2)]
      by (auto simp: w_def[symmetric] Let_def simp del: is_bit_seted.simps set_bitmap.simps intro!: exI[of _ 0])
  next
    case True
    then have loop: "get_service_index_loop n bm (w + 1) = (r, bm', cur')"
      using Suc.prems(5) bit by (simp add: w_def[symmetric] Let_def del: is_bit_seted.simps set_bitmap.simps)
    have pos: "nth_index (if unat (w + 1) \<ge> 2048 then 1 else unat (w + 1)) k = nth_index c (Suc k)" for k
      using nth_index_Suc[OF w(2), of k] w1 by simp
    have all: "(\<forall>k<Suc n. nth_index c k \<in> bits bm) \<longleftrightarrow> (\<forall>k<n. nth_index c (Suc k) \<in> bits bm)"
      using True nth_index_0[OF w(2)] by (auto simp: less_Suc_eq_0_disj)
    show ?thesis
      using Suc.IH[OF Suc.prems(1) _ _ refl loop] w w1 pos all by auto
  qed
qed


definition indexes_ok :: "u8 list \<times> u32 \<Rightarrow> bool" where
  "indexes_ok = (\<lambda>(bm, cur). length bm = 256 \<and> 1 \<le> unat cur \<and> unat cur \<le> 2048 \<and> bits bm \<subseteq> {1..2047})"

definition index_alloc :: "u8 list \<times> u32 \<Rightarrow> nat option \<times> (u8 list \<times> u32)" where
  "index_alloc = (\<lambda>(bm, cur). let (r, bm, cur) = get_service_index_loop 2048 bm cur in
    (if r < 0 then None else Some (nat r), (bm, cur)))"

definition index_release :: "nat \<Rightarrow> u8 list \<times> u32 \<Rightarrow> u8 list \<times> u32" where
  "index_release i = (\<lambda>(bm, cur). (the (clear_bitmap (Some bm) SERVICE_INDEX_MAX (of_nat i)), cur))"

lemma index_alloc_spec:
  assumes "indexes_ok (bm, cur)" "index_alloc (bm, cur) = (r, (bm', cur'))"
  shows "indexes_ok (bm', cur') \<and>
    (r = None \<and> bm' = bm \<and> bits bm = {1..2047} \<or>
     (\<exists>i. r = Some i \<and> i \<in> {1..2047} - bits bm \<and> bits bm' = insert i (bits bm)))"
proof -
  obtain i where loop: "get_service_index_loop 2048 bm cur = (i, bm', cur')" "r = (if i < 0 then None else Some (nat i))"
    using assms(2) by (auto simp: index_alloc_def split: prod.splits)
  define c where "c = (if unat cur \<ge> 2048 then 1 else unat cur)"
  have c: "c \<in> {1..2047}"
    using assms(1) by (auto simp: c_def indexes_ok_def)
  have spec: "length bm' = 256 \<and> 1 \<le> unat cur' \<and> unat cur' \<le> 2048 \<and>
    (i = - 1 \<and> bm' = bm \<and> (\<forall>k<2048. nth_index c k \<in> bits bm) \<or>
     (\<exists>k<2048. i = int (nth_index c k) \<and> nth_index c k \<notin> bits bm \<and> bits bm' = insert (nth_index c k) (bits bm)))"
    using assms(1) by (intro get_service_index_loop_spec[OF _ _ _ c_def loop(1)]) (auto simp: indexes_ok_def)
  have full: "bits bm = {1..2047}" if all: "\<forall>k<2048. nth_index c k \<in> bits bm"
  proof
    show "bits bm \<subseteq> {1..2047}" using assms(1) by (simp add: indexes_ok_def)
    show "{1..2047} \<subseteq> bits bm"
    proof
      fix i :: nat assume "i \<in> {1..2047}"
      then obtain k where "k < 2047" "nth_index c k = i" using nth_index_all[OF c] by blast
      then show "i \<in> bits bm" using all[rule_format, of k] by simp
    qed
  qed
  have sub: "bits bm' \<subseteq> {1..2047}" if "bits bm' = insert (nth_index c k) (bits bm)" for k
    using assms(1) nth_index_range[of c k] by (simp add: that indexes_ok_def)
  from spec show ?thesis
  proof (elim conjE disjE exE)
    assume "i = - 1" "bm' = bm" "\<forall>k<2048. nth_index c k \<in> bits bm"
    then show ?thesis
      using full loop(2) assms(1) spec by (simp add: indexes_ok_def)
  next
    fix k assume "i = int (nth_index c k)" "nth_index c k \<notin> bits bm" "bits bm' = insert (nth_index c k) (bits bm)"
    then show ?thesis
      using sub loop(2) spec nth_index_range[of c k] by (auto simp: indexes_ok_def)
  qed
qed

lemma index_release_spec:
  assumes "indexes_ok (bm, cur)" "i \<in> {1..2047}"
  shows "indexes_ok (index_release i (bm, cur)) \<and> bits (fst (index_release i (bm, cur))) = bits bm - {i}"
proof -
  have u: "unat (of_nat i :: u32) = i"
    using assms(2) by (intro unat_of_nat_u32) auto
  obtain bm' where "clear_bitmap (Some bm) SERVICE_INDEX_MAX (of_nat i) = Some bm'" "length bm' = length bm"
      "bits bm' = bits bm - {i}"
    using clear_bitmap_bits[of SERVICE_INDEX_MAX bm "of_nat i"] assms u by (auto simp: indexes_ok_def)
  then show ?thesis
    using assms(1) by (auto simp: index_release_def indexes_ok_def)
qed

interpretation svc_index: id_allocator indexes_ok "\<lambda>(bm, cur). bits bm" "{1..2047}" index_alloc index_release
proof
  fix st :: "u8 list \<times> u32" and i
  assume ok: "indexes_ok st"
  obtain bm cur where st: "st = (bm, cur)" by fastforce
  obtain r bm' cur' where al: "index_alloc (bm, cur) = (r, (bm', cur'))" by (metis prod_cases3)
  note spec = index_alloc_spec[OF ok[unfolded st] al]
  show "(case st of (bm, cur) \<Rightarrow> bits bm) \<subseteq> {1..2047}"
    using ok by (auto simp: st indexes_ok_def)
  show "indexes_ok (snd (index_alloc st))"
    using spec by (simp add: st al)
  show "i \<in> {1..2047} - (case st of (bm, cur) \<Rightarrow> bits bm) \<and>
      (case snd (index_alloc st) of (bm, cur) \<Rightarrow> bits bm) = insert i (case st of (bm, cur) \<Rightarrow> bits bm)"
    if "fst (index_alloc st) = Some i"
    using that spec by (auto simp: st al)
  show "(case st of (bm, cur) \<Rightarrow> bits bm) = {1..2047} \<and>
      (case snd (index_alloc st) of (bm, cur) \<Rightarrow> bits bm) = (case st of (bm, cur) \<Rightarrow> bits bm)"
    if "fst (index_alloc st) = None"
    using that spec by (auto simp: st al)
  show "indexes_ok (index_release i st)"
      "(case index_release i st of (bm, cur) \<Rightarrow> bits bm) = (case st of (bm, cur) \<Rightarrow> bits bm) - {i}"
    if "i \<in> {1..2047}"
    using index_release_spec[OF ok[unfolded st] that] by (simp_all add: st case_prod_beta)
qed simp


section \<open>Registering and releasing services keeps the invariant\<close>

lemma wf_services_notify [simp]: "wf_services (notify c s) = wf_services s"
  by (simp add: wf_services_def)

lemma length_session_head:
  assumes "service_wf sess v"
  shows "length (v_session_head v) \<le> 8"
proof -
  have "inj_on (sid sess) (set (v_session_head v))" "sid sess ` set (v_session_head v) \<subseteq> {1..8}"
    using assms by (auto simp: service_wf_def inj_on_def)
  then have "card (set (v_session_head v)) \<le> card {1..8::nat}"
    by (intro card_inj_on_le) auto
  then show ?thesis
    using assms by (simp add: service_wf_def distinct_card)
qed

lemma session_count_0:
  assumes "service_wf sess v"
  shows "v_session_count v = 0 \<longleftrightarrow> v_session_head v = []"
  using length_session_head[OF assms] assms of_nat_u32_eq_iff[of "length (v_session_head v)" 0]
  by (simp add: service_wf_def)

lemma wf_svcs_remove:
  assumes wf: "wf_svcs head svcs sess bm cur" and a: "svcs a = Some v" and empty: "v_session_head v = []"
  shows "wf_svcs (remove1 a head) (svcs(a := None)) sess
    (the (clear_bitmap (Some bm) SERVICE_INDEX_MAX (v_index v))) cur"
proof -
  have ix: "index_wf svcs bm cur" using wf by (simp add: wf_svcs_def)
  have "1 \<le> unat (v_index v)" "unat (v_index v) \<le> 2047"
    using ix a by (auto simp: index_wf_def)
  then obtain bm' where bm': "clear_bitmap (Some bm) SERVICE_INDEX_MAX (v_index v) = Some bm'"
      "length bm' = 256" "bits bm' = bits bm - {unat (v_index v)}"
    using clear_bitmap_bits[of SERVICE_INDEX_MAX bm "v_index v"] ix by (auto simp: index_wf_def)
  have other: "unat (v_index w) \<noteq> unat (v_index v)" if "svcs b = Some w" "b \<noteq> a" for b w
    using ix a that unfolding index_wf_def by (metis word_unat_eq_iff)
  have "i \<in> bits bm' \<longleftrightarrow> (\<exists>b w. (svcs(a := None)) b = Some w \<and> unat (v_index w) = i)" for i
  proof -
    have "i \<in> bits bm' \<longleftrightarrow> (\<exists>b w. svcs b = Some w \<and> unat (v_index w) = i) \<and> i \<noteq> unat (v_index v)"
      using ix by (simp add: index_wf_def bm'(3))
    also have "\<dots> \<longleftrightarrow> (\<exists>b w. (svcs(a := None)) b = Some w \<and> unat (v_index w) = i)"
    proof (intro iffI; elim conjE exE)
      fix b w assume "i \<noteq> unat (v_index v)" "svcs b = Some w" "unat (v_index w) = i"
      then show "\<exists>b w. (svcs(a := None)) b = Some w \<and> unat (v_index w) = i"
        using a by (intro exI[of _ b] exI[of _ w]) auto
    next
      fix b w assume "(svcs(a := None)) b = Some w" "unat (v_index w) = i"
      then show "(\<exists>b w. svcs b = Some w \<and> unat (v_index w) = i) \<and> i \<noteq> unat (v_index v)"
        using other[of b w] by (auto split: if_splits)
    qed
    finally show ?thesis .
  qed
  then have "index_wf (svcs(a := None)) bm' cur"
    using ix bm'(2) unfolding index_wf_def by (auto split: if_splits)
  moreover have "sessions_owned (svcs(a := None)) sess"
  proof -
    have so: "sessions_owned svcs sess" using wf by (simp add: wf_svcs_def)
    have "\<exists>b w. (svcs(a := None)) b = Some w \<and> x \<in> set (v_session_head w)" if x: "sess x \<noteq> None" for x
    proof -
      obtain b w where "svcs b = Some w" "x \<in> set (v_session_head w)"
        using so x unfolding sessions_owned_def by blast
      then show ?thesis
        using a empty by (intro exI[of _ b] exI[of _ w]) auto
    qed
    moreover have "svcs b = Some w" if "(svcs(a := None)) b = Some w" for b w
      using that by (auto split: if_splits)
    ultimately show ?thesis
      using so unfolding sessions_owned_def by blast
  qed
  moreover have "live_uuids (svcs(a := None))"
    using wf unfolding wf_svcs_def live_uuids_def by (auto split: if_splits)
  ultimately show ?thesis
    using wf bm'(1) unfolding wf_svcs_def by (auto simp: set_remove1_eq split: if_splits)
qed

lemma index_wf_add:
  assumes iw: "index_wf svcs bm cur" and a: "svcs a = None"
    and bm': "length bm' = 256" "1 \<le> unat cur'" "unat cur' \<le> 2048"
    and ix: "unat (v_index v) \<in> {1..2047} - bits bm" "bits bm' = insert (unat (v_index v)) (bits bm)"
  shows "index_wf (svcs(a \<mapsto> v)) bm' cur'"
proof -
  have used: "unat (v_index w) \<in> bits bm" if "svcs b = Some w" for b w
    using iw that unfolding index_wf_def by blast
  have fresh: "v_index w \<noteq> v_index v" if "svcs b = Some w" for b w
    using used[OF that] ix(1) by auto
  have "i \<in> bits bm' \<longleftrightarrow> (\<exists>b w. (svcs(a \<mapsto> v)) b = Some w \<and> unat (v_index w) = i)" for i
  proof -
    have "i \<in> bits bm' \<longleftrightarrow> i = unat (v_index v) \<or> (\<exists>b w. svcs b = Some w \<and> unat (v_index w) = i)"
      using iw by (simp add: index_wf_def ix(2))
    also have "\<dots> \<longleftrightarrow> (\<exists>b w. (svcs(a \<mapsto> v)) b = Some w \<and> unat (v_index w) = i)"
    proof
      assume "i = unat (v_index v) \<or> (\<exists>b w. svcs b = Some w \<and> unat (v_index w) = i)"
      then show "\<exists>b w. (svcs(a \<mapsto> v)) b = Some w \<and> unat (v_index w) = i"
      proof (elim disjE exE conjE)
        fix b w assume "svcs b = Some w" "unat (v_index w) = i"
        then show ?thesis using a by (intro exI[of _ b] exI[of _ w]) auto
      qed (intro exI[of _ a] exI[of _ v], simp)
    qed (auto split: if_splits)
    finally show ?thesis .
  qed
  moreover have "b = c" if "(svcs(a \<mapsto> v)) b = Some w1" "(svcs(a \<mapsto> v)) c = Some w2" "v_index w1 = v_index w2" for b c w1 w2
    using that fresh[of b w1] fresh[of c w2] iw unfolding index_wf_def by (auto split: if_splits)
  moreover have "1 \<le> unat (v_index w) \<and> unat (v_index w) \<le> 2047" if "(svcs(a \<mapsto> v)) b = Some w" for b w
    using that ix(1) iw unfolding index_wf_def by (auto split: if_splits)
  ultimately show ?thesis
    using bm' unfolding index_wf_def by blast
qed

lemma live_uuids_add:
  assumes lu: "live_uuids svcs" and uuid: "\<And>b w. svcs b = Some w \<Longrightarrow> \<not> v_is_service_dead w \<Longrightarrow> v_uuid w \<noteq> v_uuid v"
  shows "live_uuids (svcs(a \<mapsto> v))"
  unfolding live_uuids_def
proof (intro allI impI)
  fix b c w1 w2
  assume *: "(svcs(a \<mapsto> v)) b = Some w1" "(svcs(a \<mapsto> v)) c = Some w2"
    "\<not> v_is_service_dead w1" "\<not> v_is_service_dead w2" "v_uuid w1 = v_uuid w2"
  show "b = c"
  proof (cases "b = a \<or> c = a")
    case True
    then show ?thesis using * uuid[of b w1] uuid[of c w2] by (auto split: if_splits)
  next
    case False
    then show ?thesis using * lu unfolding live_uuids_def by auto
  qed
qed

lemma wf_svcs_add:
  assumes wf: "wf_svcs head svcs sess bm cur" and a: "svcs a = None"
    and bm': "length bm' = 256" "1 \<le> unat cur'" "unat cur' \<le> 2048"
    and ix: "unat (v_index v) \<in> {1..2047} - bits bm" "bits bm' = insert (unat (v_index v)) (bits bm)"
    and v: "v_session_head v = []" "v_session_bitmap v = [0]" "v_session_count v = 0"
    and uuid: "\<And>b w. svcs b = Some w \<Longrightarrow> \<not> v_is_service_dead w \<Longrightarrow> v_uuid w \<noteq> v_uuid v"
  shows "wf_svcs (head @ [a]) (svcs(a \<mapsto> v)) sess bm' cur'"
proof -
  have "service_wf sess v"
    using v wbits_replicate_0[of 1, where 'a = 32] by (simp add: service_wf_def)
  moreover have "live_uuids (svcs(a \<mapsto> v))"
    using wf by (intro live_uuids_add uuid) (simp_all add: wf_svcs_def)
  moreover have "index_wf (svcs(a \<mapsto> v)) bm' cur'"
    using wf by (intro index_wf_add[where svcs = svcs and cur = cur, OF _ a bm' ix]) (simp add: wf_svcs_def)
  moreover have "sessions_owned (svcs(a \<mapsto> v)) sess"
  proof -
    have so: "sessions_owned svcs sess" using wf by (simp add: wf_svcs_def)
    have "svcs b = Some w" if "(svcs(a \<mapsto> v)) b = Some w" "x \<in> set (v_session_head w)" for b w x
      using that v(1) by (auto split: if_splits)
    moreover have "(svcs(a \<mapsto> v)) b = Some w" if "svcs b = Some w" for b w
      using that a by auto
    ultimately show ?thesis
      using so unfolding sessions_owned_def by blast
  qed
  ultimately show ?thesis
    using wf a unfolding wf_svcs_def by (auto split: if_splits)
qed

text \<open>What the operations do to a well-formed state.\<close>

lemma wf_service_head:
  assumes "wf_services s"
  shows "distinct (g_service_head s)" "a \<in> set (g_service_head s) \<longleftrightarrow> services s a \<noteq> None"
  using assms by (simp_all add: wf_services_def wf_svcs_def)

lemma wf_service_index:
  assumes "wf_services s" "services s a = Some v"
  shows "1 \<le> unat (v_index v)" "unat (v_index v) \<le> 2047" "sint (v_index v) = int (unat (v_index v))"
    "unat (v_index v) \<in> bits (g_service_index_map s)"
proof -
  show *: "1 \<le> unat (v_index v)" "unat (v_index v) \<le> 2047" "unat (v_index v) \<in> bits (g_service_index_map s)"
    using assms unfolding wf_services_def wf_svcs_def index_wf_def by blast+
  show "sint (v_index v) = int (unat (v_index v))"
    using *(2) by (intro sint_unat_small) simp
qed

lemma uint_neq_minus_1 [simp]: "uint (w :: 'a::len word) \<noteq> - 1"
  using uint_ge_0[of w] by linarith

lemma find_service_cases [consumes 1, case_names none some]:
  assumes wf: "wf_services s"
  obtains (none) "find_service s (Some u) ix = Some (- 1, None)"
      "\<And>a v. services s a = Some v \<Longrightarrow> \<not> v_is_service_dead v \<Longrightarrow> v_uuid v = u \<Longrightarrow> ix \<noteq> 0 \<and> ix \<noteq> v_index v"
  | (some) a v where "find_service s (Some u) ix = Some (int (unat (v_index v)), Some a)" "services s a = Some v"
      "v_uuid v = u" "\<not> v_is_service_dead v" "ix = 0 \<or> ix = v_index v"
proof -
  let ?P = "\<lambda>v. v_uuid v = u \<and> \<not> v_is_service_dead v \<and> (ix = 0 \<or> ix = v_index v)"
  have dom: "services s a \<noteq> None" if "a \<in> set (g_service_head s)" for a
    using wf_service_head(2)[OF wf] that by blast
  show thesis
  proof (rule find_entry_cases[of "g_service_head s" "services s" ?P, OF dom])
    assume *: "find_entry (services s) ?P (g_service_head s) = Some None"
      "\<And>a v. a \<in> set (g_service_head s) \<Longrightarrow> services s a = Some v \<Longrightarrow> \<not> ?P v"
    have "ix \<noteq> 0 \<and> ix \<noteq> v_index v" if "services s a = Some v" "\<not> v_is_service_dead v" "v_uuid v = u" for a v
      using *(2)[of a v] that wf_service_head(2)[OF wf, of a] by simp
    with *(1) show thesis by (intro none) (simp_all add: find_service_def)
  next
    fix a v assume "find_entry (services s) ?P (g_service_head s) = Some (Some a)" "services s a = Some v" "?P v"
    then show thesis
      using wf_service_index(3)[OF wf, of a v] by (intro some[of v a]) (simp_all add: find_service_def)
  qed
qed

lemma get_service_index_wf:
  assumes wf: "wf_services s" and r: "get_service_index s = (i, s')"
  obtains (full) "i = - 1" "wf_services s'" "services s' = services s" "sessions s' = sessions s"
      "g_service_head s' = g_service_head s"
  | (free) k bm cur where "i = int k" "k \<in> {1..2047} - bits (g_service_index_map s)"
      "bits bm = insert k (bits (g_service_index_map s))" "length bm = 256" "1 \<le> unat cur" "unat cur \<le> 2048"
      "s' = s\<lparr>g_service_index_map := bm, g_cur_index := cur\<rparr>"
proof -
  obtain bm cur where l: "get_service_index_loop 2048 (g_service_index_map s) (g_cur_index s) = (i, bm, cur)"
    and s': "s' = s\<lparr>g_service_index_map := bm, g_cur_index := cur\<rparr>"
    using r by (auto simp: get_service_index_def split: prod.splits)
  have iw: "index_wf (services s) (g_service_index_map s) (g_cur_index s)"
    using wf by (simp add: wf_services_def wf_svcs_def)
  then have ok: "indexes_ok (g_service_index_map s, g_cur_index s)"
    unfolding indexes_ok_def index_wf_def by auto
  have al: "index_alloc (g_service_index_map s, g_cur_index s) = (if i < 0 then None else Some (nat i), bm, cur)"
    by (simp add: index_alloc_def l)
  have neg: "i < 0 \<Longrightarrow> i = - 1"
    using iw get_service_index_loop_spec[OF _ _ _ refl l] by (auto simp: index_wf_def)
  note spec = index_alloc_spec[OF ok al]
  show thesis
  proof (cases "i < 0")
    case True
    moreover have "index_wf (services s) bm cur"
      using spec iw True by (auto simp: index_wf_def indexes_ok_def)
    ultimately show thesis
      using wf neg by (intro full) (simp_all add: s' wf_services_def wf_svcs_def)
  next
    case False
    then show thesis
      using spec by (intro free[of "nat i" bm cur]) (simp_all add: s' indexes_ok_def)
  qed
qed

lemma TEE_GetSystemTime_pair:
  "TEE_GetSystemTime E s = (fst (TEE_GetSystemTime E s), notify Tee_get_system_time s)"
  by (simp add: TEE_GetSystemTime_def ext_val_def notify_def)

lemma TEE_GetSystemTime_snd [simp]: "snd (TEE_GetSystemTime E s) = notify Tee_get_system_time s"
  by (simp add: TEE_GetSystemTime_def case_prod_beta)

lemma wf_services_update:
  "wf_services s \<Longrightarrow> services s a = Some v \<Longrightarrow> keeps_service f \<Longrightarrow>
   wf_services (s\<lparr>services := (services s)(a \<mapsto> f v)\<rparr>)"
  by (simp add: wf_services_def wf_svcs_update)

lemma add_to_service_list_wf:
  assumes wf: "wf_services s" and a: "services s a = None"
    and v: "v_session_bitmap v = [0]" "v_session_count v = 0"
    and uuid: "\<And>b w. services s b = Some w \<Longrightarrow> \<not> v_is_service_dead w \<Longrightarrow> v_uuid w \<noteq> u"
    and r: "add_to_service_list a v name u s = (ret, s')"
  shows "wf_services s' \<and> sessions s' = sessions s \<and>
    (ret = TEE_ERROR_OUT_OF_MEMORY \<and> services s' = services s \<or>
     ret = TEE_SUCCESS \<and> (\<exists>w. services s' = (services s)(a \<mapsto> w) \<and> v_uuid w = u \<and> v_session_head w = [] \<and>
       v_is_service_dead w = v_is_service_dead v \<and> v_elf_state w = v_elf_state v \<and> v_ref_cnt w = v_ref_cnt v))"
proof -
  obtain i s1 where g: "get_service_index s = (i, s1)" by fastforce
  show ?thesis
  proof (rule get_service_index_wf[OF wf g])
    assume "i = - 1" "wf_services s1" "services s1 = services s" "sessions s1 = sessions s"
    then show ?thesis using r by (simp add: add_to_service_list_def g)
  next
    fix k bm cur
    assume k: "i = int k" "k \<in> {1..2047} - bits (g_service_index_map s)"
      "bits bm = insert k (bits (g_service_index_map s))" "length bm = 256" "1 \<le> unat cur" "unat cur \<le> 2048"
      "s1 = s\<lparr>g_service_index_map := bm, g_cur_index := cur\<rparr>"
    define w where "w = v\<lparr>v_index := of_int i, v_init_build := 0,
      v_name := (if length name < SERVICE_NAME_MAX then name else take (SERVICE_NAME_MAX - 1) name),
      v_property := (v_property v)\<lparr>p_uuid := u\<rparr>, v_session_head := []\<rparr>"
    have s': "ret = TEE_SUCCESS" "s' = s1\<lparr>services := (services s)(a \<mapsto> w), g_service_head := g_service_head s @ [a]\<rparr>"
      using r k(1,7) by (auto simp: add_to_service_list_def g w_def)
    have w: "unat (v_index w) = k" "v_uuid w = u" "v_session_head w = []" "v_session_bitmap w = [0]" "v_session_count w = 0"
        "v_is_service_dead w = v_is_service_dead v" "v_elf_state w = v_elf_state v" "v_ref_cnt w = v_ref_cnt v"
      using k(1,2) v by (simp_all add: w_def v_uuid_def unat_of_nat_u32)
    have "wf_svcs (g_service_head s @ [a]) ((services s)(a \<mapsto> w)) (sessions s) bm cur"
      using wf k w uuid by (intro wf_svcs_add[OF wf[unfolded wf_services_def] a]) auto
    then show ?thesis
      using s' w k(7) by (auto simp: wf_services_def)
  qed
qed

lemma register_service_wf:
  assumes wf: "wf_services s"
  shows "okay (register_service E name uuid dyn attr s) (\<lambda>(ret, s'). wf_services s' \<and> sessions s' = sessions s \<and>
    (ret = TEE_SUCCESS \<longrightarrow> (\<exists>a v. services s' a = Some v \<and> uuid = Some (v_uuid v) \<and> \<not> v_is_service_dead v \<and> v_elf_state v = ELF_EXIST)))"
proof (cases "\<exists>n u at. name = Some n \<and> uuid = Some u \<and> attr = Some at \<and> (attr_build_in at \<or> \<not> build_in E u)")
  case False
  then show ?thesis using wf by (auto simp: register_service_def split: option.splits)
next
  case True
  then obtain n u at where args: "name = Some n" "uuid = Some u" "attr = Some at" "attr_build_in at \<or> \<not> build_in E u"
    by blast
  from wf show ?thesis
  proof (cases rule: find_service_cases[where u = u and ix = 0])
    case (some a v)
    have k: "keeps_service (\<lambda>v. v\<lparr>v_elf_state := ELF_EXIST\<rparr>)"
      by (simp add: keeps_service_def v_uuid_def)
    show ?thesis
      using wf_services_update[OF wf some(2) k] some args
      by (auto simp: register_service_def v_uuid_def)
  next
    case none
    show ?thesis
    proof (cases rule: TEE_Malloc_cases[of E s])
      case 1
      then show ?thesis using none args wf by (auto simp: register_service_def)
    next
      case (2 a)
      let ?s = "notify Tee_get_system_time (notify Tee_malloc s)"
      let ?v = "zero_service\<lparr>v_elf_state := ELF_EXIST, v_ta_64bit := attr_ta_64bit at,
        v_first_open := True, v_is_service_dead := False, v_is_dyn_conf_registed := dyn, v_img_type := attr_img_type at,
        v_load_elf_time := fst (TEE_GetSystemTime E (notify Tee_malloc s))\<rparr>"
      define v where "v = (if \<not> attr_build_in at then ?v\<lparr>v_ref_cnt := 1\<rparr> else ?v)"
      obtain r s' where add: "add_to_service_list a v n u ?s = (r, s')" by fastforce
      have eq: "register_service E name uuid dyn attr s = Some (r, s')"
        using none(1) args 2(1) add TEE_GetSystemTime_pair[of E "notify Tee_malloc s"]
        by (auto simp: register_service_def Let_def v_def split: prod.splits)
      have "wf_services ?s" "services ?s a = None" using wf 2(2) by (simp_all add: in_use_def)
      moreover have "v_session_bitmap v = [0]" "v_session_count v = 0" and v: "\<not> v_is_service_dead v" "v_elf_state v = ELF_EXIST"
        by (simp_all add: v_def zero_service_def)
      moreover have "v_uuid w \<noteq> u" if "services ?s b = Some w" "\<not> v_is_service_dead w" for b w
        using none(2)[of b w] that by auto
      ultimately have "wf_services s' \<and> sessions s' = sessions ?s \<and>
        (r = TEE_ERROR_OUT_OF_MEMORY \<and> services s' = services ?s \<or>
         r = TEE_SUCCESS \<and> (\<exists>w. services s' = (services ?s)(a \<mapsto> w) \<and> v_uuid w = u \<and> v_session_head w = [] \<and>
           v_is_service_dead w = v_is_service_dead v \<and> v_elf_state w = v_elf_state v \<and> v_ref_cnt w = v_ref_cnt v))"
        by (intro add_to_service_list_wf[OF _ _ _ _ _ add]) blast+
      then show ?thesis
        unfolding eq using args(2) v by auto
    qed
  qed
qed

lemma recycle_srvc_thread_eq:
  assumes "services s a = Some v" "wf_tasks s"
  obtains h where "recycle_srvc_thread E (Some a) s =
    Some (s\<lparr>services := (services s)(a \<mapsto> v\<lparr>v_service_thread := 0\<rparr>), history := h\<rparr>)"
proof (cases "v_service_thread v = 0")
  case True
  then have "(services s)(a \<mapsto> v\<lparr>v_service_thread := 0\<rparr>) = services s"
    using assms by (auto simp: fun_eq_iff)
  then show thesis
    using True assms(1) by (intro that[of "history s"]) (simp add: recycle_srvc_thread_def)
next
  case False
  have "quiet s (let (k, s) = ext_ret E (Kill_task (taskid_to_pid E (v_service_thread v))) s
      in if k = 0 then gt_wait_process E (v_service_thread v) s else s)"
    by (simp add: ext_pair)
  then obtain h where h: "(let (k, s) = ext_ret E (Kill_task (taskid_to_pid E (v_service_thread v))) s
      in if k = 0 then gt_wait_process E (v_service_thread v) s else s) = s\<lparr>history := h\<rparr>"
    unfolding quiet_def by blast
  let ?s = "s\<lparr>history := h, services := (services s)(a \<mapsto> v\<lparr>v_service_thread := 0\<rparr>)\<rparr>"
  have "wf_tasks ?s" using assms(2) by (simp add: wf_tasks_def)
  then obtain s' where s': "task_adapt_ta_release E (Some (v_uuid v)) ?s = Some s'" "quiet ?s s'"
    using task_adapt_quiet(4)[of ?s E "Some (v_uuid v)"] by (auto simp: okay_iff)
  obtain h' where "s' = ?s\<lparr>history := h'\<rparr>" using s'(2) by (auto simp: quiet_def)
  moreover have "recycle_srvc_thread E (Some a) s = task_adapt_ta_release E (Some (v_uuid v)) ?s"
    using False assms(1) h by (simp add: recycle_srvc_thread_def ext_pair)
  ultimately show thesis using s'(1) by (intro that[of h']) simp
qed

lemma process_release_service_eq:
  assumes "services s a = Some v" "wf_tasks s"
  obtains h where "process_release_service E (Some a) r s =
    Some (s\<lparr>services := (services s)(a := None), g_service_head := remove1 a (g_service_head s),
      g_service_index_map := the (clear_bitmap (Some (g_service_index_map s)) SERVICE_INDEX_MAX (v_index v)), history := h\<rparr>)"
proof -
  define s1 where "s1 = (if v_elf_state v = ELF_EXIST then notify (Sre_release_dynamic_region (v_uuid v) r) s else s)"
  obtain v' h1 where s2: "(if v_is_dyn_conf_registed v
      then upd_service a (\<lambda>v. v\<lparr>v_is_dyn_conf_registed := False\<rparr>) (notify (Unregister_conf (v_uuid v)) s1)
      else Some s1) = Some (s\<lparr>services := (services s)(a \<mapsto> v'), history := h1\<rparr>)"
  proof (cases "v_is_dyn_conf_registed v")
    case True
    then show ?thesis
      using assms(1) that[of "Unregister_conf (v_uuid v) # history s1" "v\<lparr>v_is_dyn_conf_registed := False\<rparr>"]
      by (simp add: s1_def notify_def)
  next
    case False
    have "(services s)(a \<mapsto> v) = services s" using assms(1) by (simp add: fun_upd_idem)
    with False show ?thesis
      using that[of "history s1" v] by (simp add: s1_def notify_def)
  qed
  let ?s3 = "notify (Release_timer_event (v_uuid v)) (s\<lparr>services := (services s)(a \<mapsto> v'), history := h1\<rparr>)"
  have "services ?s3 a = Some v'" "wf_tasks ?s3" using assms(2) by (simp_all add: wf_tasks_def)
  then obtain h2 where s4: "recycle_srvc_thread E (Some a) ?s3 =
      Some (?s3\<lparr>services := (services ?s3)(a \<mapsto> v'\<lparr>v_service_thread := 0\<rparr>), history := h2\<rparr>)"
    by (rule recycle_srvc_thread_eq)
  have "process_release_service E (Some a) r s = Some (free_service a (let s = notify (Tee_delete_all_libinfo a)
      (?s3\<lparr>services := (services ?s3)(a \<mapsto> v'\<lparr>v_service_thread := 0\<rparr>), history := h2\<rparr>) in
      s\<lparr>g_service_head := remove1 a (g_service_head s),
        g_service_index_map := the (clear_bitmap (Some (g_service_index_map s)) SERVICE_INDEX_MAX (v_index v))\<rparr>))"
    unfolding process_release_service_def Let_def s1_def[symmetric] option.case assms(1) bind.simps s2 s4 by simp
  then show thesis
    by (intro that[of "Tee_delete_all_libinfo a # h2"]) (simp add: free_service_def notify_def)
qed

lemma process_release_service_wf:
  assumes "wf_services s" "services s a = Some v" "v_session_head v = []" "wf_tasks s"
  shows "okay (process_release_service E (Some a) r s) (\<lambda>s'. wf_services s' \<and> wf_tasks s' \<and> sessions s' = sessions s \<and>
    services s' = (services s)(a := None) \<and> g_service_head s' = remove1 a (g_service_head s))"
  using wf_svcs_remove[OF assms(1)[unfolded wf_services_def] assms(2,3)]
  by (rule_tac process_release_service_eq[OF assms(2,4), of E r]) (use assms(4) in \<open>simp add: wf_services_def wf_tasks_def\<close>)

text \<open>The services that the sweep of \<open>age_service\<close> may release.\<close>

definition may_age :: "env \<Rightarrow> service_struct \<Rightarrow> bool" where
  "may_age E v \<longleftrightarrow> \<not> v_is_service_dead v \<and> \<not> build_in E (v_uuid v) \<and> v_session_head v = [] \<and>
    (\<not> p_keep_alive (v_property v) \<or> v_first_open v)"

lemma do_age_service_wf:
  assumes wf: "wf_services s" "wf_tasks s" and a: "services s a = Some v" "v_session_head v = []"
  shows "okay (do_age_service E a s) (\<lambda>s'. wf_services s' \<and> wf_tasks s' \<and> sessions s' = sessions s \<and>
    services s' = (if get_interval (fst (TEE_GetSystemTime E s)) (v_load_elf_time v) > SERVICE_AGED_TIME_LIMIT
      then (services s)(a := None) else services s) \<and>
    set (g_service_head s') \<supseteq> set (g_service_head s) - {a})"
proof -
  let ?s = "notify Tee_get_system_time s"
  have wf': "wf_services ?s" "wf_tasks ?s" and a': "services ?s a = Some v" using wf a by simp_all
  have eq: "do_age_service E a s =
      (if get_interval (fst (TEE_GetSystemTime E s)) (v_load_elf_time v) > SERVICE_AGED_TIME_LIMIT
       then process_release_service E (Some a) TA_REGION_RELEASE ?s else Some ?s)"
    using a by (simp add: do_age_service_def is_aged_service_def case_prod_beta)
  show ?thesis
    unfolding eq using okay_conseq[OF process_release_service_wf[OF wf'(1) a' a(2) wf'(2)]] wf wf_service_head(1)[OF wf(1)]
    by (auto simp: okay_def split: option.splits)
qed

text \<open>The time of a call depends only on the calls before it.\<close>

definition clock :: "env \<Rightarrow> ext list \<Rightarrow> u32 \<times> u32" where
  "clock E h = (ucast (drop_bit 32 (env_val E h Tee_get_system_time)), ucast (env_val E h Tee_get_system_time))"

lemma fst_TEE_GetSystemTime: "fst (TEE_GetSystemTime E s) = clock E (history s)"
  by (simp add: TEE_GetSystemTime_def ext_val_def clock_def)

text \<open>The outcome of one sweep for a service: released when it may age and its time is over, else untouched.\<close>

definition aged_outcome :: "env \<Rightarrow> service_struct option \<Rightarrow> service_struct option \<Rightarrow> bool" where
  "aged_outcome E before after \<longleftrightarrow> (case before of None \<Rightarrow> after = None
    | Some v \<Rightarrow>
        after = None \<and> may_age E v \<and> (\<exists>h. get_interval (clock E h) (v_load_elf_time v) > SERVICE_AGED_TIME_LIMIT) \<or>
        after = Some v \<and> (may_age E v \<longrightarrow> (\<exists>h. \<not> get_interval (clock E h) (v_load_elf_time v) > SERVICE_AGED_TIME_LIMIT)))"

lemma age_step_wf:
  assumes wf: "wf_services s" "wf_tasks s" and a: "services s a = Some v"
  shows "okay (if v_is_service_dead v then Some s
      else if build_in E (v_uuid v) then Some s
      else if v_session_count v = 0 \<and> (\<not> p_keep_alive (v_property v) \<or> v_first_open v) then do_age_service E a s
      else Some s)
    (\<lambda>s'. wf_services s' \<and> wf_tasks s' \<and> sessions s' = sessions s \<and> (\<forall>b. b \<noteq> a \<longrightarrow> services s' b = services s b) \<and>
      aged_outcome E (services s a) (services s' a))"
proof -
  note cnt = session_count_0[OF wf_servicesD[OF wf(1) a]]
  show ?thesis
  proof (cases "may_age E v")
    case True
    then have empty: "v_session_head v = []" by (simp add: may_age_def)
    have "okay (do_age_service E a s) (\<lambda>s'. wf_services s' \<and> wf_tasks s' \<and> sessions s' = sessions s \<and>
        (\<forall>b. b \<noteq> a \<longrightarrow> services s' b = services s b) \<and> aged_outcome E (services s a) (services s' a))"
      by (rule okay_conseq[OF do_age_service_wf[OF wf a empty]])
        (auto simp: aged_outcome_def True a fst_TEE_GetSystemTime split: if_splits)
    then show ?thesis
      using True cnt by (simp add: may_age_def)
  next
    case False
    then show ?thesis using wf a cnt by (auto simp: aged_outcome_def may_age_def)
  qed
qed

lemma age_service_loop_wf:
  assumes "wf_services s" "distinct as" "\<And>a. a \<in> set as \<Longrightarrow> services s a \<noteq> None" "wf_tasks s"
  shows "okay (age_service_loop E as s) (\<lambda>s'. wf_services s' \<and> wf_tasks s' \<and> sessions s' = sessions s \<and>
    (\<forall>b. if b \<in> set as then aged_outcome E (services s b) (services s' b) else services s' b = services s b))"
  using assms
proof (induction as arbitrary: s)
  case (Cons a as)
  obtain v where v: "services s a = Some v" using Cons.prems(3)[of a] by auto
  obtain s1 where s1: "(if v_is_service_dead v then Some s
      else if build_in E (v_uuid v) then Some s
      else if v_session_count v = 0 \<and> (\<not> p_keep_alive (v_property v) \<or> v_first_open v) then do_age_service E a s
      else Some s) = Some s1" "wf_services s1" "wf_tasks s1" "sessions s1 = sessions s" "\<And>b. b \<noteq> a \<Longrightarrow> services s1 b = services s b"
      "aged_outcome E (services s a) (services s1 a)"
    using age_step_wf[OF Cons.prems(1,4) v, of E] by (elim okayE) blast
  have "services s1 b \<noteq> None" if "b \<in> set as" for b
    using Cons.prems(2) Cons.prems(3)[of b] s1(5)[of b] that by (cases "b = a") auto
  then have "okay (age_service_loop E as s1) (\<lambda>s'. wf_services s' \<and> wf_tasks s' \<and> sessions s' = sessions s1 \<and>
    (\<forall>b. if b \<in> set as then aged_outcome E (services s1 b) (services s' b) else services s' b = services s1 b))"
    using Cons.prems(2) by (intro Cons.IH s1(2,3)) auto
  then obtain s2 where s2: "age_service_loop E as s1 = Some s2" "wf_services s2" "wf_tasks s2" "sessions s2 = sessions s1"
      "\<And>b. if b \<in> set as then aged_outcome E (services s1 b) (services s2 b) else services s2 b = services s1 b"
    by (elim okayE) blast
  have "if b \<in> set (a # as) then aged_outcome E (services s b) (services s2 b) else services s2 b = services s b" for b
    using s2(5)[of b] s1(5)[of b] s1(6) Cons.prems(2) by (cases "b = a") (auto split: if_splits)
  then show ?case
    using v s1(1,4) s2(1-4) by simp
qed simp


section \<open>Examples\<close>

lemma wf_boot_gtask: "wf_services boot_gtask"
  using wbits_replicate_0[of 256, where 'a = 8]
  by (simp add: wf_services_def wf_svcs_def boot_gtask_def index_wf_def live_uuids_def sessions_owned_def)

lemma get_service_index_loop_first:
  "\<not> cur \<ge> SERVICE_INDEX_MAX \<Longrightarrow> \<not> is_bit_seted (Some bm) SERVICE_INDEX_MAX cur \<Longrightarrow>
   get_service_index_loop 2048 bm cur = (sint cur, the (set_bitmap (Some bm) SERVICE_INDEX_MAX cur), cur + 1)"
  using get_service_index_loop.simps(2)[of 2047 bm cur] by simp

lemma boot_service_index:
  "get_service_index_loop 2048 (replicate 256 0) 1 = (1, the (set_bitmap (Some (replicate 256 0)) SERVICE_INDEX_MAX 1), 2)"
  using is_bit_seted_bits[of SERVICE_INDEX_MAX "replicate 256 0" 1] wbits_replicate_0[of 256, where 'a = 8]
    get_service_index_loop_first[of 1 "replicate 256 0"]
  by (simp add: word_le_nat_alt)

definition demo_uuid :: TEE_UUID where
  "demo_uuid = TEE_SERVICE_REET\<lparr>timeLow := 7\<rparr>"

text \<open>The global task after the registration of one trusted application.\<close>

definition demo_gtask :: gtask where
  "demo_gtask = snd (the (register_service calm_env (Some ''demo'') (Some demo_uuid) False
    (Some \<lparr>attr_build_in = False, attr_ta_64bit = True, attr_img_type = 1\<rparr>) boot_gtask))"

lemma wf_demo_gtask: "wf_services demo_gtask"
  unfolding demo_gtask_def
  using register_service_wf[OF wf_boot_gtask, of calm_env "Some ''demo''" "Some demo_uuid" False
      "Some \<lparr>attr_build_in = False, attr_ta_64bit = True, attr_img_type = 1\<rparr>"]
  by (elim okayE) auto

lemma demo_gtask_service: "\<exists>v. services demo_gtask = [0 \<mapsto> v] \<and> v_session_head v = [] \<and> v_session_bitmap v = [0] \<and>
    v_session_count v = 0 \<and> \<not> v_is_service_dead v \<and> v_uuid v = demo_uuid \<and> g_service_head demo_gtask = [0] \<and>
    sessions demo_gtask = (\<lambda>_. None) \<and> agents demo_gtask = (\<lambda>_. None) \<and> g_agent_head demo_gtask = [] \<and> g_agent_cnt demo_gtask = 0"
  by (simp add: demo_gtask_def register_service_def calm_env_def boot_gtask_def find_service_def TEE_Malloc_def in_use_def
      notify_def TEE_GetSystemTime_def ext_val_def add_to_service_list_def get_service_index_def boot_service_index
      Let_def zero_service_def v_uuid_def) (intro exI conjI, rule refl, simp_all add: zero_property_def)

lemma wf_tasks_demo_gtask: "wf_tasks demo_gtask"
proof -
  have "tasks demo_gtask = (\<lambda>_. None)" "g_task_list_head demo_gtask = []" "g_task_list_num demo_gtask = 0"
    by (simp_all add: demo_gtask_def register_service_def calm_env_def boot_gtask_def find_service_def TEE_Malloc_def in_use_def
      notify_def TEE_GetSystemTime_def ext_val_def add_to_service_list_def get_service_index_def boot_service_index Let_def)
  then show ?thesis by (simp add: wf_tasks_def)
qed

lemma demo_gtask_services: "services demo_gtask 0 \<noteq> None"
  using demo_gtask_service by auto

text \<open>The same state with one session of the service, which is the current one.\<close>

definition demo_session :: session_struct where
  "demo_session = \<lparr>s_task_id = 7, s_session_id = 1, s_session_context = 0, s_login_method = 0, s_name = ''demo'',
    s_ta2ta_from_taskid = 0, s_cancelable = False, s_agent_pending = False, s_locked_agents = [], s_waiting_agent = None,
    s_cmd_type = 1, s_cmd = False, s_cmd_in = zero_cmd, s_oper_addr = 0x40000000, s_pam_node = None, s_map_mem = [],
    s_ta2ta_level = 0, s_ta2ta_handle = 0, s_wait_ta_back_msg = False, s_session_status = 0, s_child_ta_sess_head = [],
    s_child_ta_sess_list = None\<rparr>"

definition demo_open :: gtask where
  "demo_open = demo_gtask\<lparr>
    services := (services demo_gtask)(0 \<mapsto> (the (services demo_gtask 0))\<lparr>v_session_head := [5], v_session_bitmap := [1], v_session_count := 1\<rparr>),
    sessions := [5 \<mapsto> demo_session], g_cur_service := Some 0, g_cur_session := Some 5\<rparr>"

lemma demo_open_simps [simp]: "g_cur_session demo_open = Some 5" "g_cur_service demo_open = Some 0"
  "sessions demo_open = [5 \<mapsto> demo_session]"
  by (simp_all add: demo_open_def)

lemma wf_demo_open: "wf_services demo_open"
proof -
  obtain v where v: "services demo_gtask = [0 \<mapsto> v]" "v_session_head v = []" "v_session_bitmap v = [0]" "v_session_count v = 0"
      "sessions demo_gtask = (\<lambda>_. None)"
    using demo_gtask_service by auto
  have wf: "wf_svcs (g_service_head demo_gtask) (services demo_gtask) (sessions demo_gtask) (g_service_index_map demo_gtask) (g_cur_index demo_gtask)"
    using wf_demo_gtask by (simp add: wf_services_def)
  have a: "services demo_gtask 0 = Some v" using v by simp
  let ?v = "v\<lparr>v_session_head := [5], v_session_bitmap := [1], v_session_count := 1\<rparr>"
  have "service_wf ((sessions demo_gtask)(5 \<mapsto> demo_session)) ?v"
  proof (rule service_wf_add[of _ v _ 0])
    show "service_wf (sessions demo_gtask) v" using wf a by (auto simp: wf_svcs_def)
  qed (use v in \<open>auto simp: demo_session_def wbits_def bit_1_iff\<close>)
  then have "wf_svcs (g_service_head demo_gtask) ((services demo_gtask)(0 \<mapsto> ?v)) ((sessions demo_gtask)(5 \<mapsto> demo_session))
      (g_service_index_map demo_gtask) (g_cur_index demo_gtask)"
    using v by (intro wf_svcs_sessions[OF wf a]) (auto simp: v_uuid_def)
  then show ?thesis using v by (simp add: wf_services_def demo_open_def)
qed


section \<open>Arithmetic of the age\<close>

lemma unat_sub_mono: "(b :: u64) \<le> a \<Longrightarrow> unat (a - b) = unat a - unat b"
  by (rule unat_sub)

lemma unat_seconds:
  "unat ((ucast (c :: u32) - ucast b) * 1000 :: u64) = (unat c - unat b) * 1000" if "b \<le> c" for b :: u32
proof -
  have "(ucast b :: u64) \<le> ucast c" using that by (simp add: word_le_nat_alt)
  then have "unat (ucast c - ucast b :: u64) = unat c - unat b" by (simp add: unat_sub_mono)
  moreover have "(unat c - unat b) * 1000 < 2 ^ 64" using unat_lt_u32[of c] by simp
  ultimately show ?thesis
  proof -
    define d where "d = (ucast c - ucast b :: u64)"
    assume "unat (ucast c - ucast b :: u64) = unat c - unat b" "(unat c - unat b) * 1000 < 2 ^ 64"
    then show ?thesis unfolding d_def[symmetric] by (simp add: unat_word_ariths)
  qed
qed

text \<open>The difference of two times in milliseconds, with the wrap-around of 64-bit subtraction where it happens.\<close>

lemma unat_get_interval:
  assumes ms: "cm < 1000" "bm < 1000"
  shows "unat (get_interval (cs, cm) (bs, bm)) =
    (if cs = bs \<and> cm < bm then 2 ^ 64 - (unat bm - unat cm)
     else (unat cs * 1000 + unat cm) - (unat bs * 1000 + unat bm))"
proof -
  have m: "unat cm < 1000" "unat bm < 1000" using ms by (simp_all add: word_less_nat_alt)
  show ?thesis
  proof (cases "cs < bs")
    case True
    then have "Suc (unat cs) \<le> unat bs" by (simp add: word_less_nat_alt)
    then have "unat cs * 1000 + 1000 \<le> unat bs * 1000" by linarith
    then show ?thesis using True m by (auto simp: get_interval_def)
  next
    case False
    then have le: "bs \<le> cs" by simp
    define i where "i = ((ucast cs - ucast bs) * 1000 :: u64)"
    have i: "unat i = (unat cs - unat bs) * 1000" unfolding i_def by (rule unat_seconds[OF le])
    have cs: "unat bs \<le> unat cs" "unat cs < 2 ^ 32" using le unat_lt_u32[of cs] by (simp_all add: word_le_nat_alt)
    show ?thesis
    proof (cases "bm \<le> cm")
      case True
      then have "(ucast bm :: u64) \<le> ucast cm" by (simp add: word_le_nat_alt)
      then have "unat (ucast cm - ucast bm :: u64) = unat cm - unat bm" by (simp add: unat_sub_mono)
      then have "unat (i + (ucast cm - ucast bm)) = (unat cs - unat bs) * 1000 + (unat cm - unat bm)"
        using i cs(2) m by (simp add: unat_word_ariths)
      moreover have "get_interval (cs, cm) (bs, bm) = i + (ucast cm - ucast bm)"
        using False True by (simp add: get_interval_def i_def)
      ultimately show ?thesis using True cs m by (simp add: word_le_nat_alt word_less_nat_alt)
    next
      case bm: False
      have d: "unat (ucast bm - ucast cm :: u64) = unat bm - unat cm"
        using bm by (subst unat_sub_mono) (simp_all add: word_le_nat_alt)
      have eq: "get_interval (cs, cm) (bs, bm) = i - (ucast bm - ucast cm)"
        using False bm by (simp add: get_interval_def i_def)
      show ?thesis
      proof (cases "cs = bs")
        case True
        then have "unat (i - (ucast bm - ucast cm)) = 2 ^ 64 - (unat bm - unat cm)"
          using i d bm m by (simp add: unat_sub_if_size word_size word_less_nat_alt word_le_nat_alt)
        then show ?thesis using True bm eq by simp
      next
        case neq: False
        then have lt: "unat bs < unat cs" using cs(1) by (simp add: word_unat_eq_iff)
        then have "ucast bm - ucast cm \<le> i" using m by (simp add: word_le_nat_alt d i)
        then have "unat (i - (ucast bm - ucast cm)) = (unat cs - unat bs) * 1000 - (unat bm - unat cm)"
          by (simp add: unat_sub_mono d i)
        then show ?thesis using neq eq bm lt m by (simp add: word_le_nat_alt word_less_nat_alt)
      qed
    qed
  qed
qed


section \<open>Properties\<close>

text \<open>
  C10: Registering a service on a well-formed state never touches freed memory and leaves the state well-formed: the
  service indexes stay distinct and in step with the index map, no two live services have the same UUID,
  and no session is affected.  When it reports success, a live service with the UUID is registered, with its ELF present.
\<close>

theorem register_service_correct:
  assumes "wf_services s"
  shows "\<exists>ret s'. register_service E name uuid dyn attr s = Some (ret, s') \<and> wf_services s' \<and> sessions s' = sessions s \<and>
    (ret = TEE_SUCCESS \<longrightarrow> (\<exists>a v. services s' a = Some v \<and> uuid = Some (v_uuid v) \<and> \<not> v_is_service_dead v \<and>
      v_elf_state v = ELF_EXIST))"
  using register_service_wf[OF assms, of E name uuid dyn attr] by (elim okayE) blast

theorem register_service_correct_witness:
  "wf_services boot_gtask \<and> (\<exists>ret s'. register_service calm_env (Some ''demo'') (Some demo_uuid) False
    (Some \<lparr>attr_build_in = False, attr_ta_64bit = True, attr_img_type = 1\<rparr>) boot_gtask = Some (ret, s') \<and> wf_services s')"
  using register_service_correct[OF wf_boot_gtask] wf_boot_gtask by blast



text \<open>
  C17: The age of a service is its time since loading in milliseconds, and 0 when the clock shows an earlier second; only when
  the clock shows an earlier millisecond of the same second the subtraction wraps around to nearly \<open>2 ^ 64\<close>.
\<close>

theorem get_interval_exact:
  assumes "cm < 1000" "bm < 1000"
  shows "unat (get_interval (cs, cm) (bs, bm)) =
    (if cs = bs \<and> cm < bm then 2 ^ 64 - (unat bm - unat cm)
     else (unat cs * 1000 + unat cm) - (unat bs * 1000 + unat bm))"
  using assms by (rule unat_get_interval)

theorem get_interval_exact_witness:
  "unat (get_interval (12, 5) (10, 999)) = 1006 \<and> unat (get_interval (10, 5) (10, 7)) = 2 ^ 64 - 2"
  using get_interval_exact[of 5 999 12 10] get_interval_exact[of 5 7 10 10] by simp

text \<open>A service loaded a few milliseconds "in the future" is too old at once.\<close>

lemma age_wraps_around:
  assumes "cm < bm" "bm < 1000"
  shows "get_interval (t, cm) (t, bm) > SERVICE_AGED_TIME_LIMIT"
proof -
  have "cm < 1000" using assms by (rule order.strict_trans)
  then have "unat (get_interval (t, cm) (t, bm)) = 2 ^ 64 - (unat bm - unat cm)"
    using unat_get_interval[of cm bm t t] assms by simp
  moreover have "unat bm < 1000" using assms(2) by (simp add: word_less_nat_alt)
  ultimately show ?thesis by (simp add: word_less_nat_alt)
qed

end
