(* ===== verification/Gtask_Adapt.thy ===== *)
theory Gtask_Adapt
  imports Service_Manager
begin

text \<open>
  Messages between the global task and the trusted applications, \<open>framework/gtask/src/framework/gtask_adapt.c\<close>.  An
  application is a 32-bit or a 64-bit program, and the global task converts the messages it exchanges with it.
\<close>

section \<open>Operations\<close>

text \<open>The result \<open>None\<close> is the return value -1; the global task itself runs on a 64-bit platform (\<open>__aarch64__\<close>).\<close>

definition get_ta_info :: "gtask \<Rightarrow> u32 \<Rightarrow> (bool \<times> TEE_UUID) option option" where
  "get_ta_info s task_id = (
    if task_id = 0 then Some (Some (True, TEE_SERVICE_GLOBAL))
    else do {
      t \<leftarrow> find_task s task_id;
      (case t of None \<Rightarrow> Some None
       | Some (serv, sess) \<Rightarrow> do { v \<leftarrow> services s serv; Some (Some (v_ta_64bit v, v_uuid v)) })
    })"

definition ta_to_global_msg_len :: "bool \<Rightarrow> nat" where
  "ta_to_global_msg_len ta_is_64 = (if ta_is_64 then 24 else 16)"

text \<open>The fields of the two message structures at their offsets, in little-endian order.\<close>

definition convert_ta2gtask_msg_handle :: "u8 list \<Rightarrow> bool \<Rightarrow> ta_to_global_msg" where
  "convert_ta2gtask_msg_handle msg_buf ta_is_64 = (
    if \<not> ta_is_64 then
      \<lparr>t_ret = field_u32 0 msg_buf, t_agent_id = field_u32 4 msg_buf,
       t_session_context = ucast (field_u32 8 msg_buf), t_ta2ta_from_taskid = field_u32 12 msg_buf\<rparr>
    else
      \<lparr>t_ret = field_u32 0 msg_buf, t_agent_id = field_u32 4 msg_buf,
       t_session_context = field_u64 8 msg_buf, t_ta2ta_from_taskid = field_u32 16 msg_buf\<rparr>)"

definition convert_ta2gtask_msg :: "gtask \<Rightarrow> u8 list option \<Rightarrow> u32 \<Rightarrow> ta_to_global_msg option option" where
  "convert_ta2gtask_msg s msg_buf taskid = (case msg_buf of None \<Rightarrow> Some None
    | Some buf \<Rightarrow> do {
        i \<leftarrow> get_ta_info s taskid;
        (case i of None \<Rightarrow> Some None
         | Some (ta_is_64, _) \<Rightarrow>
             if length buf < ta_to_global_msg_len ta_is_64 then Some None
             else Some (Some (convert_ta2gtask_msg_handle buf ta_is_64)))
      })"

definition send_global2ta_msg_handle :: "env \<Rightarrow> global_to_ta_msg \<Rightarrow> bool \<Rightarrow> u32 \<Rightarrow> u32 \<Rightarrow> gtask \<Rightarrow> u32 \<times> gtask" where
  "send_global2ta_msg_handle E msg ta_is_64 cmd taskid s = (
    if \<not> ta_is_64 then
      ext_ret E (Ipc_msg_snd cmd taskid (Msg_to_ta (msg\<lparr>m_params := ucast (ucast (m_params msg) :: u32),
        m_session_context := ucast (ucast (m_session_context msg) :: u32)\<rparr>))) s
    else ext_ret E (Ipc_msg_snd cmd taskid (Msg_to_ta msg)) s)"

definition send_global2ta_msg ::
  "env \<Rightarrow> global_to_ta_msg \<Rightarrow> u32 \<Rightarrow> u32 \<Rightarrow> bool option \<Rightarrow> gtask \<Rightarrow> (u32 \<times> gtask) option" where
  "send_global2ta_msg E msg cmd taskid ta_64bit s = do {
    i \<leftarrow> (case ta_64bit of Some b \<Rightarrow> Some (Some (b, TEE_SERVICE_GLOBAL)) | None \<Rightarrow> get_ta_info s taskid);
    (case i of None \<Rightarrow> Some (TEE_ERROR_GENERIC, s)
     | Some (ta_is_64, _) \<Rightarrow>
        (let (ret, s) = send_global2ta_msg_handle E msg ta_is_64 cmd taskid s in
         if ret \<noteq> 0 then Some (TEE_ERROR_GENERIC, s) else Some (TEE_SUCCESS, s)))
  }"

definition send_ta_init_msg :: "env \<Rightarrow> ta_init_msg \<Rightarrow> bool \<Rightarrow> u32 \<Rightarrow> u32 \<Rightarrow> gtask \<Rightarrow> u32 \<times> gtask" where
  "send_ta_init_msg E msg ta_is_64 cmd taskid s = (
    let msg = (if \<not> ta_is_64 then
          msg\<lparr>i_fs_mem := ucast (ucast (i_fs_mem msg) :: u32), i_misc_mem := ucast (ucast (i_misc_mem msg) :: u32),
              i_time_data := ucast (ucast (i_time_data msg) :: u32)\<rparr>
        else msg);
        (ret, s) = ext_ret E (Ipc_msg_snd cmd taskid (Msg_init msg)) s
    in (if ret \<noteq> 0 then TEE_ERROR_GENERIC else TEE_SUCCESS, s))"

definition get_tee_param_len :: "bool \<Rightarrow> u32" where
  "get_tee_param_len ta_is_64 = (if ta_is_64 then 16 else 8)"

definition alloc_tee_param_for_ta :: "env \<Rightarrow> u32 \<Rightarrow> pam_node \<Rightarrow> gtask \<Rightarrow> ((u32 \<times> pam_node) \<times> gtask) option" where
  "alloc_tee_param_for_ta E taskid node s = do {
    i \<leftarrow> get_ta_info s taskid;
    (case i of None \<Rightarrow> Some ((TEE_ERROR_GENERIC, node), s)
     | Some (ta_is_64, ta_uuid) \<Rightarrow>
        (let ((_, p_for_ta), s) = ext_val E (Alloc_sharemem (get_tee_param_len ta_is_64 * 4)) s in
         if p_for_ta = 0 then Some ((TEE_ERROR_OUT_OF_MEMORY, node), s)
         else Some ((TEE_SUCCESS, node\<lparr>n_p_for_ta := p_for_ta, n_param_type := ta_is_64\<rparr>), s)))
  }"


section \<open>Lookups of tasks on a well-formed state\<close>

lemma find_task_in_wf:
  assumes wf: "linked s" and "set as \<subseteq> set (g_service_head s)"
  shows "\<exists>r. find_task_in s t dead as = Some r \<and> (case r of
      None \<Rightarrow> \<forall>a \<in> set as. \<forall>v. services s a = Some v \<longrightarrow> v_is_service_dead v = dead \<longrightarrow>
        (\<forall>x \<in> set (v_session_head v). \<forall>y. sessions s x = Some y \<longrightarrow> s_task_id y \<noteq> t)
    | Some (a, x) \<Rightarrow> \<exists>v y. services s a = Some v \<and> v_is_service_dead v = dead \<and> x \<in> set (v_session_head v) \<and>
        sessions s x = Some y \<and> s_task_id y = t)"
  using assms(2)
proof (induction as)
  case (Cons a as)
  obtain v where v: "services s a = Some v" and "\<forall>x \<in> set (v_session_head v). sessions s x \<noteq> None"
    using Cons.prems wf by (auto simp: linked_def)
  then have dom: "\<And>x. x \<in> set (v_session_head v) \<Longrightarrow> sessions s x \<noteq> None" by blast
  obtain r where IH: "find_task_in s t dead as = Some r" "case r of
      None \<Rightarrow> \<forall>a \<in> set as. \<forall>v. services s a = Some v \<longrightarrow> v_is_service_dead v = dead \<longrightarrow>
        (\<forall>x \<in> set (v_session_head v). \<forall>y. sessions s x = Some y \<longrightarrow> s_task_id y \<noteq> t)
    | Some (a, x) \<Rightarrow> \<exists>v y. services s a = Some v \<and> v_is_service_dead v = dead \<and> x \<in> set (v_session_head v) \<and>
        sessions s x = Some y \<and> s_task_id y = t"
    using Cons by auto
  show ?case
  proof (cases "v_is_service_dead v = dead")
    case False
    then show ?thesis using v IH by (intro exI[of _ r]) (auto split: option.splits)
  next
    case True
    show ?thesis
    proof (rule find_entry_cases[of "v_session_head v" "sessions s" "\<lambda>x. s_task_id x = t", OF dom])
      assume *: "find_entry (sessions s) (\<lambda>x. s_task_id x = t) (v_session_head v) = Some None"
        "\<And>x y. x \<in> set (v_session_head v) \<Longrightarrow> sessions s x = Some y \<Longrightarrow> s_task_id y \<noteq> t"
      then show ?thesis using True v IH by (intro exI[of _ r]) (auto split: option.splits)
    next
      fix x y assume "find_entry (sessions s) (\<lambda>x. s_task_id x = t) (v_session_head v) = Some (Some x)"
        "x \<in> set (v_session_head v)" "sessions s x = Some y" "s_task_id y = t"
      then show ?thesis using True v by (intro exI[of _ "Some (a, x)"]) auto
    qed
  qed
qed simp

lemma find_task_cases [consumes 1, case_names none some]:
  assumes wf: "wf_services s"
  obtains "find_task s t = Some None"
    "\<And>a v x y. services s a = Some v \<Longrightarrow> \<not> v_is_service_dead v \<Longrightarrow> x \<in> set (v_session_head v) \<Longrightarrow>
      sessions s x = Some y \<Longrightarrow> s_task_id y \<noteq> t"
  | a x v y where "find_task s t = Some (Some (a, x))" "services s a = Some v" "\<not> v_is_service_dead v"
      "x \<in> set (v_session_head v)" "sessions s x = Some y" "s_task_id y = t"
proof -
  obtain r where r: "find_task s t = Some r" "case r of
      None \<Rightarrow> \<forall>a \<in> set (g_service_head s). \<forall>v. services s a = Some v \<longrightarrow> v_is_service_dead v = False \<longrightarrow>
        (\<forall>x \<in> set (v_session_head v). \<forall>y. sessions s x = Some y \<longrightarrow> s_task_id y \<noteq> t)
    | Some (a, x) \<Rightarrow> \<exists>v y. services s a = Some v \<and> v_is_service_dead v = False \<and> x \<in> set (v_session_head v) \<and>
        sessions s x = Some y \<and> s_task_id y = t"
    using find_task_in_wf[OF wf_services_linked[OF wf] order_refl, of t False] unfolding find_task_def do_find_task_def by blast
  show thesis
  proof (cases r)
    case None
    then show thesis using r wf_service_head(2)[OF wf] by (intro that(1)) auto
  next
    case (Some ax)
    then show thesis using r that(2) by (cases ax) auto
  qed
qed

lemma find_task_linked [consumes 1, case_names none some]:
  assumes "linked s"
  obtains "find_task s t = Some None"
  | a x v y where "find_task s t = Some (Some (a, x))" "services s a = Some v" "x \<in> set (v_session_head v)" "sessions s x = Some y"
proof -
  obtain r where r: "find_task s t = Some r" "case r of None \<Rightarrow> True
      | Some (a, x) \<Rightarrow> \<exists>v y. services s a = Some v \<and> x \<in> set (v_session_head v) \<and> sessions s x = Some y"
    using find_task_in_wf[OF assms order_refl, of t False] unfolding find_task_def do_find_task_def by (fastforce split: option.splits)
  show thesis
  proof (cases r)
    case (Some p)
    then show thesis using r that(2) by (cases p) auto
  qed (use r that(1) in simp)
qed

lemma get_ta_info_okay: "linked s \<Longrightarrow> okay (get_ta_info s t) (\<lambda>_. True)"
  by (rule find_task_linked[of s t]) (auto simp: get_ta_info_def okay_bind)

lemma send_global2ta_msg_okay:
  assumes "linked s"
  shows "okay (send_global2ta_msg E msg cmd t b s) (\<lambda>(r, s'). quiet s s')"
proof -
  obtain i where i: "(case b of Some b \<Rightarrow> Some (Some (b, TEE_SERVICE_GLOBAL)) | None \<Rightarrow> get_ta_info s t) = Some i"
    using get_ta_info_okay[OF assms, of t] by (cases b) (auto simp: okay_iff)
  show ?thesis
  proof (cases i)
    case (Some x)
    then show ?thesis
      by (cases x) (simp add: send_global2ta_msg_def i send_global2ta_msg_handle_def ext_pair)
  qed (simp add: send_global2ta_msg_def i)
qed

lemma send_ta_init_msg_quiet: "quiet s (snd (send_ta_init_msg E msg b cmd t s))"
  by (simp add: send_ta_init_msg_def Let_def case_prod_beta)


section \<open>Properties\<close>

text \<open>The message as the application lays it out in memory, with the padding of the 64-bit structure.\<close>

definition ta_msg_bytes :: "bool \<Rightarrow> ta_to_global_msg \<Rightarrow> u8 list" where
  "ta_msg_bytes ta_is_64 m =
    le_bytes 4 (unat (t_ret m)) @ le_bytes 4 (unat (t_agent_id m)) @
    (if ta_is_64 then le_bytes 8 (unat (t_session_context m)) @ le_bytes 4 (unat (t_ta2ta_from_taskid m)) @ le_bytes 4 0
     else le_bytes 4 (unat (ucast (t_session_context m) :: u32)) @ le_bytes 4 (unat (t_ta2ta_from_taskid m)))"

text \<open>
  C16: A message of a live application is decoded to exactly what the application wrote, for 32-bit and for 64-bit applications
  (whose session context is a pointer of that width); and a session context that came from an application
  is sent back to it without truncation.
\<close>

theorem ta_message_roundtrip:
  assumes "get_ta_info s taskid = Some (Some (ta_is_64, uuid))" "ta_is_64 \<or> unat (t_session_context m) < 2 ^ 32"
  shows "convert_ta2gtask_msg s (Some (ta_msg_bytes ta_is_64 m @ rest)) taskid = Some (Some m) \<and>
    send_global2ta_msg E (zero_msg\<lparr>m_session_context := t_session_context m\<rparr>) cmd taskid None s =
      Some (if env_ret E (history s) (Ipc_msg_snd cmd taskid (Msg_to_ta (zero_msg\<lparr>m_session_context := t_session_context m\<rparr>))) \<noteq> 0
            then TEE_ERROR_GENERIC else TEE_SUCCESS,
        notify (Ipc_msg_snd cmd taskid (Msg_to_ta (zero_msg\<lparr>m_session_context := t_session_context m\<rparr>))) s)"
proof -
  let ?b = "ta_msg_bytes ta_is_64 m @ rest"
  have ctx: "ucast (ucast (t_session_context m) :: u32) = t_session_context m" if "\<not> ta_is_64"
  proof -
    have "take_bit 32 (unat (t_session_context m)) = unat (t_session_context m)"
      using assms(2) that by (simp add: take_bit_nat_eq_self)
    then show ?thesis
      by (intro word_unat_eq_iff[THEN iffD2]) (simp add: unsigned_ucast_eq unsigned_take_bit_eq)
  qed
  have len: "length (ta_msg_bytes ta_is_64 m) = ta_to_global_msg_len ta_is_64"
    by (simp add: ta_msg_bytes_def ta_to_global_msg_len_def)
  have "convert_ta2gtask_msg_handle ?b ta_is_64 = m"
  proof (cases ta_is_64)
    case True
    have "field_u32 0 ?b = t_ret m" "field_u32 4 ?b = t_agent_id m" "field_u64 8 ?b = t_session_context m"
        "field_u32 16 ?b = t_ta2ta_from_taskid m"
      using True by (intro field_le_bytes; simp add: ta_msg_bytes_def)+
    then show ?thesis using True by (simp add: convert_ta2gtask_msg_handle_def)
  next
    case False
    have "field_u32 0 ?b = t_ret m" "field_u32 4 ?b = t_agent_id m" "field_u32 8 ?b = ucast (t_session_context m)"
        "field_u32 12 ?b = t_ta2ta_from_taskid m"
      using False by (intro field_le_bytes; simp add: ta_msg_bytes_def)+
    then show ?thesis using False ctx by (simp add: convert_ta2gtask_msg_handle_def)
  qed
  then show ?thesis
    using assms(1) len ctx
    by (auto simp: convert_ta2gtask_msg_def send_global2ta_msg_def send_global2ta_msg_handle_def ext_pair zero_msg_def)
qed

theorem ta_message_roundtrip_witness:
  "\<exists>m. convert_ta2gtask_msg boot_gtask (Some (ta_msg_bytes True m @ [])) 0 = Some (Some m) \<and> t_session_context m = 0x123456789A"
proof -
  let ?m = "\<lparr>t_ret = 0, t_agent_id = 7, t_session_context = 0x123456789A, t_ta2ta_from_taskid = 5\<rparr>"
  have "get_ta_info boot_gtask 0 = Some (Some (True, TEE_SERVICE_GLOBAL))" by (simp add: get_ta_info_def)
  from ta_message_roundtrip[OF this, of ?m "[]" calm_env 0] show ?thesis
    by (intro exI[of _ ?m]) simp
qed

end
