(* ===== verification/Mem_Manager.thy ===== *)
theory Mem_Manager
  imports Gtask_Adapt
begin

text \<open>
  The parameters of commands, \<open>framework/gtask/src/manager/mem_manager.c\<close>: copying the operation of a command from the
  normal world or from another trusted application, mapping its memory references, copying results back, and the
  check that everything the normal world passes lies in the mailbox.

  Memory that the normal world or an application can write at any time is not part of the state: every read of it is a
  call that the environment answers, and every write to it is a call in the history.  \<open>memcpy_s\<close> fails exactly
  when its destination is empty, too large for the library, or smaller than the count.
\<close>

section \<open>Access to parameters\<close>

abbreviation (input) TEE_PARAM_NUM :: nat where "TEE_PARAM_NUM \<equiv> 4"
abbreviation (input) TEE_PARAM_TYPE_NONE :: u32 where "TEE_PARAM_TYPE_NONE \<equiv> 0"
abbreviation (input) TEE_PARAM_TYPE_VALUE_INPUT :: u32 where "TEE_PARAM_TYPE_VALUE_INPUT \<equiv> 1"
abbreviation (input) TEE_PARAM_TYPE_VALUE_OUTPUT :: u32 where "TEE_PARAM_TYPE_VALUE_OUTPUT \<equiv> 2"
abbreviation (input) TEE_PARAM_TYPE_VALUE_INOUT :: u32 where "TEE_PARAM_TYPE_VALUE_INOUT \<equiv> 3"
abbreviation (input) TEE_PARAM_TYPE_MEMREF_INPUT :: u32 where "TEE_PARAM_TYPE_MEMREF_INPUT \<equiv> 5"
abbreviation (input) TEE_PARAM_TYPE_MEMREF_OUTPUT :: u32 where "TEE_PARAM_TYPE_MEMREF_OUTPUT \<equiv> 6"
abbreviation (input) TEE_PARAM_TYPE_MEMREF_INOUT :: u32 where "TEE_PARAM_TYPE_MEMREF_INOUT \<equiv> 7"
abbreviation (input) ADDR_MAX :: u64 where "ADDR_MAX \<equiv> - 1"
abbreviation (input) GLOBAL_CMD_ID_LOAD_SECURE_APP :: u32 where "GLOBAL_CMD_ID_LOAD_SECURE_APP \<equiv> 4"
abbreviation (input) SMC_CMD_SIZE :: u32 where "SMC_CMD_SIZE \<equiv> 89"
abbreviation (input) CA_TA_CMD_VALUE_INDEX :: nat where "CA_TA_CMD_VALUE_INDEX \<equiv> 1"
abbreviation (input) CA_TA_CMD_PUBKEY_INDEX :: nat where "CA_TA_CMD_PUBKEY_INDEX \<equiv> 2"

definition TEE_PARAM_TYPE_GET :: "u32 \<Rightarrow> nat \<Rightarrow> u32" where
  "TEE_PARAM_TYPE_GET paramTypes index = drop_bit (4 * index) paramTypes AND 0xF"

definition is_memref :: "u32 \<Rightarrow> bool" where
  "is_memref type \<longleftrightarrow> type = TEE_PARAM_TYPE_MEMREF_INPUT \<or> type = TEE_PARAM_TYPE_MEMREF_OUTPUT \<or> type = TEE_PARAM_TYPE_MEMREF_INOUT"

definition is_value :: "u32 \<Rightarrow> bool" where
  "is_value type \<longleftrightarrow> type = TEE_PARAM_TYPE_VALUE_INPUT \<or> type = TEE_PARAM_TYPE_VALUE_OUTPUT \<or> type = TEE_PARAM_TYPE_VALUE_INOUT"

text \<open>Physical addresses are passed as two words.\<close>

definition paddr :: "u32 \<Rightarrow> u32 \<Rightarrow> u64" where
  "paddr lo hi = ucast lo OR push_bit 32 (ucast hi)"

definition memcpy_s_ok :: "u32 \<Rightarrow> u32 \<Rightarrow> bool" where
  "memcpy_s_ok dest_max count \<longleftrightarrow> dest_max \<noteq> 0 \<and> dest_max \<le> 0x7FFFFFFF \<and> count \<le> dest_max"

definition get_index_value_a :: "env \<Rightarrow> pam_node \<Rightarrow> nat \<Rightarrow> gtask \<Rightarrow> u32 \<times> gtask" where
  "get_index_value_a E node i s = (let ((_, v), s) = ext_val E (Ta_value_a (n_p_for_ta node) i) s in (ucast v, s))"

definition get_index_value_b :: "env \<Rightarrow> pam_node \<Rightarrow> nat \<Rightarrow> gtask \<Rightarrow> u32 \<times> gtask" where
  "get_index_value_b E node i s = (let ((_, v), s) = ext_val E (Ta_value_b (n_p_for_ta node) i) s in (ucast v, s))"

definition get_index_memref_size :: "env \<Rightarrow> pam_node \<Rightarrow> nat \<Rightarrow> gtask \<Rightarrow> u32 \<times> gtask" where
  "get_index_memref_size E node i s = (let ((_, v), s) = ext_val E (Ta_memref_size (n_p_for_ta node) i) s in (ucast v, s))"

definition set_index_value :: "pam_node \<Rightarrow> nat \<Rightarrow> u32 \<Rightarrow> u32 \<Rightarrow> gtask \<Rightarrow> gtask" where
  "set_index_value node i a b s = notify (Ta_set_value (n_p_for_ta node) i a b) s"

definition set_index_memref_size :: "pam_node \<Rightarrow> nat \<Rightarrow> u32 \<Rightarrow> gtask \<Rightarrow> gtask" where
  "set_index_memref_size node i sz s = notify (Ta_set_size (n_p_for_ta node) i sz) s"

definition set_index_memref_buffer :: "pam_node \<Rightarrow> nat \<Rightarrow> u64 \<Rightarrow> gtask \<Rightarrow> gtask" where
  "set_index_memref_buffer node i buf s = notify (Ta_set_buffer (n_p_for_ta node) i
    (if n_param_type node then buf else ucast (ucast buf :: u32))) s"

definition free_tee_mem :: "u64 \<Rightarrow> u32 \<Rightarrow> gtask \<Rightarrow> gtask" where
  "free_tee_mem addr sz s = (if addr = 0 then s else notify (Free_sharemem addr sz) s)"

definition copy_from_src :: "env \<Rightarrow> u32 \<Rightarrow> u64 \<Rightarrow> u32 \<Rightarrow> gtask \<Rightarrow> ((u32 \<times> u64) \<times> gtask) option" where
  "copy_from_src E task_id ree_addr sz s = (
    if ree_addr = 0 \<or> sz = 0 then Some ((TEE_ERROR_BAD_PARAMETERS, 0), s)
    else do {
      i \<leftarrow> get_ta_info s task_id;
      (case i of None \<Rightarrow> Some ((TEE_ERROR_GENERIC, 0), s)
       | Some _ \<Rightarrow> (
          let ((_, tee_addr), s) = ext_val E (Alloc_sharemem (sz + 1)) s in
          if tee_addr = 0 then Some ((TEE_ERROR_OUT_OF_MEMORY, 0), s)
          else if \<not> memcpy_s_ok (sz + 1) sz then Some ((TEE_ERROR_GENERIC, 0), free_tee_mem tee_addr (sz + 1) s)
          else Some ((TEE_SUCCESS, tee_addr), notify (Copy_from_ree tee_addr ree_addr sz) s)))
    })"

definition copy_to_src :: "u64 \<Rightarrow> u32 \<Rightarrow> u64 \<Rightarrow> u32 \<Rightarrow> gtask \<Rightarrow> u32 \<times> gtask" where
  "copy_to_src ree_addr ree_size tee_addr tee_size s = (
    if tee_addr = 0 then (TEE_ERROR_BAD_PARAMETERS, s)
    else if ree_addr = 0 then (TEE_ERROR_BAD_PARAMETERS, s)
    else if ree_size = 0 then (TEE_ERROR_BAD_PARAMETERS, s)
    else if tee_size = 0 then (TEE_SUCCESS, s)
    else if ree_size < tee_size then (TEE_ERROR_BAD_PARAMETERS, s)
    else if \<not> memcpy_s_ok ree_size tee_size then (TEE_ERROR_GENERIC, s)
    else (TEE_SUCCESS, notify (Copy_to_ree ree_addr tee_addr tee_size) s))"


section \<open>Parameter nodes and copying back\<close>

fun release_memrefs :: "pam_node \<Rightarrow> nat list \<Rightarrow> gtask \<Rightarrow> gtask" where
  "release_memrefs node [] s = s"
| "release_memrefs node (i # is) s = release_memrefs node is
    (if is_memref (TEE_PARAM_TYPE_GET (op_p_type (n_op node)) i)
     then free_tee_mem (n_vaddr_gt_tee node i) (tp_b (op_p (n_op node) i) + 1) s else s)"

definition release_pam_node :: "pam_node option \<Rightarrow> gtask \<Rightarrow> gtask" where
  "release_pam_node node s = (case node of None \<Rightarrow> s
    | Some n \<Rightarrow> free_tee_mem (n_p_for_ta n) (get_tee_param_len (n_param_type n) * 4)
        (release_memrefs n [0..<TEE_PARAM_NUM] s))"

definition copy_pam_from_src :: "env \<Rightarrow> u64 \<Rightarrow> gtask \<Rightarrow> (u32 \<times> pam_node option) \<times> gtask" where
  "copy_pam_from_src E operation s = (
    if operation = 0 then ((TEE_ERROR_BAD_PARAMETERS, None), s)
    else (
      let (m, s) = TEE_Malloc E s in
      case m of None \<Rightarrow> ((TEE_ERROR_OUT_OF_MEMORY, None), s)
      | Some _ \<Rightarrow> ((TEE_SUCCESS, Some \<lparr>n_op = env_oper E (history s), n_param_type = False, n_p_for_ta = 0,
            n_vaddr_gt_tee = (\<lambda>_. 0), n_vaddr_gt_ree = (\<lambda>_. 0)\<rparr>), notify (Ree_read_operation operation) s)))"

text \<open>The loop of \<open>copy_params_back_to_ree\<close> over the remaining indexes, with the result so far.\<close>

fun copy_params_loop :: "env \<Rightarrow> pam_node \<Rightarrow> u64 \<Rightarrow> nat list \<Rightarrow> u32 \<Rightarrow> gtask \<Rightarrow> u32 \<times> gtask" where
  "copy_params_loop E n_tee p_ree [] ret s = (ret, s)"
| "copy_params_loop E n_tee p_ree (i # is) ret s = (
    let type = TEE_PARAM_TYPE_GET (op_p_type (n_op n_tee)) i; sz = tp_b (op_p (n_op n_tee) i) in
    if type = TEE_PARAM_TYPE_VALUE_OUTPUT \<or> type = TEE_PARAM_TYPE_VALUE_INOUT then
      (let (a, s) = get_index_value_a E n_tee i s; (b, s) = get_index_value_b E n_tee i s
       in copy_params_loop E n_tee p_ree is ret (notify (Ree_set_value p_ree i a b) s))
    else if type = TEE_PARAM_TYPE_MEMREF_OUTPUT \<or> type = TEE_PARAM_TYPE_MEMREF_INOUT then
      (let ((_, r), s) = ext_val E (Ree_memref_size p_ree i) s in
       if sz \<noteq> ucast r then (TEE_ERROR_BAD_PARAMETERS, s)
       else
        (let (t1, s) = get_index_memref_size E n_tee i s in
         if sz < t1 then
           (let (t2, s) = get_index_memref_size E n_tee i s
            in copy_params_loop E n_tee p_ree is TEE_ERROR_SHORT_BUFFER (notify (Ree_set_size p_ree i t2) s))
         else
           (let ((_, r2), s) = ext_val E (Ree_memref_size p_ree i) s; (t3, s) = get_index_memref_size E n_tee i s;
                (e_ret, s) = copy_to_src (n_vaddr_gt_ree n_tee i) (ucast r2) (n_vaddr_gt_tee n_tee i) t3 s in
            if e_ret \<noteq> TEE_SUCCESS then (e_ret, s)
            else
              (let (t4, s) = get_index_memref_size E n_tee i s
               in copy_params_loop E n_tee p_ree is ret (notify (Ree_set_size p_ree i t4) s)))))
    else copy_params_loop E n_tee p_ree is ret s)"

definition copy_params_back_to_ree :: "env \<Rightarrow> pam_node \<Rightarrow> u64 \<Rightarrow> gtask \<Rightarrow> u32 \<times> gtask" where
  "copy_params_back_to_ree E n_tee p_ree s = copy_params_loop E n_tee p_ree [0..<TEE_PARAM_NUM] TEE_SUCCESS s"

definition copy_pam_to_src :: "env \<Rightarrow> u32 \<Rightarrow> bool \<Rightarrow> gtask \<Rightarrow> (u32 \<times> gtask) option" where
  "copy_pam_to_src E cmd_id ta2ta s = do {
    (n_tee, p_ree) \<leftarrow> (case g_cur_session s of None \<Rightarrow> Some (g_gt_pam_node s, g_gt_oper_addr s)
      | Some x \<Rightarrow> do { y \<leftarrow> sessions s x; Some (s_pam_node y, s_oper_addr y) });
    (case n_tee of None \<Rightarrow> Some (TEE_SUCCESS, s)
     | Some n \<Rightarrow>
      if p_ree = 0 then Some (TEE_SUCCESS, s)
      else if g_cur_session s = None \<and> \<not> ta2ta \<and> cmd_id = GLOBAL_CMD_ID_LOAD_SECURE_APP then
        (let (a, s) = get_index_value_a E n CA_TA_CMD_VALUE_INDEX s; (b, s) = get_index_value_b E n CA_TA_CMD_VALUE_INDEX s;
             s = notify (Ree_set_value p_ree CA_TA_CMD_VALUE_INDEX a b) s;
             ((_, r), s) = ext_val E (Ree_memref_size p_ree CA_TA_CMD_PUBKEY_INDEX) s;
             (t, s) = get_index_memref_size E n CA_TA_CMD_PUBKEY_INDEX s;
             s = (if ucast r = t then
                    (let ((_, r2), s) = ext_val E (Ree_memref_size p_ree CA_TA_CMD_PUBKEY_INDEX) s;
                         (t2, s) = get_index_memref_size E n CA_TA_CMD_PUBKEY_INDEX s
                     in snd (copy_to_src (n_vaddr_gt_ree n CA_TA_CMD_PUBKEY_INDEX) (ucast r2) (n_vaddr_gt_tee n CA_TA_CMD_PUBKEY_INDEX) t2 s))
                  else s);
             s = release_pam_node n_tee s
         in Some (TEE_SUCCESS, s\<lparr>g_gt_pam_node := None, g_gt_oper_addr := 0\<rparr>))
      else
        (let (ret, s) = copy_params_back_to_ree E n p_ree s;
             s = release_pam_node n_tee s
         in case g_cur_session s of
              None \<Rightarrow> Some (ret, s\<lparr>g_gt_pam_node := None, g_gt_oper_addr := 0\<rparr>)
            | Some x \<Rightarrow> do {
                s \<leftarrow> upd_session x (\<lambda>y. y\<lparr>s_pam_node := None, s_oper_addr := 0\<rparr>) s;
                Some (ret, s)
              }))
  }"


section \<open>The mailbox\<close>

definition in_mailbox_range :: "mempool_state \<Rightarrow> u64 \<Rightarrow> u32 \<Rightarrow> bool" where
  "in_mailbox_range mb addr sz = (
    if \<not> mb_init mb then True
    else if addr > ADDR_MAX - ucast sz \<or> (addr < mb_start mb \<or> addr \<ge> mb_start mb + ucast (mb_size mb)) \<or>
        (addr + ucast sz < mb_start mb \<or> addr + ucast sz > mb_start mb + ucast (mb_size mb)) then False
    else True)"

definition mailbox_phys_to_virt :: "mempool_state \<Rightarrow> u64 \<Rightarrow> u64" where
  "mailbox_phys_to_virt mb phys = (
    if phys = 0 \<or> \<not> mb_init mb then 0 else mb_va mb + (phys - mb_start mb))"

fun check_params_loop :: "mempool_state \<Rightarrow> tee_operation_gtask \<Rightarrow> nat list \<Rightarrow> u32 \<Rightarrow> u32" where
  "check_params_loop mb op [] ret = ret"
| "check_params_loop mb op (i # is) ret = (
    let type = TEE_PARAM_TYPE_GET (op_p_type op) i in
    if is_memref type then
      (let buffer_addr = paddr (tp_a (op_p op i)) (op_p_h_addr op i)
       in check_params_loop mb op is
            (if buffer_addr \<noteq> 0 \<and> \<not> in_mailbox_range mb buffer_addr (tp_b (op_p op i)) then TEE_ERROR_BAD_PARAMETERS else ret))
    else check_params_loop mb op is ret)"

definition check_operation_params_in_mailbox_range :: "mempool_state \<Rightarrow> tee_operation_gtask \<Rightarrow> u32" where
  "check_operation_params_in_mailbox_range mb op = check_params_loop mb op [0..<TEE_PARAM_NUM] TEE_SUCCESS"

definition check_cmd_in_mailbox_range :: "mempool_state \<Rightarrow> smc_cmd option \<Rightarrow> u32" where
  "check_cmd_in_mailbox_range mb cmd = (case cmd of None \<Rightarrow> TEE_ERROR_BAD_PARAMETERS
    | Some c \<Rightarrow>
      if \<not> mb_init mb then TEE_SUCCESS
      else (
        let operation_addr = paddr (c_operation_phys c) (c_operation_h_phys c);
            login_data_addr = paddr (c_login_data_phy c) (c_login_data_h_phy c) in
        if operation_addr \<noteq> 0 \<and> \<not> in_mailbox_range mb operation_addr 84 then TEE_ERROR_BAD_PARAMETERS
        else if login_data_addr \<noteq> 0 \<and> \<not> in_mailbox_range mb login_data_addr (c_login_data_len c)
          then TEE_ERROR_BAD_PARAMETERS
        else TEE_SUCCESS))"


section \<open>Memory regions\<close>

definition task_add_mem_region :: "env \<Rightarrow> u32 \<Rightarrow> u32 \<Rightarrow> u64 \<Rightarrow> u32 \<Rightarrow> bool \<Rightarrow> gtask \<Rightarrow> (u32 \<times> gtask) option" where
  "task_add_mem_region E event_nr task_pid addr sz ta2ta s = (
    let (m, s) = TEE_Malloc E s;
        mem = \<lparr>r_addr = addr, r_size = sz, r_event_nr = event_nr, r_task_id = task_pid, r_ta2ta = ta2ta\<rparr> in
    case m of None \<Rightarrow> Some (TEE_ERROR_OUT_OF_MEMORY, s)
    | Some _ \<Rightarrow>
      (case g_cur_session s of
         Some x \<Rightarrow> do { s \<leftarrow> upd_session x (\<lambda>y. y\<lparr>s_map_mem := s_map_mem y @ [mem]\<rparr>) s; Some (TEE_SUCCESS, s) }
       | None \<Rightarrow> Some (TEE_SUCCESS, s\<lparr>g_mem_ns := g_mem_ns s @ [mem]\<rparr>)))"

fun del_regions :: "env \<Rightarrow> mem_region_ns list \<Rightarrow> bool \<Rightarrow> gtask \<Rightarrow> gtask" where
  "del_regions E [] is_service_dead s = s"
| "del_regions E (m # ms) is_service_dead s = del_regions E ms is_service_dead
    (if \<not> is_service_dead then snd (ext_ret E (Task_unmap (r_task_id m) (r_addr m) (r_size m)) s) else s)"

definition task_del_mem_region :: "env \<Rightarrow> addr \<Rightarrow> bool \<Rightarrow> gtask \<Rightarrow> gtask option" where
  "task_del_mem_region E x is_service_dead s = do {
    y \<leftarrow> sessions s x;
    upd_session x (\<lambda>y. y\<lparr>s_map_mem := []\<rparr>) (del_regions E (s_map_mem y) is_service_dead s)
  }"

fun unmap_s_loop :: "env \<Rightarrow> u32 \<Rightarrow> mem_region_ns list \<Rightarrow> gtask \<Rightarrow> mem_region_ns list \<times> gtask" where
  "unmap_s_loop E event_nr [] s = ([], s)"
| "unmap_s_loop E event_nr (m # ms) s = (
    if event_nr = r_event_nr m \<and> r_ta2ta m
    then unmap_s_loop E event_nr ms (snd (ext_ret E (Unmap_sharemem (r_addr m) (r_size m)) s))
    else (let (ms, s) = unmap_s_loop E event_nr ms s in (m # ms, s)))"

definition unmap_secure_operation :: "env \<Rightarrow> smc_cmd option \<Rightarrow> gtask \<Rightarrow> (u32 \<times> gtask) option" where
  "unmap_secure_operation E cmd s = (case cmd of None \<Rightarrow> Some (TEE_ERROR_GENERIC, s)
    | Some c \<Rightarrow> (case g_cur_session s of None \<Rightarrow> Some (TEE_SUCCESS, s)
      | Some x \<Rightarrow> do {
          y \<leftarrow> sessions s x;
          let (ms, s) = unmap_s_loop E (c_event_nr c) (s_map_mem y) s;
          s \<leftarrow> upd_session x (\<lambda>y. y\<lparr>s_map_mem := ms, s_cmd := False\<rparr>) s;
          Some (TEE_SUCCESS, s)
        }))"

fun unmap_ns_loop :: "env \<Rightarrow> u32 \<Rightarrow> mem_region_ns list \<Rightarrow> bool \<Rightarrow> gtask \<Rightarrow> (mem_region_ns list \<times> bool) \<times> gtask" where
  "unmap_ns_loop E event_nr [] error_flag s = (([], error_flag), s)"
| "unmap_ns_loop E event_nr (m # ms) error_flag s = (
    if event_nr = r_event_nr m \<and> \<not> r_ta2ta m
    then (let (rc, s) = ext_ret E (Task_unmap (r_task_id m) (r_addr m) (r_size m)) s
          in unmap_ns_loop E event_nr ms (error_flag \<or> rc \<noteq> 0) s)
    else (let ((ms, e), s) = unmap_ns_loop E event_nr ms error_flag s in ((m # ms, e), s)))"

definition unmap_ns_operation :: "env \<Rightarrow> smc_cmd \<Rightarrow> gtask \<Rightarrow> ((u32 \<times> smc_cmd) \<times> gtask) option" where
  "unmap_ns_operation E cmd s = do {
    mem_list \<leftarrow> (case g_cur_session s of Some x \<Rightarrow> do { y \<leftarrow> sessions s x; Some (s_map_mem y) } | None \<Rightarrow> Some (g_mem_ns s));
    let ((ms, error_flag), s) = unmap_ns_loop E (c_event_nr cmd) mem_list False s;
    s \<leftarrow> (case g_cur_session s of Some x \<Rightarrow> upd_session x (\<lambda>y. y\<lparr>s_map_mem := ms\<rparr>) s | None \<Rightarrow> Some (s\<lparr>g_mem_ns := ms\<rparr>));
    Some ((if error_flag then TEE_ERROR_GENERIC else TEE_SUCCESS, cmd\<lparr>c_operation_phys := 0, c_operation_h_phys := 0\<rparr>), s)
  }"


section \<open>Mapping the operation of a command\<close>

definition store_s_cmd :: "smc_cmd option \<Rightarrow> gtask \<Rightarrow> (u32 \<times> gtask) option" where
  "store_s_cmd cmd s = (case (g_cur_session s, cmd) of
      (Some x, Some c) \<Rightarrow> do { s \<leftarrow> upd_session x (\<lambda>y. y\<lparr>s_cmd_in := c, s_cmd := True\<rparr>) s; Some (TEE_SUCCESS, s) }
    | _ \<Rightarrow> Some (TEE_ERROR_GENERIC, s))"

definition is_opensession_cmd :: "smc_cmd option \<Rightarrow> bool" where
  "is_opensession_cmd cmd = (case cmd of None \<Rightarrow> False
    | Some c \<Rightarrow> c_cmd_type c = CMD_TYPE_GLOBAL \<and> c_cmd_id c = GLOBAL_CMD_ID_OPEN_SESSION)"

definition map_memref_for_gtask ::
  "env \<Rightarrow> bool \<Rightarrow> smc_cmd \<Rightarrow> tee_param_32 \<Rightarrow> u32 \<Rightarrow> gtask \<Rightarrow> ((u32 \<times> u64) \<times> gtask) option" where
  "map_memref_for_gtask E ta2ta cmd p buffer_h_addr s = (
    if ta2ta then (
      let ((rc, tmp_addr), s) = ext_val E (Map_sharemem (c_uid cmd) (paddr (tp_a p) buffer_h_addr) (tp_b p)) s in
      if rc \<noteq> 0 then Some ((TEE_ERROR_GENERIC, 0), s)
      else do {
        (ret, s) \<leftarrow> task_add_mem_region E (c_event_nr cmd) 0 tmp_addr (tp_b p) ta2ta s;
        if ret \<noteq> TEE_SUCCESS then Some ((ret, tmp_addr), snd (ext_ret E (Unmap_sharemem tmp_addr (tp_b p)) s))
        else Some ((TEE_SUCCESS, tmp_addr), s)
      })
    else (
      let ree_addr = mailbox_phys_to_virt (g_mb_state s) (paddr (tp_a p) buffer_h_addr) in
      if ree_addr = 0 then Some ((TEE_ERROR_BAD_PARAMETERS, 0), s) else Some ((TEE_SUCCESS, ree_addr), s)))"

definition params_map_for_ta_memref ::
  "env \<Rightarrow> nat \<Rightarrow> pam_node \<Rightarrow> u32 \<Rightarrow> smc_cmd \<Rightarrow> bool \<Rightarrow> gtask \<Rightarrow> ((u32 \<times> pam_node) \<times> gtask) option" where
  "params_map_for_ta_memref E i node task_id cmd ta2ta s = (
    let p = op_p (n_op node) i; s = set_index_memref_size node i (tp_b p) s in
    do {
      ((ret, ree_addr), s) \<leftarrow> map_memref_for_gtask E ta2ta cmd p (op_p_h_addr (n_op node) i) s;
      if ret \<noteq> TEE_SUCCESS then Some ((TEE_ERROR_GENERIC, node), s)
      else if c_cmd_id cmd = GLOBAL_CMD_ID_LOAD_SECURE_APP \<and> task_id = 0 \<and> \<not> ta2ta \<and> i = 0 then
        Some ((TEE_SUCCESS, node), set_index_memref_buffer node i ree_addr s)
      else do {
        ((ret, tee_addr), s) \<leftarrow> copy_from_src E task_id ree_addr (tp_b p) s;
        if ret \<noteq> TEE_SUCCESS then Some ((ret, node), s)
        else (
          let node = node\<lparr>n_vaddr_gt_tee := (n_vaddr_gt_tee node)(i := tee_addr),
                n_vaddr_gt_ree := (n_vaddr_gt_ree node)(i := ree_addr)\<rparr>
          in Some ((TEE_SUCCESS, node), set_index_memref_buffer node i tee_addr s))
      }
    })"

definition set_params_for_ta ::
  "env \<Rightarrow> u32 \<Rightarrow> smc_cmd \<Rightarrow> pam_node \<Rightarrow> bool \<Rightarrow> nat \<Rightarrow> gtask \<Rightarrow> ((u32 \<times> pam_node) \<times> gtask) option" where
  "set_params_for_ta E task_id cmd node ta2ta i s = (
    let p = op_p (n_op node) i; type = TEE_PARAM_TYPE_GET (op_p_type (n_op node)) i in
    if type = TEE_PARAM_TYPE_NONE then Some ((TEE_SUCCESS, node), s)
    else if is_value type then Some ((TEE_SUCCESS, node), set_index_value node i (tp_a p) (tp_b p) s)
    else if is_memref type then params_map_for_ta_memref E i node task_id cmd ta2ta s
    else Some ((TEE_ERROR_GENERIC, node), s))"

fun params_map_loop ::
  "env \<Rightarrow> u32 \<Rightarrow> smc_cmd \<Rightarrow> bool \<Rightarrow> nat list \<Rightarrow> pam_node \<Rightarrow> gtask \<Rightarrow> ((u32 \<times> pam_node) \<times> gtask) option" where
  "params_map_loop E task_id cmd ta2ta [] node s = Some ((TEE_SUCCESS, node), s)"
| "params_map_loop E task_id cmd ta2ta (i # is) node s = do {
    ((ret, node), s) \<leftarrow> set_params_for_ta E task_id cmd node ta2ta i s;
    if ret \<noteq> TEE_SUCCESS then Some ((ret, node), s)
    else params_map_loop E task_id cmd ta2ta is node s
  }"

definition params_map_for_ta ::
  "env \<Rightarrow> u32 \<Rightarrow> smc_cmd \<Rightarrow> pam_node \<Rightarrow> bool \<Rightarrow> gtask \<Rightarrow> ((u32 \<times> pam_node) \<times> gtask) option" where
  "params_map_for_ta E task_id cmd node ta2ta s = do {
    ((ret, node), s) \<leftarrow> alloc_tee_param_for_ta E task_id node s;
    if ret \<noteq> TEE_SUCCESS then Some ((ret, node), s)
    else params_map_loop E task_id cmd ta2ta [0..<TEE_PARAM_NUM] node s
  }"

text \<open>\<open>__operation_map_for_gt\<close>: the address, or 0, and whether it was mapped here.\<close>

definition operation_map :: "env \<Rightarrow> u64 \<Rightarrow> u32 \<Rightarrow> gtask \<Rightarrow> (u64 \<times> bool) \<times> gtask" where
  "operation_map E phys sz s = (
    if mb_init (g_mb_state s) then ((mailbox_phys_to_virt (g_mb_state s) phys, False), s)
    else (let ((rc, op_vaddr), s) = ext_val E (Task_map_ns_phy_mem 0 phys sz) s in
          if rc \<noteq> 0 then ((0, False), s) else ((op_vaddr, True), s)))"

definition map_cmd_to_operation :: "env \<Rightarrow> bool \<Rightarrow> smc_cmd \<Rightarrow> gtask \<Rightarrow> ((u32 \<times> u64) \<times> gtask) option" where
  "map_cmd_to_operation E ta2ta cmd s = (
    let phys = paddr (c_operation_phys cmd) (c_operation_h_phys cmd); sz = 52 :: u32;
        ((ok, operation, mapped), s) =
          (if ta2ta then
             (let ((rc, tmp), s) = ext_val E (Map_sharemem (c_uid cmd) phys sz) s in ((rc = 0, tmp, True), s))
           else (let ((operation, mapped), s) = operation_map E phys sz s in ((operation \<noteq> 0, operation, mapped), s))) in
    if \<not> ok then Some ((TEE_ERROR_GENERIC, 0), s)
    else if mapped then do {
      (ret, s) \<leftarrow> task_add_mem_region E (c_event_nr cmd) 0 operation sz ta2ta s;
      if ret \<noteq> TEE_SUCCESS then
        Some ((ret, operation), if ta2ta then snd (ext_ret E (Unmap_sharemem operation sz) s)
          else snd (ext_ret E (Task_unmap 0 operation sz) s))
      else Some ((TEE_SUCCESS, operation), s)
    }
    else Some ((TEE_SUCCESS, operation), s))"

definition operation_map_for_gt ::
  "env \<Rightarrow> u32 \<Rightarrow> smc_cmd \<Rightarrow> bool \<Rightarrow> gtask \<Rightarrow> ((u32 \<times> u32 \<times> u64) \<times> gtask) option" where
  "operation_map_for_gt E task_id cmd ta2ta s = do {
    ((ret, operation), s) \<leftarrow> map_cmd_to_operation E ta2ta cmd s;
    if ret \<noteq> TEE_SUCCESS then Some ((ret, 0, 0), s)
    else (
      let ((ret, pam_node), s) = copy_pam_from_src E operation s in
      case pam_node of None \<Rightarrow> Some ((ret, 0, 0), s)
      | Some node \<Rightarrow> (
        let ret = (if ta2ta then TEE_SUCCESS else check_operation_params_in_mailbox_range (g_mb_state s) (n_op node)) in
        if ret \<noteq> 0 then Some ((ret, 0, 0), release_pam_node (Some node) s)
        else do {
          ((ret, node), s) \<leftarrow> params_map_for_ta E task_id cmd node ta2ta s;
          if ret \<noteq> 0 then Some ((ret, 0, 0), release_pam_node (Some node) s)
          else if task_id = 0 then
            Some ((TEE_SUCCESS, op_p_type (n_op node), n_p_for_ta node),
              s\<lparr>g_gt_pam_node := Some node, g_gt_oper_addr := operation\<rparr>)
          else do {
            x \<leftarrow> g_cur_session s;
            s \<leftarrow> upd_session x (\<lambda>y. y\<lparr>s_pam_node := Some node, s_oper_addr := operation\<rparr>) s;
            Some ((TEE_SUCCESS, op_p_type (n_op node), n_p_for_ta node), s)
          }
        }))
  }"

definition cmd_ns_get_params :: "env \<Rightarrow> u32 \<Rightarrow> smc_cmd option \<Rightarrow> gtask \<Rightarrow> ((u32 \<times> u32 \<times> u64) \<times> gtask) option" where
  "cmd_ns_get_params E task_id cmd s = (case cmd of None \<Rightarrow> Some ((TEE_ERROR_BAD_PARAMETERS, 0, 0), s)
    | Some c \<Rightarrow>
      if paddr (c_operation_phys c) (c_operation_h_phys c) \<noteq> 0 then operation_map_for_gt E task_id c False s
      else Some ((TEE_SUCCESS, 0, 0), s))"

definition cmd_secure_get_params :: "env \<Rightarrow> u32 \<Rightarrow> smc_cmd option \<Rightarrow> gtask \<Rightarrow> ((u32 \<times> u32 \<times> u64) \<times> gtask) option" where
  "cmd_secure_get_params E task_id cmd s = (case cmd of None \<Rightarrow> Some ((TEE_ERROR_BAD_PARAMETERS, 0, 0), s)
    | Some c \<Rightarrow>
      if c_uid c = task_id then Some ((TEE_SUCCESS, 0, 0), s)
      else if paddr (c_operation_phys c) (c_operation_h_phys c) \<noteq> 0 then operation_map_for_gt E task_id c True s
      else Some ((TEE_SUCCESS, 0, 0), s))"

definition cmd_global_ns_get_params :: "env \<Rightarrow> smc_cmd option \<Rightarrow> gtask \<Rightarrow> ((u32 \<times> u32 \<times> u64) \<times> gtask) option" where
  "cmd_global_ns_get_params E cmd s = (case cmd of None \<Rightarrow> Some ((TEE_ERROR_BAD_PARAMETERS, 0, 0), s)
    | Some c \<Rightarrow> cmd_ns_get_params E 0 cmd s)"

definition map_ns_cmd :: "env \<Rightarrow> u64 \<Rightarrow> gtask \<Rightarrow> u64 \<times> gtask" where
  "map_ns_cmd E cmd_phy s = (
    let ((rc, cmd_virt), s) = ext_val E (Task_map_ns_phy_mem 0 cmd_phy 0x1000) s
    in (if rc \<noteq> 0 then 0 else cmd_virt, s))"

definition map_secure_operation :: "env \<Rightarrow> u64 \<Rightarrow> u32 \<Rightarrow> gtask \<Rightarrow> (u32 \<times> smc_cmd option) \<times> gtask" where
  "map_secure_operation E tacmd task_id s = (
    let ((rc, tmp_cmd), s) = ext_val E (Map_sharemem task_id tacmd SMC_CMD_SIZE) s in
    if rc \<noteq> 0 then ((TEE_ERROR_GENERIC, None), s)
    else (
      let out_cmd = (env_cmd E (history s))\<lparr>c_uid := task_id\<rparr>;
          s = notify (Map_secure_cmd task_id tmp_cmd) s
      in ((TEE_SUCCESS, Some out_cmd), snd (ext_ret E (Unmap_sharemem tmp_cmd SMC_CMD_SIZE) s))))"

text \<open>
  The parameters of a command of the global task: its node belongs to the global task alone, so its values are those that
  were copied.
\<close>

definition gt_param :: "gtask \<Rightarrow> nat \<Rightarrow> tee_param_32 option" where
  "gt_param s i = map_option (\<lambda>n. op_p (n_op n) i) (g_gt_pam_node s)"

definition register_mempool :: "env \<Rightarrow> smc_cmd option \<Rightarrow> u32 \<Rightarrow> gtask \<Rightarrow> (u32 \<times> gtask) option" where
  "register_mempool E cmd pool_size s = (
    if mb_init (g_mb_state s) then Some (TEE_ERROR_ACCESS_DENIED, s)
    else case cmd of None \<Rightarrow> Some (TEE_ERROR_BAD_PARAMETERS, s)
    | Some _ \<Rightarrow> do {
        ((ret, param_type, param), s) \<leftarrow> cmd_global_ns_get_params E cmd s;
        if ret \<noteq> TEE_SUCCESS then Some (TEE_ERROR_GENERIC, s)
        else if TEE_PARAM_TYPE_GET param_type 0 \<noteq> TEE_PARAM_TYPE_VALUE_INPUT \<or>
            TEE_PARAM_TYPE_GET param_type 1 \<noteq> TEE_PARAM_TYPE_VALUE_INPUT then Some (TEE_ERROR_BAD_PARAMETERS, s)
        else if param = 0 then Some (TEE_ERROR_BAD_PARAMETERS, s)
        else do {
          p0 \<leftarrow> gt_param s 0;
          p1 \<leftarrow> gt_param s 1;
          let st = (g_mb_state s)\<lparr>mb_start := paddr (tp_a p0) (tp_b p0), mb_size := tp_a p1\<rparr>;
          let s = s\<lparr>g_mb_state := st\<rparr>;
          if mb_start st > ADDR_MAX - ucast (mb_size st) \<or> mb_size st \<noteq> pool_size then Some (TEE_ERROR_BAD_PARAMETERS, s)
          else (
            let ((rc, vaddr), s) = ext_val E (Task_map_ns_phy_mem 0 (mb_start st) (mb_size st)) s in
            if rc \<noteq> 0 then Some (TEE_ERROR_GENERIC, s)
            else Some (TEE_SUCCESS, s\<lparr>g_mb_state := st\<lparr>mb_va := vaddr, mb_init := True\<rparr>\<rparr>))
        }
      })"

definition register_mailbox :: "env \<Rightarrow> smc_cmd option \<Rightarrow> gtask \<Rightarrow> (u32 \<times> gtask) option" where
  "register_mailbox E cmd s = register_mempool E cmd (mailbox_size E) s"

fun short_buffer_loop :: "env \<Rightarrow> pam_node \<Rightarrow> nat list \<Rightarrow> gtask \<Rightarrow> bool \<times> gtask" where
  "short_buffer_loop E n [] s = (False, s)"
| "short_buffer_loop E n (i # is) s = (
    let type = TEE_PARAM_TYPE_GET (op_p_type (n_op n)) i in
    if type \<noteq> TEE_PARAM_TYPE_MEMREF_OUTPUT \<and> type \<noteq> TEE_PARAM_TYPE_MEMREF_INOUT then short_buffer_loop E n is s
    else (let (t, s) = get_index_memref_size E n i s in
          if tp_b (op_p (n_op n) i) < t then (True, s) else short_buffer_loop E n is s))"

definition check_short_buffer :: "env \<Rightarrow> gtask \<Rightarrow> (bool \<times> gtask) option" where
  "check_short_buffer E s = (case g_cur_session s of None \<Rightarrow> Some (False, s)
    | Some x \<Rightarrow> do {
        y \<leftarrow> sessions s x;
        (case s_pam_node y of None \<Rightarrow> Some (False, s)
         | Some n \<Rightarrow> Some (short_buffer_loop E n [0..<TEE_PARAM_NUM] s))
      })"


section \<open>What the operations leave unchanged\<close>

text \<open>
  The memory manager changes of a session only its parameters, mapped memory and current command; \<open>mem_step P\<close> says so and that every
  call made on the way satisfies \<open>P\<close>.
\<close>

definition sess_core :: "session_struct \<Rightarrow> session_struct" where
  "sess_core y = y\<lparr>s_pam_node := None, s_oper_addr := 0, s_map_mem := [], s_cmd := False, s_cmd_in := zero_cmd\<rparr>"

definition mem_erase :: "gtask \<Rightarrow> gtask" where
  "mem_erase s = s\<lparr>sessions := \<lambda>_. None, g_mem_ns := [], g_gt_pam_node := None, g_gt_oper_addr := 0, history := []\<rparr>"

definition mem_step :: "(ext \<Rightarrow> bool) \<Rightarrow> gtask \<Rightarrow> gtask \<Rightarrow> bool" where
  "mem_step P s s' \<longleftrightarrow> mem_erase s' = mem_erase s \<and>
    (\<forall>x. map_option sess_core (sessions s' x) = map_option sess_core (sessions s x)) \<and>
    (\<exists>evs. history s' = evs @ history s \<and> list_all P evs)"

lemma grows_refl: "\<exists>evs. h = evs @ h \<and> list_all P evs"
  by (rule exI[of _ "[]"]) simp

lemma mem_step_refl [simp, intro]: "mem_step P s s"
  by (simp add: mem_step_def grows_refl)

lemma mem_step_trans:
  assumes "mem_step P s s'" "mem_step P s' s''"
  shows "mem_step P s s''"
proof -
  obtain evs evs' where "history s' = evs @ history s" "list_all P evs" "history s'' = evs' @ history s'" "list_all P evs'"
    using assms unfolding mem_step_def by blast
  then have "\<exists>evs. history s'' = evs @ history s \<and> list_all P evs"
    by (intro exI[of _ "evs' @ evs"]) simp
  then show ?thesis using assms unfolding mem_step_def by simp
qed

lemma mem_step_notify:
  assumes "mem_step P s s'" "P c"
  shows "mem_step P s (notify c s')"
proof (rule mem_step_trans[OF assms(1)])
  have "\<exists>evs. history (notify c s') = evs @ history s' \<and> list_all P evs"
    using assms(2) by (intro exI[of _ "[c]"]) (simp add: notify_def)
  then show "mem_step P s' (notify c s')" unfolding mem_step_def by (simp add: mem_erase_def notify_def)
qed

lemma mem_step_set_session:
  assumes "mem_step P s s'" "\<And>x. map_option sess_core (ss x) = map_option sess_core (sessions s' x)"
  shows "mem_step P s (s'\<lparr>sessions := ss\<rparr>)"
  using assms(2) by (intro mem_step_trans[OF assms(1)]) (simp add: mem_step_def mem_erase_def grows_refl)

lemma mem_step_set_global:
  assumes "mem_step P s s'"
  shows "mem_step P s (s'\<lparr>g_mem_ns := ns\<rparr>)" "mem_step P s (s'\<lparr>g_gt_pam_node := pn, g_gt_oper_addr := oa\<rparr>)"
  by (intro mem_step_trans[OF assms]; simp add: mem_step_def mem_erase_def grows_refl)+

lemma mem_stepD:
  assumes "mem_step P s s'"
  shows "g_service_head s' = g_service_head s" "services s' = services s" "g_cur_service s' = g_cur_service s"
    "g_cur_session s' = g_cur_session s" "g_service_index_map s' = g_service_index_map s" "g_cur_index s' = g_cur_index s"
    "g_agent_head s' = g_agent_head s" "agents s' = agents s" "g_agent_cnt s' = g_agent_cnt s" "svc_cmd s' = svc_cmd s"
    "svc_working s' = svc_working s" "svc_pending s' = svc_pending s" "smc s' = smc s" "g_mb_state s' = g_mb_state s"
proof -
  have "f (mem_erase s') = f (mem_erase s)" for f :: "gtask \<Rightarrow> 'b" using assms by (simp add: mem_step_def)
  from this[of g_service_head] show "g_service_head s' = g_service_head s" by (simp add: mem_erase_def)
qed (use assms in \<open>auto simp: mem_step_def mem_erase_def dest: arg_cong[where f = services]
      arg_cong[where f = g_cur_service] arg_cong[where f = g_cur_session] arg_cong[where f = g_service_index_map]
      arg_cong[where f = g_cur_index] arg_cong[where f = g_agent_head] arg_cong[where f = agents] arg_cong[where f = g_agent_cnt]
      arg_cong[where f = svc_cmd] arg_cong[where f = svc_working] arg_cong[where f = svc_pending] arg_cong[where f = smc]
      arg_cong[where f = g_mb_state]\<close>)

lemma mem_step_session:
  assumes "mem_step P s s'" "sessions s x = Some y"
  obtains y' where "sessions s' x = Some y'" "sess_core y' = sess_core y"
proof -
  have "map_option sess_core (sessions s' x) = Some (sess_core y)"
    using assms by (simp add: mem_step_def)
  then show thesis using that by auto
qed

lemma mem_step_alive:
  assumes "mem_step P s s'"
  shows "sessions s' x = None \<longleftrightarrow> sessions s x = None"
  using assms unfolding mem_step_def by (metis map_option_is_None)

lemma mem_step_wf_services:
  assumes "mem_step P s s'"
  shows "wf_services s' = wf_services s"
proof -
  have id: "s_session_id (sess_core y) = s_session_id y" for y by (simp add: sess_core_def)
  have "map_option s_session_id (sessions s' x) = map_option s_session_id (sessions s x)" for x
  proof -
    have "map_option sess_core (sessions s' x) = map_option sess_core (sessions s x)"
      using assms by (simp add: mem_step_def)
    then show ?thesis by (cases "sessions s x"; cases "sessions s' x") (auto simp: sess_core_def dest!: arg_cong[where f = s_session_id])
  qed
  then show ?thesis
    unfolding wf_services_def mem_stepD[OF assms] by (rule wf_svcs_sess_cong)
qed

section \<open>The operations are memory steps\<close>

text \<open>Calls other than copies to and from the normal world.\<close>

definition no_copy :: "ext \<Rightarrow> bool" where
  "no_copy e \<longleftrightarrow> (case e of Copy_to_ree _ _ _ \<Rightarrow> False | Copy_from_ree _ _ _ \<Rightarrow> False | _ \<Rightarrow> True)"

lemma no_copy_simps [simp]:
  "no_copy Tee_malloc" "no_copy (Alloc_sharemem n)" "no_copy (Free_sharemem a n)" "no_copy (Map_sharemem u a n)"
  "no_copy (Unmap_sharemem a n)" "no_copy (Ree_read_operation a)" "no_copy (Ree_memref_size a i)" "no_copy (Ree_set_value a i v w)"
  "no_copy (Ree_set_size a i n)" "no_copy (Ta_value_a a i)" "no_copy (Ta_value_b a i)" "no_copy (Ta_memref_size a i)"
  "no_copy (Ta_set_value a i v w)" "no_copy (Ta_set_size a i n)" "no_copy (Ta_set_buffer a i b)" "no_copy (Map_secure_cmd u a)"
  "no_copy (Task_map_ns_phy_mem t a n)" "no_copy (Task_unmap t a n)"
  by (simp_all add: no_copy_def)

definition covers :: "(ext \<Rightarrow> bool) \<Rightarrow> bool" where
  "covers P \<longleftrightarrow> (\<forall>e. no_copy e \<longrightarrow> P e)"

lemma coversD: "covers P \<Longrightarrow> no_copy e \<Longrightarrow> P e"
  by (simp add: covers_def)

named_theorems mem_steps

lemma TEE_Malloc_snd [simp]: "snd (TEE_Malloc E s) = notify Tee_malloc s"
  by (auto simp: TEE_Malloc_def split: option.splits)

lemma free_tee_mem_step [mem_steps]: "covers P \<Longrightarrow> mem_step P s s' \<Longrightarrow> mem_step P s (free_tee_mem a n s')"
  by (simp add: free_tee_mem_def mem_step_notify coversD)

lemma set_index_steps [mem_steps]:
  "covers P \<Longrightarrow> mem_step P s s' \<Longrightarrow> mem_step P s (set_index_value n i a b s')"
  "covers P \<Longrightarrow> mem_step P s s' \<Longrightarrow> mem_step P s (set_index_memref_size n i sz s')"
  "covers P \<Longrightarrow> mem_step P s s' \<Longrightarrow> mem_step P s (set_index_memref_buffer n i buf s')"
  by (simp_all add: set_index_value_def set_index_memref_size_def set_index_memref_buffer_def mem_step_notify coversD)

lemma get_index_snd [simp]:
  "snd (get_index_value_a E n i s) = notify (Ta_value_a (n_p_for_ta n) i) s"
  "snd (get_index_value_b E n i s) = notify (Ta_value_b (n_p_for_ta n) i) s"
  "snd (get_index_memref_size E n i s) = notify (Ta_memref_size (n_p_for_ta n) i) s"
  by (simp_all add: get_index_value_a_def get_index_value_b_def get_index_memref_size_def ext_pair)

lemma release_memrefs_step:
  "covers P \<Longrightarrow> mem_step P s s' \<Longrightarrow> mem_step P s (release_memrefs n is s')"
  by (induction "is" arbitrary: s') (simp_all add: free_tee_mem_step)

lemma release_pam_node_step [mem_steps]:
  "covers P \<Longrightarrow> mem_step P s s' \<Longrightarrow> mem_step P s (release_pam_node n s')"
  by (simp add: release_pam_node_def free_tee_mem_step release_memrefs_step split: option.splits)

definition cur_session_ok :: "gtask \<Rightarrow> bool" where
  "cur_session_ok s \<longleftrightarrow> (case g_cur_session s of None \<Rightarrow> True | Some x \<Rightarrow> sessions s x \<noteq> None)"

lemma cur_session_okE:
  assumes "cur_session_ok s" "g_cur_session s = Some x"
  obtains y where "sessions s x = Some y"
  using assms by (auto simp: cur_session_ok_def)

lemma mem_step_cur_session_ok: "mem_step P s s' \<Longrightarrow> cur_session_ok s' = cur_session_ok s"
  using mem_step_alive[of P s s'] by (auto simp: cur_session_ok_def mem_stepD split: option.splits)

lemma sess_core_upd [simp]:
  "sess_core (y\<lparr>s_map_mem := m\<rparr>) = sess_core y" "sess_core (y\<lparr>s_pam_node := n\<rparr>) = sess_core y"
  "sess_core (y\<lparr>s_pam_node := n, s_oper_addr := a\<rparr>) = sess_core y" "sess_core (y\<lparr>s_map_mem := m, s_cmd := b\<rparr>) = sess_core y"
  "sess_core (y\<lparr>s_cmd_in := c, s_cmd := b\<rparr>) = sess_core y" "sess_core (y\<lparr>s_cmd_in := c\<rparr>) = sess_core y"
  by (simp_all add: sess_core_def)

lemma task_add_mem_region_step:
  assumes "covers P" "mem_step P s s'" "cur_session_ok s"
  shows "okay (task_add_mem_region E ev pid a sz ta2ta s') (\<lambda>(r, s''). mem_step P s s'')"
proof -
  have n: "mem_step P s (notify Tee_malloc s')" using assms by (simp add: mem_step_notify coversD)
  have "cur_session_ok s'" using assms(2,3) by (simp add: mem_step_cur_session_ok)
  then show ?thesis
    using n
    by (auto simp: task_add_mem_region_def case_prod_beta Let_def cur_session_ok_def mem_step_set_global
        intro!: mem_step_set_session split: option.splits)
qed

lemma copy_to_src_step:
  assumes "covers P" "mem_step P s s'" "P (Copy_to_ree ree_addr tee_addr tee_size) \<or> tee_size > ree_size"
  shows "mem_step P s (snd (copy_to_src ree_addr ree_size tee_addr tee_size s'))"
  using assms by (auto simp: copy_to_src_def mem_step_notify)

lemma copy_from_src_step:
  assumes "covers P" "mem_step P s s'" "wf_services s" "\<And>a. P (Copy_from_ree a ree_addr sz)"
  shows "okay (copy_from_src E t ree_addr sz s') (\<lambda>((r, a), s''). mem_step P s s'')"
proof -
  have "wf_services s'" using assms(2,3) mem_step_wf_services by blast
  from get_ta_info_okay[OF wf_services_linked[OF this], of t] obtain i where i: "get_ta_info s' t = Some i" by (auto simp: okay_iff)
  have s1: "mem_step P s (notify (Alloc_sharemem n) s')" for n
    using assms(1,2) by (simp add: mem_step_notify coversD)
  have "mem_step P s (notify (Copy_from_ree a ree_addr sz) (notify (Alloc_sharemem n) s'))" for a n
    using s1 assms(4) by (simp add: mem_step_notify)
  then show ?thesis
    using assms(1,2) s1 i by (auto simp: copy_from_src_def ext_pair free_tee_mem_step split: option.splits)
qed

lemma map_memref_for_gtask_step:
  assumes P: "covers P" and s': "mem_step P s s'" and cur: "cur_session_ok s"
  shows "okay (map_memref_for_gtask E ta2ta cmd p h s') (\<lambda>((r, a), s''). mem_step P s s'' \<and>
    (\<not> ta2ta \<longrightarrow> r = TEE_SUCCESS \<longrightarrow> a = mailbox_phys_to_virt (g_mb_state s) (paddr (tp_a p) h) \<and> a \<noteq> 0))"
proof (cases ta2ta)
  case True
  let ?c = "Map_sharemem (c_uid cmd) (paddr (tp_a p) h) (tp_b p)"
  let ?v = "env_val E (history s') ?c"
  have s1: "mem_step P s (notify ?c s')"
    using P s' by (simp add: mem_step_notify coversD)
  obtain r s2 where add: "task_add_mem_region E (c_event_nr cmd) 0 ?v (tp_b p) True (notify ?c s') = Some (r, s2)" "mem_step P s s2"
    using task_add_mem_region_step[OF P s1 cur, of E "c_event_nr cmd" 0 ?v "tp_b p" True] by (auto simp: okay_iff)
  show ?thesis
    using True add s1 P by (simp add: map_memref_for_gtask_def ext_pair mem_step_notify coversD)
next
  case False
  then show ?thesis
    using s' by (simp add: map_memref_for_gtask_def Let_def mem_stepD)
qed

text \<open>The node records of a memory reference the mailbox address it was copied from.\<close>

definition node_memrefs :: "mempool_state \<Rightarrow> pam_node \<Rightarrow> bool" where
  "node_memrefs mb n \<longleftrightarrow> (\<forall>i. n_vaddr_gt_ree n i = 0 \<or> (is_memref (TEE_PARAM_TYPE_GET (op_p_type (n_op n)) i) \<and>
    n_vaddr_gt_ree n i = mailbox_phys_to_virt mb (paddr (tp_a (op_p (n_op n) i)) (op_p_h_addr (n_op n) i))))"

lemma params_map_for_ta_memref_step:
  assumes P: "covers P" and s': "mem_step P s s'" and wf: "wf_services s" and cur: "cur_session_ok s"
    and copy: "\<And>a r. ta2ta \<or> r = mailbox_phys_to_virt (g_mb_state s) (paddr (tp_a (op_p (n_op node) i)) (op_p_h_addr (n_op node) i)) \<and> r \<noteq> 0 \<Longrightarrow>
      P (Copy_from_ree a r (tp_b (op_p (n_op node) i)))"
    and m: "is_memref (TEE_PARAM_TYPE_GET (op_p_type (n_op node)) i)"
  shows "okay (params_map_for_ta_memref E i node t cmd ta2ta s') (\<lambda>((r, node'), s''). mem_step P s s'' \<and> n_op node' = n_op node \<and>
    (\<not> ta2ta \<and> node_memrefs (g_mb_state s) node \<longrightarrow> node_memrefs (g_mb_state s) node'))"
proof -
  define s1 where "s1 = set_index_memref_size node i (tp_b (op_p (n_op node) i)) s'"
  have s1: "mem_step P s s1" using P s' by (simp add: s1_def mem_steps)
  obtain r a s2 where map: "map_memref_for_gtask E ta2ta cmd (op_p (n_op node) i) (op_p_h_addr (n_op node) i) s1 = Some ((r, a), s2)"
    and s2: "mem_step P s s2" and a: "\<not> ta2ta \<Longrightarrow> r = TEE_SUCCESS \<Longrightarrow>
      a = mailbox_phys_to_virt (g_mb_state s) (paddr (tp_a (op_p (n_op node) i)) (op_p_h_addr (n_op node) i)) \<and> a \<noteq> 0"
    using map_memref_for_gtask_step[OF P s1 cur, of E ta2ta cmd "op_p (n_op node) i" "op_p_h_addr (n_op node) i"]
    by (auto simp: okay_iff)
  show ?thesis
  proof (cases "r = TEE_SUCCESS")
    case False
    then show ?thesis using map s2 by (simp add: params_map_for_ta_memref_def Let_def s1_def)
  next
    case True
    have cp: "P (Copy_from_ree b a (tp_b (op_p (n_op node) i)))" for b
      using a True by (intro copy) auto
    obtain r2 b s3 where cf: "copy_from_src E t a (tp_b (op_p (n_op node) i)) s2 = Some ((r2, b), s3)" and s3: "mem_step P s s3"
      using copy_from_src_step[OF P s2 wf cp, of E t] by (auto simp: okay_iff)
    have nm: "node_memrefs (g_mb_state s) (node\<lparr>n_vaddr_gt_tee := x, n_vaddr_gt_ree := (n_vaddr_gt_ree node)(i := a)\<rparr>)"
      if "\<not> ta2ta" "node_memrefs (g_mb_state s) node" for x
      using that a True m unfolding node_memrefs_def by auto
    show ?thesis
      using map True cf P s2 s3 nm by (auto simp: params_map_for_ta_memref_def Let_def s1_def[symmetric] mem_steps)
  qed
qed

lemma params_map_loop_step:
  assumes P: "covers P" and wf: "wf_services s" and cur: "cur_session_ok s"
    and copy: "\<And>i a r. i \<in> set is \<Longrightarrow> is_memref (TEE_PARAM_TYPE_GET (op_p_type op) i) \<Longrightarrow>
      ta2ta \<or> r = mailbox_phys_to_virt (g_mb_state s) (paddr (tp_a (op_p op i)) (op_p_h_addr op i)) \<and> r \<noteq> 0 \<Longrightarrow>
      P (Copy_from_ree a r (tp_b (op_p op i)))"
  shows "mem_step P s s' \<Longrightarrow> n_op node = op \<Longrightarrow> okay (params_map_loop E t cmd ta2ta is node s') (\<lambda>((r, node'), s''). mem_step P s s'' \<and>
    n_op node' = op \<and> (\<not> ta2ta \<and> node_memrefs (g_mb_state s) node \<longrightarrow> node_memrefs (g_mb_state s) node'))"
  using copy
proof (induction "is" arbitrary: node s')
  case (Cons i "is")
  have "okay (set_params_for_ta E t cmd node ta2ta i s') (\<lambda>((r, node'), s''). mem_step P s s'' \<and> n_op node' = n_op node \<and>
    (\<not> ta2ta \<and> node_memrefs (g_mb_state s) node \<longrightarrow> node_memrefs (g_mb_state s) node'))"
  proof (cases "is_memref (TEE_PARAM_TYPE_GET (op_p_type op) i)")
    case True
    then have "TEE_PARAM_TYPE_GET (op_p_type op) i \<noteq> TEE_PARAM_TYPE_NONE" "\<not> is_value (TEE_PARAM_TYPE_GET (op_p_type op) i)"
      by (auto simp: is_memref_def is_value_def)
    moreover have "okay (params_map_for_ta_memref E i node t cmd ta2ta s') (\<lambda>((r, node'), s''). mem_step P s s'' \<and> n_op node' = n_op node \<and>
        (\<not> ta2ta \<and> node_memrefs (g_mb_state s) node \<longrightarrow> node_memrefs (g_mb_state s) node'))"
      using Cons.prems True by (intro params_map_for_ta_memref_step[OF P _ wf cur]) auto
    ultimately show ?thesis
      using Cons.prems(2) True by (simp add: set_params_for_ta_def Let_def)
  next
    case False
    then show ?thesis using Cons.prems(1,2) P by (simp add: set_params_for_ta_def Let_def mem_steps)
  qed
  then obtain r node1 s1 where s1: "set_params_for_ta E t cmd node ta2ta i s' = Some ((r, node1), s1)" "mem_step P s s1" "n_op node1 = op"
      "\<not> ta2ta \<and> node_memrefs (g_mb_state s) node \<longrightarrow> node_memrefs (g_mb_state s) node1"
    using Cons.prems(2) by (auto simp: okay_iff)
  have "okay (params_map_loop E t cmd ta2ta is node1 s1) (\<lambda>((r, node'), s''). mem_step P s s'' \<and>
    n_op node' = op \<and> (\<not> ta2ta \<and> node_memrefs (g_mb_state s) node1 \<longrightarrow> node_memrefs (g_mb_state s) node'))"
    using Cons.prems(3) by (intro Cons.IH s1) auto
  then show ?case
    using s1 by (auto simp: okay_iff)
qed simp

lemma alloc_tee_param_for_ta_step:
  assumes "covers P" "mem_step P s s'" "wf_services s"
  shows "okay (alloc_tee_param_for_ta E t node s') (\<lambda>((r, node'), s''). mem_step P s s'' \<and> n_op node' = n_op node \<and>
    n_vaddr_gt_ree node' = n_vaddr_gt_ree node \<and> n_vaddr_gt_tee node' = n_vaddr_gt_tee node)"
proof -
  have "wf_services s'" using assms(2,3) mem_step_wf_services by blast
  from get_ta_info_okay[OF wf_services_linked[OF this], of t] obtain i where i: "get_ta_info s' t = Some i" by (auto simp: okay_iff)
  have "mem_step P s (notify (Alloc_sharemem n) s')" for n
    using assms(1,2) by (simp add: mem_step_notify coversD)
  then show ?thesis
    using i assms(2) by (auto simp: alloc_tee_param_for_ta_def ext_pair split: option.splits)
qed

lemma node_memrefs_cong:
  "n_op n' = n_op n \<Longrightarrow> n_vaddr_gt_ree n' = n_vaddr_gt_ree n \<Longrightarrow> node_memrefs mb n' = node_memrefs mb n"
  by (simp add: node_memrefs_def)

lemma params_map_for_ta_step:
  assumes P: "covers P" and s': "mem_step P s s'" and wf: "wf_services s" and cur: "cur_session_ok s"
    and copy: "\<And>i a r. i < TEE_PARAM_NUM \<Longrightarrow> is_memref (TEE_PARAM_TYPE_GET (op_p_type (n_op node)) i) \<Longrightarrow>
      ta2ta \<or> r = mailbox_phys_to_virt (g_mb_state s) (paddr (tp_a (op_p (n_op node) i)) (op_p_h_addr (n_op node) i)) \<and> r \<noteq> 0 \<Longrightarrow>
      P (Copy_from_ree a r (tp_b (op_p (n_op node) i)))"
  shows "okay (params_map_for_ta E t cmd node ta2ta s') (\<lambda>((r, node'), s''). mem_step P s s'' \<and>
    n_op node' = n_op node \<and> (\<not> ta2ta \<and> node_memrefs (g_mb_state s) node \<longrightarrow> node_memrefs (g_mb_state s) node'))"
proof -
  obtain r node1 s1 where s1: "alloc_tee_param_for_ta E t node s' = Some ((r, node1), s1)" "mem_step P s s1" "n_op node1 = n_op node"
    and ree: "n_vaddr_gt_ree node1 = n_vaddr_gt_ree node"
    using alloc_tee_param_for_ta_step[OF P s' wf, of E t node] by (auto simp: okay_iff)
  have nm: "node_memrefs (g_mb_state s) node1 = node_memrefs (g_mb_state s) node"
    by (rule node_memrefs_cong[OF s1(3) ree])
  have "okay (params_map_loop E t cmd ta2ta [0..<TEE_PARAM_NUM] node1 s1) (\<lambda>((r, node'), s''). mem_step P s s'' \<and>
    n_op node' = n_op node \<and> (\<not> ta2ta \<and> node_memrefs (g_mb_state s) node1 \<longrightarrow> node_memrefs (g_mb_state s) node'))"
    by (rule params_map_loop_step[OF P wf cur _ s1(2,3)]) (rule copy; simp)
  then show ?thesis
    using s1 nm by (cases "r = TEE_SUCCESS") (simp_all add: params_map_for_ta_def del: params_map_loop.simps)
qed


section \<open>The mailbox confines copies\<close>

definition mailbox_wf :: "mempool_state \<Rightarrow> bool" where
  "mailbox_wf mb \<longleftrightarrow> unat (mb_start mb) + unat (mb_size mb) < 2 ^ 64"

lemma unat_ADDR_MAX_minus: "unat (ADDR_MAX - ucast (sz :: u32) :: u64) = 2 ^ 64 - 1 - unat sz"
proof -
  have "(ADDR_MAX :: u64) = 0xFFFFFFFFFFFFFFFF" by simp
  then have "unat (ADDR_MAX :: u64) = 2 ^ 64 - 1" by (simp only:) simp
  moreover have "unat (ucast sz :: u64) \<le> unat (ADDR_MAX :: u64)" using unat_lt_u32[of sz] calculation by simp
  then have "unat (ADDR_MAX - ucast sz :: u64) = unat (ADDR_MAX :: u64) - unat (ucast sz :: u64)"
    by (intro unat_sub) (simp add: word_le_nat_alt)
  ultimately show ?thesis by simp
qed

lemma in_mailbox_range_iff:
  assumes "mb_init mb" "mailbox_wf mb"
  shows "in_mailbox_range mb a sz \<longleftrightarrow> unat (mb_start mb) \<le> unat a \<and> unat a < unat (mb_start mb) + unat (mb_size mb) \<and>
    unat a + unat sz \<le> unat (mb_start mb) + unat (mb_size mb)"
proof -
  have end': "unat (mb_start mb + ucast (mb_size mb)) = unat (mb_start mb) + unat (mb_size mb)"
    using assms(2) by (simp add: mailbox_wf_def unat_word_ariths)
  have lt: "unat sz < 2 ^ 32" by (rule unat_lt_u32)
  note amax = unat_ADDR_MAX_minus[of sz]
  show ?thesis
  proof (cases "unat a + unat sz < 2 ^ 64")
    case True
    then have "unat (a + ucast sz) = unat a + unat sz" by (simp add: unat_word_ariths)
    then show ?thesis
      using assms(1) True end' amax by (auto simp: in_mailbox_range_def word_le_nat_alt word_less_nat_alt)
  next
    case False
    then have "2 ^ 64 - 1 - unat sz < unat a" using lt by auto
    then have "a > ADDR_MAX - ucast sz" using amax by (simp add: word_less_nat_alt)
    moreover have "\<not> unat a + unat sz \<le> unat (mb_start mb) + unat (mb_size mb)"
      using False assms(2) by (simp add: mailbox_wf_def)
    ultimately show ?thesis using assms(1) by (simp add: in_mailbox_range_def)
  qed
qed

text \<open>A range of the virtual addresses at which the mailbox is mapped.\<close>

definition in_mailbox :: "mempool_state \<Rightarrow> u64 \<Rightarrow> nat \<Rightarrow> bool" where
  "in_mailbox mb v n \<longleftrightarrow> (\<exists>off. v = mb_va mb + of_nat off \<and> off + n \<le> unat (mb_size mb))"

lemma in_mailbox_mono: "in_mailbox mb v n \<Longrightarrow> m \<le> n \<Longrightarrow> in_mailbox mb v m"
  unfolding in_mailbox_def by force

lemma mailbox_phys_to_virt_in:
  assumes "mb_init mb" "mailbox_wf mb" "in_mailbox_range mb a sz" "a \<noteq> 0"
  shows "in_mailbox mb (mailbox_phys_to_virt mb a) (unat sz)"
proof -
  have r: "unat (mb_start mb) \<le> unat a" "unat a + unat sz \<le> unat (mb_start mb) + unat (mb_size mb)"
    using assms by (simp_all add: in_mailbox_range_iff)
  then have "unat (a - mb_start mb) = unat a - unat (mb_start mb)"
    by (intro unat_sub) (simp add: word_le_nat_alt)
  then have "of_nat (unat a - unat (mb_start mb)) = a - mb_start mb"
    by (metis of_nat_unat ucast_id)
  then have "mailbox_phys_to_virt mb a = mb_va mb + of_nat (unat a - unat (mb_start mb))"
    using assms(1,4) by (simp add: mailbox_phys_to_virt_def)
  then show ?thesis
    using r unfolding in_mailbox_def by (intro exI[of _ "unat a - unat (mb_start mb)"]) auto
qed

definition copy_ok :: "mempool_state \<Rightarrow> ext \<Rightarrow> bool" where
  "copy_ok mb e \<longleftrightarrow> (case e of Copy_to_ree dst _ n \<Rightarrow> in_mailbox mb dst (unat n)
    | Copy_from_ree _ src n \<Rightarrow> in_mailbox mb src (unat n) | _ \<Rightarrow> True)"

lemma copy_ok_covers [simp]: "covers (copy_ok mb)"
  by (auto simp: covers_def copy_ok_def no_copy_def split: ext.splits)

lemma check_params_loop_ok:
  assumes "check_params_loop mb op is ret = TEE_SUCCESS"
  shows "ret = TEE_SUCCESS \<and> (\<forall>i \<in> set is. is_memref (TEE_PARAM_TYPE_GET (op_p_type op) i) \<longrightarrow>
    paddr (tp_a (op_p op i)) (op_p_h_addr op i) \<noteq> 0 \<longrightarrow>
    in_mailbox_range mb (paddr (tp_a (op_p op i)) (op_p_h_addr op i)) (tp_b (op_p op i)))"
  using assms
proof (induction "is" arbitrary: ret)
  case (Cons i "is")
  then show ?case
    by (cases "is_memref (TEE_PARAM_TYPE_GET (op_p_type op) i)") (force simp: Let_def split: if_splits)+
qed simp

lemma mailbox_phys_to_virt_0: "mailbox_phys_to_virt mb a \<noteq> 0 \<Longrightarrow> a \<noteq> 0"
  by (auto simp: mailbox_phys_to_virt_def)

lemma checked_params_in_mailbox:
  assumes "check_operation_params_in_mailbox_range mb op = TEE_SUCCESS" "mb_init mb" "mailbox_wf mb" "i < TEE_PARAM_NUM"
    "is_memref (TEE_PARAM_TYPE_GET (op_p_type op) i)" "mailbox_phys_to_virt mb (paddr (tp_a (op_p op i)) (op_p_h_addr op i)) \<noteq> 0"
  shows "in_mailbox mb (mailbox_phys_to_virt mb (paddr (tp_a (op_p op i)) (op_p_h_addr op i))) (unat (tp_b (op_p op i)))"
  using assms check_params_loop_ok[of mb op "[0..<TEE_PARAM_NUM]" TEE_SUCCESS] mailbox_phys_to_virt_0
  by (intro mailbox_phys_to_virt_in) (auto simp: check_operation_params_in_mailbox_range_def simp del: check_params_loop.simps)

lemma map_cmd_to_operation_step:
  assumes P: "covers P" and s': "mem_step P s s'" and cur: "cur_session_ok s"
  shows "okay (map_cmd_to_operation E ta2ta cmd s') (\<lambda>((r, a), s''). mem_step P s s'')"
proof -
  let ?phys = "paddr (c_operation_phys cmd) (c_operation_h_phys cmd)"
  have ms: "mem_step P s (notify (Map_sharemem (c_uid cmd) ?phys 52) s')" "mem_step P s (notify (Task_map_ns_phy_mem 0 ?phys 52) s')"
    using P s' by (simp_all add: mem_step_notify coversD)
  have add: "\<exists>r s2. task_add_mem_region E (c_event_nr cmd) 0 v 52 b t = Some (r, s2) \<and> mem_step P s s2" if "mem_step P s t" for v b t
    using task_add_mem_region_step[OF P that cur, of E "c_event_nr cmd" 0 v 52 b] by (auto simp: okay_iff)
  show ?thesis
  proof (cases ta2ta)
    case True
    obtain r s2 where "task_add_mem_region E (c_event_nr cmd) 0
        (env_val E (history s') (Map_sharemem (c_uid cmd) ?phys 52)) 52 True (notify (Map_sharemem (c_uid cmd) ?phys 52) s') = Some (r, s2)"
        "mem_step P s s2"
      using add[OF ms(1)] by blast
    then show ?thesis
      using True ms P by (simp add: map_cmd_to_operation_def ext_pair Let_def mem_step_notify coversD)
  next
    case False
    obtain r s2 where "task_add_mem_region E (c_event_nr cmd) 0
        (env_val E (history s') (Task_map_ns_phy_mem 0 ?phys 52)) 52 False (notify (Task_map_ns_phy_mem 0 ?phys 52) s') = Some (r, s2)"
        "mem_step P s s2"
      using add[OF ms(2)] by blast
    then show ?thesis
      using False ms s' P by (simp add: map_cmd_to_operation_def operation_map_def ext_pair Let_def mem_step_notify coversD)
  qed
qed

lemma copy_pam_from_src_step:
  assumes P: "covers P" and s': "mem_step P s s'"
  shows "mem_step P s (snd (copy_pam_from_src E operation s'))"
    "snd (fst (copy_pam_from_src E operation s')) = Some n \<Longrightarrow> node_memrefs mb n"
    "snd (fst (copy_pam_from_src E operation s')) = None \<Longrightarrow> fst (fst (copy_pam_from_src E operation s')) \<noteq> TEE_SUCCESS"
  using assms by (auto simp: copy_pam_from_src_def case_prod_beta Let_def mem_step_notify coversD node_memrefs_def
      split: option.splits if_splits)

text \<open>What holds of the parameters of a session after a command of the normal world was mapped.\<close>

definition params_ok :: "mempool_state \<Rightarrow> pam_node \<Rightarrow> bool" where
  "params_ok mb n \<longleftrightarrow> (\<forall>i < TEE_PARAM_NUM. n_vaddr_gt_ree n i = 0 \<or> in_mailbox mb (n_vaddr_gt_ree n i) (unat (tp_b (op_p (n_op n) i))))"

lemma operation_map_for_gt_step:
  assumes P: "covers P" and wf: "wf_services s" and cur: "cur_session_ok s" and t: "t \<noteq> 0 \<longrightarrow> g_cur_session s \<noteq> None"
    and copy: "ta2ta \<longrightarrow> (\<forall>a r n. P (Copy_from_ree a r n))"
    and copy': "\<not> ta2ta \<longrightarrow> mb_init (g_mb_state s) \<and> mailbox_wf (g_mb_state s) \<and>
      (\<forall>a r n. in_mailbox (g_mb_state s) r (unat n) \<longrightarrow> P (Copy_from_ree a r n)) \<or> (\<forall>a r n. P (Copy_from_ree a r n))"
  shows "okay (operation_map_for_gt E t cmd ta2ta s) (\<lambda>((r, ty, p), s'). mem_step P s s' \<and>
    (r = TEE_SUCCESS \<and> t = 0 \<longrightarrow> g_gt_pam_node s' \<noteq> None) \<and>
    (r = TEE_SUCCESS \<and> t \<noteq> 0 \<and> \<not> ta2ta \<and> mb_init (g_mb_state s) \<and> mailbox_wf (g_mb_state s) \<longrightarrow>
      (\<exists>x y n. g_cur_session s' = Some x \<and> sessions s' x = Some y \<and> s_pam_node y = Some n \<and> params_ok (g_mb_state s) n)))"
proof -
  let ?mb = "g_mb_state s"
  obtain r operation s1 where s1: "map_cmd_to_operation E ta2ta cmd s = Some ((r, operation), s1)" "mem_step P s s1"
    using map_cmd_to_operation_step[OF P mem_step_refl cur, of E ta2ta cmd] by (auto simp: okay_iff)
  obtain r2 pn s2 where s2: "copy_pam_from_src E operation s1 = ((r2, pn), s2)" by (metis surj_pair)
  have ms2: "mem_step P s s2" and nm0: "\<And>n mb. pn = Some n \<Longrightarrow> node_memrefs mb n" and fail: "pn = None \<Longrightarrow> r2 \<noteq> TEE_SUCCESS"
    using copy_pam_from_src_step[OF P s1(2), of E operation] s2 by auto
  have mb: "g_mb_state s2 = ?mb" using ms2 by (simp add: mem_stepD)
  show ?thesis
  proof (cases "r = TEE_SUCCESS \<and> (\<exists>n. pn = Some n \<and> (ta2ta \<or> check_operation_params_in_mailbox_range ?mb (n_op n) = TEE_SUCCESS))")
    case False
    then show ?thesis
      using s1 s2 ms2 mb P fail by (cases pn) (auto simp: operation_map_for_gt_def Let_def mem_steps)
  next
    case True
    then obtain n where n: "pn = Some n" "ta2ta \<or> check_operation_params_in_mailbox_range ?mb (n_op n) = TEE_SUCCESS" by blast
    have "P (Copy_from_ree a v (tp_b (op_p (n_op n) i)))" if "i < TEE_PARAM_NUM" "is_memref (TEE_PARAM_TYPE_GET (op_p_type (n_op n)) i)"
        "ta2ta \<or> v = mailbox_phys_to_virt ?mb (paddr (tp_a (op_p (n_op n) i)) (op_p_h_addr (n_op n) i)) \<and> v \<noteq> 0" for i a v
      using that copy copy' n(2) checked_params_in_mailbox[of ?mb "n_op n" i] by blast
    from params_map_for_ta_step[where node = n and ta2ta = ta2ta and E = E and t = t and cmd = cmd, OF P ms2 wf cur this]
    obtain r3 n3 s3 where s3: "params_map_for_ta E t cmd n ta2ta s2 = Some ((r3, n3), s3)" "mem_step P s s3" "n_op n3 = n_op n"
        "\<not> ta2ta \<longrightarrow> node_memrefs ?mb n3"
      using nm0[OF n(1)] by (auto simp: okay_iff)
    have ok: "params_ok ?mb n3" if "\<not> ta2ta" "mb_init ?mb" "mailbox_wf ?mb"
      unfolding params_ok_def
    proof (intro allI impI)
      fix i assume i: "i < TEE_PARAM_NUM"
      show "n_vaddr_gt_ree n3 i = 0 \<or> in_mailbox ?mb (n_vaddr_gt_ree n3 i) (unat (tp_b (op_p (n_op n3) i)))"
        using s3(3,4) that n(2) i checked_params_in_mailbox[of ?mb "n_op n" i] unfolding node_memrefs_def by metis
    qed
    have c3: "g_cur_session s3 = g_cur_session s" using s3(2) by (simp add: mem_stepD)
    have nd: "okay (do { x \<leftarrow> g_cur_session s3; s \<leftarrow> upd_session x (\<lambda>y. y\<lparr>s_pam_node := Some n3, s_oper_addr := operation\<rparr>) s3;
          Some ((TEE_SUCCESS, op_p_type (n_op n3), n_p_for_ta n3), s) }) (\<lambda>((r, ty, p), s'). mem_step P s s' \<and>
        (\<exists>x y. g_cur_session s' = Some x \<and> sessions s' x = Some y \<and> s_pam_node y = Some n3))" if t0: "t \<noteq> 0"
    proof -
      obtain x where x: "g_cur_session s3 = Some x" using t t0 c3 by auto
      obtain y where y: "sessions s3 x = Some y"
        using cur_session_okE[OF _ x] cur mem_step_cur_session_ok[OF s3(2)] by blast
      show ?thesis using s3(2) x y by (auto intro!: mem_step_set_session)
    qed
    show ?thesis
      using True s1 s2 mb n s3 P nd ok
      by (auto simp: operation_map_for_gt_def Let_def mem_steps mem_step_set_global(2) okay_iff split: if_splits)
  qed
qed

lemma cmd_ns_get_params_step:
  assumes P: "covers P" and wf: "wf_services s" and cur: "cur_session_ok s" and t: "t \<noteq> 0 \<longrightarrow> g_cur_session s \<noteq> None"
    and copy: "mb_init (g_mb_state s) \<and> mailbox_wf (g_mb_state s) \<and>
      (\<forall>a r n. in_mailbox (g_mb_state s) r (unat n) \<longrightarrow> P (Copy_from_ree a r n)) \<or> (\<forall>a r n. P (Copy_from_ree a r n))"
  shows "okay (cmd_ns_get_params E t cmd s) (\<lambda>((r, ty, p), s'). mem_step P s s' \<and>
    (r = TEE_SUCCESS \<and> t = 0 \<and> p \<noteq> 0 \<longrightarrow> g_gt_pam_node s' \<noteq> None) \<and>
    (r = TEE_SUCCESS \<and> t \<noteq> 0 \<and> mb_init (g_mb_state s) \<and> mailbox_wf (g_mb_state s) \<and>
      (\<exists>c. cmd = Some c \<and> paddr (c_operation_phys c) (c_operation_h_phys c) \<noteq> 0) \<longrightarrow>
      (\<exists>x y n. g_cur_session s' = Some x \<and> sessions s' x = Some y \<and> s_pam_node y = Some n \<and> params_ok (g_mb_state s) n)))"
proof (cases cmd)
  case (Some c)
  have "okay (operation_map_for_gt E t c False s) (\<lambda>((r, ty, p), s'). mem_step P s s' \<and>
    (r = TEE_SUCCESS \<and> t = 0 \<longrightarrow> g_gt_pam_node s' \<noteq> None) \<and>
    (r = TEE_SUCCESS \<and> t \<noteq> 0 \<and> \<not> False \<and> mb_init (g_mb_state s) \<and> mailbox_wf (g_mb_state s) \<longrightarrow>
      (\<exists>x y n. g_cur_session s' = Some x \<and> sessions s' x = Some y \<and> s_pam_node y = Some n \<and> params_ok (g_mb_state s) n)))"
    using copy by (intro operation_map_for_gt_step[OF P wf cur t]) simp_all
  then show ?thesis
    using Some by (auto simp: cmd_ns_get_params_def okay_iff)
qed (simp add: cmd_ns_get_params_def)

lemma cmd_secure_get_params_step:
  assumes wf: "wf_services s" and cur: "cur_session_ok s" and t: "t \<noteq> 0 \<longrightarrow> g_cur_session s \<noteq> None"
  shows "okay (cmd_secure_get_params E t cmd s) (\<lambda>((r, ty, p), s'). mem_step (\<lambda>_. True) s s')"
proof (cases cmd)
  case (Some c)
  have "okay (operation_map_for_gt E t c True s) (\<lambda>((r, ty, p), s'). mem_step (\<lambda>_. True) s s' \<and>
    (r = TEE_SUCCESS \<and> t = 0 \<longrightarrow> g_gt_pam_node s' \<noteq> None) \<and>
    (r = TEE_SUCCESS \<and> t \<noteq> 0 \<and> \<not> True \<and> mb_init (g_mb_state s) \<and> mailbox_wf (g_mb_state s) \<longrightarrow>
      (\<exists>x y n. g_cur_session s' = Some x \<and> sessions s' x = Some y \<and> s_pam_node y = Some n \<and> params_ok (g_mb_state s) n)))"
    by (intro operation_map_for_gt_step[OF _ wf cur t]) (simp_all add: covers_def)
  then show ?thesis
    using Some by (auto simp: cmd_secure_get_params_def okay_iff)
qed (simp add: cmd_secure_get_params_def)

text \<open>
  The size of a memory reference is read more than once while results are copied back.  Either the application does not
  change its size, or the normal world does not change its own, between the check and the copy.
\<close>

definition ta_single_fetch :: "env \<Rightarrow> bool" where
  "ta_single_fetch E \<longleftrightarrow> (\<forall>h p i q j. env_val E (Ree_memref_size q j # Ta_memref_size p i # h) (Ta_memref_size p i) =
    env_val E h (Ta_memref_size p i))"

definition ree_single_fetch :: "env \<Rightarrow> bool" where
  "ree_single_fetch E \<longleftrightarrow> (\<forall>h p i q. env_val E (Ta_memref_size p i # Ree_memref_size q i # h) (Ree_memref_size q i) =
    env_val E h (Ree_memref_size q i))"

lemma copy_params_loop_step:
  assumes n: "params_ok mb n" and E: "ta_single_fetch E \<or> ree_single_fetch E"
  shows "set is \<subseteq> {..<TEE_PARAM_NUM} \<Longrightarrow> mem_step (copy_ok mb) s s' \<Longrightarrow>
    mem_step (copy_ok mb) s (snd (copy_params_loop E n p_ree is ret s'))"
proof (induction "is" arbitrary: ret s')
  case (Cons i "is")
  let ?P = "copy_ok mb"
  note IH = Cons.IH[OF subset_trans[OF set_subset_Cons Cons.prems(1)]]
  have st: "mem_step ?P s (notify c t)" if "mem_step ?P s t" "no_copy c" for c t
    using that by (simp add: mem_step_notify coversD[OF copy_ok_covers])
  define type where "type = TEE_PARAM_TYPE_GET (op_p_type (n_op n)) i"
  define sz where "sz = tp_b (op_p (n_op n) i)"
  let ?R = "Ree_memref_size p_ree i" and ?T = "Ta_memref_size (n_p_for_ta n) i"
  define s1 where "s1 = notify ?R s'"
  define s2 where "s2 = notify ?T s1"
  define s4 where "s4 = notify ?T (notify ?R s2)"
  define r2 :: u32 where "r2 = ucast (env_val E (history s2) ?R)"
  define t3 :: u32 where "t3 = ucast (env_val E (history (notify ?R s2)) ?T)"
  have ms: "mem_step ?P s s1" "mem_step ?P s s2" "mem_step ?P s s4"
    using Cons.prems(2) by (simp_all add: s1_def s2_def s4_def st)
  have small: "t3 \<le> sz" if "sz = ucast (env_val E (history s') ?R)" "\<not> sz < ucast (env_val E (history s1) ?T)" "\<not> r2 < t3"
    using E that by (auto simp: ta_single_fetch_def ree_single_fetch_def r2_def t3_def s1_def s2_def notify_def)
  define cp where "cp = copy_to_src (n_vaddr_gt_ree n i) r2 (n_vaddr_gt_tee n i) t3 s4"
  have cp: "mem_step ?P s (snd cp)" if "sz = ucast (env_val E (history s') ?R)" "\<not> sz < ucast (env_val E (history s1) ?T)"
  proof (cases "n_vaddr_gt_ree n i = 0 \<or> r2 < t3")
    case True
    then show ?thesis using ms(3) by (auto simp: cp_def copy_to_src_def)
  next
    case False
    have "i < TEE_PARAM_NUM" using Cons.prems(1) by simp
    then have "in_mailbox mb (n_vaddr_gt_ree n i) (unat sz)"
      using n False unfolding params_ok_def sz_def by blast
    moreover have "unat t3 \<le> unat sz" using small[OF that] False by (simp add: word_le_nat_alt)
    ultimately have "in_mailbox mb (n_vaddr_gt_ree n i) (unat t3)" by (rule in_mailbox_mono)
    then show ?thesis
      unfolding cp_def by (intro copy_to_src_step ms) (simp_all add: copy_ok_def)
  qed
  show ?case
    using IH Cons.prems(2) ms cp
    by (auto simp: Let_def case_prod_beta ext_pair st type_def[symmetric] sz_def[symmetric] get_index_memref_size_def
        s1_def[symmetric] s2_def[symmetric] s4_def[symmetric] r2_def[symmetric] t3_def[symmetric] cp_def[symmetric])
qed simp

lemma covers_True [simp]: "covers (\<lambda>_. True)"
  by (simp add: covers_def)

lemma mem_step_notify_True [simp]: "mem_step (\<lambda>_. True) s s' \<Longrightarrow> mem_step (\<lambda>_. True) s (notify c s')"
  by (simp add: mem_step_notify)

lemma copy_params_loop_frame:
  "mem_step (\<lambda>_. True) s s' \<Longrightarrow> mem_step (\<lambda>_. True) s (snd (copy_params_loop E n p_ree is ret s'))"
proof (induction "is" arbitrary: ret s')
  case (Cons i "is")
  have cp: "mem_step (\<lambda>_. True) s (snd (copy_to_src a b c d t))" if "mem_step (\<lambda>_. True) s t" for a b c d t
    by (intro copy_to_src_step that) simp_all
  show ?case
    using Cons by (auto simp: Let_def case_prod_beta cp)
qed simp

lemma copy_pam_to_src_session:
  assumes x: "g_cur_session s = Some x" "sessions s x = Some y" and P: "covers P"
    and bk: "\<And>n. s_pam_node y = Some n \<Longrightarrow> mem_step P s (snd (copy_params_back_to_ree E n (s_oper_addr y) s))"
  shows "okay (copy_pam_to_src E cmd_id ta2ta s) (\<lambda>(r, s'). mem_step P s s')"
proof (cases "s_pam_node y = None \<or> s_oper_addr y = 0")
  case True
  then show ?thesis using x by (auto simp: copy_pam_to_src_def split: option.splits)
next
  case False
  then obtain n where n: "s_pam_node y = Some n" "s_oper_addr y \<noteq> 0" by auto
  let ?t = "release_pam_node (Some n) (snd (copy_params_back_to_ree E n (s_oper_addr y) s))"
  have t: "mem_step P s ?t" using bk[OF n(1)] P by (simp add: release_pam_node_step)
  obtain z where z: "sessions ?t x = Some z" using mem_step_session[OF t x(2)] .
  show ?thesis
    using x n t z mem_stepD(4)[OF t]
    by (auto simp: copy_pam_to_src_def Let_def case_prod_beta intro!: mem_step_set_session)
qed

lemma copy_pam_to_src_frame:
  assumes "cur_session_ok s"
  shows "okay (copy_pam_to_src E cmd_id ta2ta s) (\<lambda>(r, s'). mem_step (\<lambda>_. True) s s')"
proof -
  let ?T = "\<lambda>_::ext. True"
  have cp: "mem_step ?T s (snd (copy_to_src a b c d t))" if "mem_step ?T s t" for a b c d t
    by (intro copy_to_src_step that) simp_all
  have bk: "mem_step ?T s (snd (copy_params_back_to_ree E n p s))" for n p
    by (simp add: copy_params_back_to_ree_def copy_params_loop_frame del: copy_params_loop.simps)
  have rel: "mem_step ?T s (release_pam_node m (snd (copy_params_back_to_ree E n p s)))" for n p m
    using bk by (simp add: release_pam_node_step)
  show ?thesis
  proof (cases "g_cur_session s")
    case None
    then show ?thesis
      using rel cp
      by (auto simp: copy_pam_to_src_def Let_def case_prod_beta mem_stepD(4)[OF rel] release_pam_node_step mem_step_set_global(2)
          split: option.splits)
  next
    case (Some x)
    obtain y where y: "sessions s x = Some y" using cur_session_okE[OF assms Some] .
    show ?thesis by (rule copy_pam_to_src_session[OF Some y covers_True bk])
  qed
qed

lemma copy_back_confined_step:
  assumes x: "g_cur_session s = Some x" "sessions s x = Some y" and n: "\<And>n. s_pam_node y = Some n \<Longrightarrow> params_ok mb n"
    and E: "ta_single_fetch E \<or> ree_single_fetch E"
  shows "okay (copy_pam_to_src E cmd_id ta2ta s) (\<lambda>(r, s'). mem_step (copy_ok mb) s s')"
proof (rule copy_pam_to_src_session[OF x copy_ok_covers])
  fix n assume "s_pam_node y = Some n"
  then show "mem_step (copy_ok mb) s (snd (copy_params_back_to_ree E n (s_oper_addr y) s))"
    unfolding copy_params_back_to_ree_def using n E by (intro copy_params_loop_step) auto
qed

lemma cmd_global_ns_get_params_step:
  assumes "wf_services s" "cur_session_ok s"
  shows "okay (cmd_global_ns_get_params E cmd s) (\<lambda>((r, ty, p), s'). mem_step (\<lambda>_. True) s s' \<and>
    (r = TEE_SUCCESS \<and> p \<noteq> 0 \<longrightarrow> g_gt_pam_node s' \<noteq> None))"
proof (cases cmd)
  case (Some c)
  show ?thesis
    using cmd_ns_get_params_step[OF covers_True assms, of 0 E cmd] Some
    by (auto simp: cmd_global_ns_get_params_def okay_iff)
qed (simp add: cmd_global_ns_get_params_def)


section \<open>Properties\<close>

definition demo_mailbox :: mempool_state where
  "demo_mailbox = \<lparr>mb_init = True, mb_start = 0x80000000, mb_size = 0x100000, mb_va = 0x40000000\<rparr>"

text \<open>
  C14: The range check of the mailbox is exact: once the mailbox is registered, an address and a size pass exactly when the address
  lies in the mailbox and the range ends in it, computed without wrap-around.
\<close>

theorem in_mailbox_range_exact:
  assumes "mb_init mb" "mailbox_wf mb"
  shows "in_mailbox_range mb a sz \<longleftrightarrow> unat (mb_start mb) \<le> unat a \<and> unat a < unat (mb_start mb) + unat (mb_size mb) \<and>
    unat a + unat sz \<le> unat (mb_start mb) + unat (mb_size mb)"
  using assms by (rule in_mailbox_range_iff)

theorem in_mailbox_range_exact_witness:
  "in_mailbox_range demo_mailbox 0x80000000 0x100000 \<and> \<not> in_mailbox_range demo_mailbox 0x80000001 0x100000 \<and>
   \<not> in_mailbox_range demo_mailbox 0xFFFFFFFFFFFFFFFF 0x80000002"
  using in_mailbox_range_exact[of demo_mailbox "0x80000000" "0x100000"] in_mailbox_range_exact[of demo_mailbox "0x80000001" "0x100000"]
    in_mailbox_range_exact[of demo_mailbox "0xFFFFFFFFFFFFFFFF" "0x80000002"]
  by (simp add: demo_mailbox_def mailbox_wf_def)

text \<open>
  C15: The mailbox is registered at most once.  Registering it always returns; the mailbox becomes valid exactly when the call
  reports success, and then it does not wrap around the address space and has the configured size; once it is valid, every
  further registration is refused and changes nothing.
\<close>

theorem register_mailbox_once:
  assumes "wf_services s" "cur_session_ok s"
  shows "\<exists>ret s'. register_mailbox E cmd s = Some (ret, s') \<and>
    (if mb_init (g_mb_state s) then ret = TEE_ERROR_ACCESS_DENIED \<and> s' = s
     else (mb_init (g_mb_state s') \<longleftrightarrow> ret = TEE_SUCCESS) \<and>
       (ret = TEE_SUCCESS \<longrightarrow> mailbox_wf (g_mb_state s') \<and> mb_size (g_mb_state s') = mailbox_size E))"
proof (cases "mb_init (g_mb_state s) \<or> cmd = None")
  case True
  then show ?thesis by (auto simp: register_mailbox_def register_mempool_def)
next
  case False
  obtain r ty p s1 where s1: "cmd_global_ns_get_params E cmd s = Some ((r, ty, p), s1)" "mem_step (\<lambda>_. True) s s1"
      "r = TEE_SUCCESS \<and> p \<noteq> 0 \<longrightarrow> g_gt_pam_node s1 \<noteq> None"
    using cmd_global_ns_get_params_step[OF assms, of E cmd] by (auto simp: okay_iff)
  have nowrap: "unat a + unat n < 2 ^ 64" if "\<not> a > ADDR_MAX - ucast n" for a :: u64 and n :: u32
    using that unat_lt_u32[of n] unat_ADDR_MAX_minus[of n] by (simp add: word_less_nat_alt)
  show ?thesis
  proof (cases "r = TEE_SUCCESS \<and> p \<noteq> 0")
    case True
    then obtain n where "g_gt_pam_node s1 = Some n" using s1(3) by auto
    then show ?thesis
      using False s1(1) True nowrap mem_stepD(14)[OF s1(2)]
      by (auto simp: register_mailbox_def register_mempool_def gt_param_def Let_def ext_pair mailbox_wf_def split: option.splits)
  next
    case fail: False
    then show ?thesis
      using False s1(1) mem_stepD(14)[OF s1(2)] by (auto simp: register_mailbox_def register_mempool_def split: option.splits)
  qed
qed

theorem register_mailbox_once_witness:
  "wf_services boot_gtask \<and> cur_session_ok boot_gtask \<and>
   (\<exists>ret s'. register_mailbox calm_env (Some zero_cmd) boot_gtask = Some (ret, s') \<and> (mb_init (g_mb_state s') \<longleftrightarrow> ret = TEE_SUCCESS))"
proof -
  have "cur_session_ok boot_gtask" "\<not> mb_init (g_mb_state boot_gtask)" by (simp_all add: cur_session_ok_def boot_gtask_def)
  then show ?thesis
    using register_mailbox_once[OF wf_boot_gtask, of calm_env "Some zero_cmd"] wf_boot_gtask by auto
qed


text \<open>An environment in which the operation of every command is one reference to memory of the normal world.\<close>

definition memref_operation :: "u32 \<Rightarrow> u32 \<Rightarrow> tee_operation_gtask" where
  "memref_operation a n = \<lparr>op_p_type = 6, op_p = (\<lambda>_. \<lparr>tp_a = a, tp_b = n\<rparr>), op_p_h_addr = (\<lambda>_. 0)\<rparr>"

definition demo_mapped :: gtask where
  "demo_mapped = demo_open\<lparr>g_mb_state := demo_mailbox\<rparr>"

definition demo_node :: pam_node where
  "demo_node = \<lparr>n_op = memref_operation 0x80000100 64, n_param_type = True, n_p_for_ta = 0x70000000,
    n_vaddr_gt_tee = (\<lambda>i. if i = 0 then 0x60000000 else 0), n_vaddr_gt_ree = (\<lambda>i. if i = 0 then 0x40000100 else 0)\<rparr>"

lemma demo_node_ok: "params_ok demo_mailbox demo_node"
proof -
  have "in_mailbox demo_mailbox 0x40000100 64"
    unfolding in_mailbox_def by (intro exI[of _ "0x100"]) (simp add: demo_mailbox_def)
  then show ?thesis by (simp add: params_ok_def demo_node_def memref_operation_def)
qed




text \<open>
  Without the hypothesis of \<open>copy_back_confined\<close> the copy can leave the mailbox: here the application and the normal world
  both raise the size of the parameter between the two reads that are compared and the two reads that are used.
\<close>

definition racing_env :: env where
  "racing_env = calm_env\<lparr>env_val := \<lambda>h c. if length h < 2 then 64 else 0x200000\<rparr>"

lemma copy_back_double_fetch:
  "params_ok demo_mailbox demo_node \<and>
   (\<exists>e \<in> set (history (snd (copy_params_back_to_ree racing_env demo_node 0x40000000 boot_gtask))). \<not> copy_ok demo_mailbox e)"
proof -
  have "Copy_to_ree 0x40000100 0x60000000 0x200000 \<in>
      set (history (snd (copy_params_back_to_ree racing_env demo_node 0x40000000 boot_gtask)))"
    by (simp add: copy_params_back_to_ree_def upt_rec demo_node_def memref_operation_def TEE_PARAM_TYPE_GET_def racing_env_def calm_env_def
        boot_gtask_def notify_def ext_val_def get_index_memref_size_def copy_to_src_def memcpy_s_ok_def)
  moreover have "\<not> copy_ok demo_mailbox (Copy_to_ree 0x40000100 0x60000000 0x200000)"
    by (simp add: copy_ok_def in_mailbox_def demo_mailbox_def)
  ultimately show ?thesis using demo_node_ok by blast
qed

end
