(* ===== verification/Agent_Manager.thy ===== *)
theory Agent_Manager
  imports Mem_Manager
begin

text \<open>
  The agents of the global task, \<open>framework/gtask/src/manager/agent_manager.c\<close>: services of the normal world which
  applications lock, use through a shared buffer and unlock.  This theory has the registration and the locks;
  the handlers for requests to agents and their answers are not modelled.

  \<open>session->waiting_agent\<close> and \<open>agent->session_list\<close> are single list nodes: \<open>s_waiting_agent\<close> and \<open>a_session_list\<close> name
  the agent, or the session, on whose list the node is linked.  Linking a node twice, or unlinking one that is not linked,
  has no result.
\<close>

abbreviation (input) AGENT_MAX :: u32 where "AGENT_MAX \<equiv> 32"
abbreviation (input) AGENT_BUFF_SIZE :: u32 where "AGENT_BUFF_SIZE \<equiv> 4096"
abbreviation (input) BITS_PER_BYTE :: u32 where "BITS_PER_BYTE \<equiv> 8"
abbreviation (input) TEE_FS_AGENT_ID :: u32 where "TEE_FS_AGENT_ID \<equiv> 0x46536673"
abbreviation (input) TEE_MISC_AGENT_ID :: u32 where "TEE_MISC_AGENT_ID \<equiv> 0x4d495343"
abbreviation (input) TEE_SOCKET_AGENT_ID :: u32 where "TEE_SOCKET_AGENT_ID \<equiv> 0x69e85664"
abbreviation (input) TEE_SECLOAD_AGENT_ID :: u32 where "TEE_SECLOAD_AGENT_ID \<equiv> 0x4c4f4144"
abbreviation (input) TEE_VLTMM_AGENT_ID :: u32 where "TEE_VLTMM_AGENT_ID \<equiv> 0x564c544d"
abbreviation (input) TEE_RETURN_AGENT_BUFFER :: u32 where "TEE_RETURN_AGENT_BUFFER \<equiv> 0x99"
abbreviation (input) TEE_INVALID_AGENT :: u32 where "TEE_INVALID_AGENT \<equiv> 0x66"
abbreviation (input) TEE_AGENT_LOCK :: u32 where "TEE_AGENT_LOCK \<equiv> 0x33"
abbreviation (input) TA_GET_AGENT_BUFFER :: u32 where "TA_GET_AGENT_BUFFER \<equiv> 0x20"
abbreviation (input) TA_LOCK_ACK :: u32 where "TA_LOCK_ACK \<equiv> 0x29"
abbreviation (input) FS_LATE_INIT :: u32 where "FS_LATE_INIT \<equiv> 1"

section \<open>Linking and unlinking\<close>

definition link_waiting :: "addr \<Rightarrow> addr \<Rightarrow> gtask \<Rightarrow> gtask option" where
  "link_waiting x a s = do {
    y \<leftarrow> sessions s x;
    if s_waiting_agent y \<noteq> None then None
    else do {
      s \<leftarrow> upd_session x (\<lambda>y. y\<lparr>s_waiting_agent := Some a\<rparr>) s;
      upd_agent a (\<lambda>c. c\<lparr>a_waiting_sessions := a_waiting_sessions c @ [x]\<rparr>) s
    }
  }"

definition unlink_waiting :: "addr \<Rightarrow> gtask \<Rightarrow> gtask option" where
  "unlink_waiting x s = do {
    y \<leftarrow> sessions s x;
    a \<leftarrow> s_waiting_agent y;
    s \<leftarrow> upd_agent a (\<lambda>c. c\<lparr>a_waiting_sessions := remove1 x (a_waiting_sessions c)\<rparr>) s;
    upd_session x (\<lambda>y. y\<lparr>s_waiting_agent := None\<rparr>) s
  }"

definition link_locked :: "addr \<Rightarrow> addr \<Rightarrow> gtask \<Rightarrow> gtask option" where
  "link_locked a x s = do {
    c \<leftarrow> agents s a;
    if a_session_list c \<noteq> None then None
    else do {
      s \<leftarrow> upd_agent a (\<lambda>c. c\<lparr>a_session_list := Some x\<rparr>) s;
      upd_session x (\<lambda>y. y\<lparr>s_locked_agents := s_locked_agents y @ [a]\<rparr>) s
    }
  }"

definition unlink_locked :: "addr \<Rightarrow> gtask \<Rightarrow> gtask option" where
  "unlink_locked a s = do {
    c \<leftarrow> agents s a;
    x \<leftarrow> a_session_list c;
    s \<leftarrow> upd_session x (\<lambda>y. y\<lparr>s_locked_agents := remove1 a (s_locked_agents y)\<rparr>) s;
    upd_agent a (\<lambda>c. c\<lparr>a_session_list := None\<rparr>) s
  }"


section \<open>Looking up and registering agents\<close>

definition agent_manager_init :: "gtask \<Rightarrow> gtask" where
  "agent_manager_init s = s\<lparr>g_agent_head := [], g_agent_cnt := 0, svc_working := False, svc_pending := []\<rparr>"

definition is_system_agent :: "u32 \<Rightarrow> bool" where
  "is_system_agent agent_id \<longleftrightarrow> agent_id = TEE_FS_AGENT_ID \<or> agent_id = TEE_MISC_AGENT_ID \<or>
    agent_id = TEE_SOCKET_AGENT_ID \<or> agent_id = TEE_SECLOAD_AGENT_ID \<or> agent_id = TEE_VLTMM_AGENT_ID"

definition find_agent :: "gtask \<Rightarrow> u32 \<Rightarrow> ptr option" where
  "find_agent s agent_id = find_entry (agents s) (\<lambda>c. a_id c = agent_id) (g_agent_head s)"

definition add_agent_control :: "env \<Rightarrow> u32 \<Rightarrow> u64 \<Rightarrow> u32 \<Rightarrow> gtask \<Rightarrow> u32 \<times> gtask" where
  "add_agent_control E agent_id agent_buf_phys_addr agent_buf_size s = (
    let (m, s) = TEE_Malloc E s in
    case m of None \<Rightarrow> (TEE_ERROR_OUT_OF_MEMORY, s)
    | Some a \<Rightarrow> (TEE_SUCCESS, s\<lparr>
        g_agent_head := g_agent_head s @ [a],
        agents := (agents s)(a \<mapsto> \<lparr>a_id = agent_id, a_locked = False, a_buffer = 0, a_phys_buffer = agent_buf_phys_addr,
          a_size = agent_buf_size, a_locking_session = None, a_waiting_sessions = [], a_session_list = None\<rparr>),
        g_agent_cnt := g_agent_cnt s + 1\<rparr>))"

definition check_agent_param :: "env \<Rightarrow> smc_cmd option \<Rightarrow> gtask \<Rightarrow> ((u32 \<times> u64) \<times> gtask) option" where
  "check_agent_param E cmd s = (case cmd of None \<Rightarrow> Some ((TEE_ERROR_BAD_PARAMETERS, 0), s)
    | Some _ \<Rightarrow> do {
        ((ret, param_type, param), s) \<leftarrow> cmd_global_ns_get_params E cmd s;
        if ret \<noteq> TEE_SUCCESS then Some ((TEE_ERROR_GENERIC, param), s)
        else if TEE_PARAM_TYPE_GET param_type 0 \<noteq> TEE_PARAM_TYPE_VALUE_INPUT \<or>
            TEE_PARAM_TYPE_GET param_type 1 \<noteq> TEE_PARAM_TYPE_VALUE_INPUT then Some ((TEE_ERROR_BAD_PARAMETERS, param), s)
        else if param = 0 then Some ((TEE_ERROR_BAD_PARAMETERS, param), s)
        else Some ((TEE_SUCCESS, param), s)
      })"

text \<open>Telling an internal agent task about its buffer.\<close>

definition register_agent_buffer_to_task :: "env \<Rightarrow> u32 \<Rightarrow> u32 \<Rightarrow> gtask \<Rightarrow> gtask option" where
  "register_agent_buffer_to_task E agent_id dest_task_id s = do {
    e \<leftarrow> find_agent s agent_id;
    (case e of None \<Rightarrow> Some s
     | Some a \<Rightarrow> do {
        c \<leftarrow> agents s a;
        Some (snd (ext_ret E (Ipc_msg_snd TEE_TASK_REGISTER_AGENT dest_task_id (Msg_reg_agent agent_id (a_phys_buffer c) (a_size c))) s))
      })
  }"

definition task_adapt_register_agent :: "env \<Rightarrow> u32 \<Rightarrow> gtask \<Rightarrow> gtask option" where
  "task_adapt_register_agent E agent_id s = do {
    e \<leftarrow> find_entry (tasks s) (\<lambda>t. ti_is_agent t \<and> ti_agent_id t = agent_id) (g_task_list_head s);
    (case e of None \<Rightarrow> Some s
     | Some a \<Rightarrow> do {
        t \<leftarrow> tasks s a;
        if ti_register_agent_buffer_to_task t \<and> ti_task_id t \<noteq> INVALID_TASK_ID
        then register_agent_buffer_to_task E agent_id (ti_task_id t) s else Some s
      })
  }"

text \<open>The first argument is true when agents other than the system agents may register (\<open>CONFIG_REGISTER_OTHER_AGENT\<close>).\<close>

definition register_agent :: "bool \<Rightarrow> env \<Rightarrow> smc_cmd option \<Rightarrow> gtask \<Rightarrow> (u32 \<times> gtask) option" where
  "register_agent other E cmd s = (
    if g_agent_cnt s \<ge> AGENT_MAX then Some (TEE_ERROR_GENERIC, s)
    else do {
      ((ret, param), s) \<leftarrow> check_agent_param E cmd s;
      if ret \<noteq> TEE_SUCCESS then Some (ret, s)
      else do {
        c \<leftarrow> cmd;
        p0 \<leftarrow> gt_param s 0;
        p1 \<leftarrow> gt_param s 1;
        let agent_buf_phys_addr = paddr (tp_a p0) (tp_b p0);
        let agent_buf_size = tp_a p1;
        if \<not> in_mailbox_range (g_mb_state s) agent_buf_phys_addr agent_buf_size then Some (TEE_ERROR_BAD_PARAMETERS, s)
        else if \<not> other \<and> \<not> is_system_agent (c_agent_id c) then Some (TEE_ERROR_GENERIC, s)
        else if agent_buf_size < AGENT_BUFF_SIZE \<or> agent_buf_size > BITS_PER_BYTE * AGENT_BUFF_SIZE then Some (TEE_ERROR_GENERIC, s)
        else do {
          e \<leftarrow> find_agent s (c_agent_id c);
          if e \<noteq> None then Some (TEE_ERROR_GENERIC, s)
          else do {
            let (r, s) = add_agent_control E (c_agent_id c) agent_buf_phys_addr agent_buf_size s;
            if r \<noteq> TEE_SUCCESS then Some (TEE_ERROR_GENERIC, s)
            else do { s \<leftarrow> task_adapt_register_agent E (c_agent_id c) s; Some (TEE_SUCCESS, s) }
          }
        }
      }
    })"

definition tee_unblock_agent :: "env \<Rightarrow> ptr \<Rightarrow> u32 \<Rightarrow> gtask \<Rightarrow> gtask option" where
  "tee_unblock_agent E session cmd_id s = (case session of None \<Rightarrow> Some s
    | Some x \<Rightarrow> do {
        y \<leftarrow> sessions s x;
        (_, s) \<leftarrow> send_global2ta_msg E (zero_msg\<lparr>m_cmd_id := cmd_id\<rparr>) TA_LOCK_ACK (s_task_id y) None s;
        Some s
      })"

text \<open>The loop that unblocks the sessions waiting for an agent that goes away.\<close>

fun unblock_waiting :: "env \<Rightarrow> addr list \<Rightarrow> gtask \<Rightarrow> gtask option" where
  "unblock_waiting E [] s = Some s"
| "unblock_waiting E (x # xs) s = do {
    s \<leftarrow> tee_unblock_agent E (Some x) TEE_INVALID_AGENT s;
    s \<leftarrow> unlink_waiting x s;
    unblock_waiting E xs s
  }"

definition unregister_agent :: "env \<Rightarrow> smc_cmd option \<Rightarrow> gtask \<Rightarrow> (u32 \<times> gtask) option" where
  "unregister_agent E cmd s = (
    if g_agent_cnt s = 0 then Some (TEE_ERROR_GENERIC, s)
    else do {
      ((ret, param), s) \<leftarrow> check_agent_param E cmd s;
      if ret \<noteq> TEE_SUCCESS then Some (ret, s)
      else do {
        c \<leftarrow> cmd;
        if is_system_agent (c_agent_id c) then Some (TEE_ERROR_GENERIC, s)
        else do {
          e \<leftarrow> find_agent s (c_agent_id c);
          (case e of None \<Rightarrow> Some (TEE_SUCCESS, s)
           | Some a \<Rightarrow> do {
              control \<leftarrow> agents s a;
              if a_locked control then Some (TEE_ERROR_GENERIC, s)
              else do {
                s \<leftarrow> unblock_waiting E (a_waiting_sessions control) s;
                Some (TEE_SUCCESS, s\<lparr>g_agent_head := remove1 a (g_agent_head s), agents := (agents s)(a := None),
                  g_agent_cnt := g_agent_cnt s - 1\<rparr>)
              }
            })
        }
      }
    })"

definition tee_get_agent_buffer :: "gtask \<Rightarrow> u32 \<Rightarrow> (u32 \<times> (u64 \<times> u32) option) option" where
  "tee_get_agent_buffer s agent_id = do {
    e \<leftarrow> find_agent s agent_id;
    (case e of None \<Rightarrow> Some (TEE_ERROR_GENERIC, None)
     | Some a \<Rightarrow> do { c \<leftarrow> agents s a; Some (TEE_SUCCESS, Some (a_phys_buffer c, a_size c)) })
  }"


section \<open>Locks\<close>

text \<open>The search of a session in a list of waiting sessions reads every session before it.\<close>

fun already_waiting :: "gtask \<Rightarrow> addr \<Rightarrow> addr list \<Rightarrow> bool option" where
  "already_waiting s x [] = Some False"
| "already_waiting s x (w # ws) = (case sessions s w of None \<Rightarrow> None
    | Some _ \<Rightarrow> if w = x then Some True else already_waiting s x ws)"

definition add_waiting_session :: "addr \<Rightarrow> addr \<Rightarrow> gtask \<Rightarrow> gtask option" where
  "add_waiting_session x a s = do {
    c \<leftarrow> agents s a;
    b \<leftarrow> already_waiting s x (a_waiting_sessions c);
    if b then Some s else link_waiting x a s
  }"

definition tee_lock_agent :: "u32 \<Rightarrow> ptr \<Rightarrow> gtask \<Rightarrow> (u32 \<times> gtask) option" where
  "tee_lock_agent agent_id session s = (case session of None \<Rightarrow> Some (TEE_ERROR_BAD_PARAMETERS, s)
    | Some x \<Rightarrow> do {
        e \<leftarrow> find_agent s agent_id;
        (case e of None \<Rightarrow> Some (TEE_ERROR_GENERIC, s)
         | Some a \<Rightarrow> do {
            c \<leftarrow> agents s a;
            if a_locking_session c = Some x then Some (TEE_SUCCESS, s)
            else if a_locked c then do { s \<leftarrow> add_waiting_session x a s; Some (TEE_ERROR_BUSY, s) }
            else do {
              s \<leftarrow> upd_agent a (\<lambda>c. c\<lparr>a_locking_session := Some x, a_locked := True\<rparr>) s;
              s \<leftarrow> link_locked a x s;
              Some (TEE_SUCCESS, s)
            }
          })
      })"

definition tee_unlock_agent :: "env \<Rightarrow> ptr \<Rightarrow> u32 \<Rightarrow> gtask \<Rightarrow> gtask option" where
  "tee_unlock_agent E agent task_id s = (case agent of None \<Rightarrow> Some s
    | Some a \<Rightarrow> do {
        c \<leftarrow> agents s a;
        s \<leftarrow> upd_agent a (\<lambda>c. c\<lparr>a_locked := False, a_locking_session := None\<rparr>) s;
        s \<leftarrow> (if a_buffer c \<noteq> 0 then
            upd_agent a (\<lambda>c. c\<lparr>a_buffer := 0\<rparr>) (snd (ext_ret E (Task_unmap task_id (a_buffer c) (a_size c)) s))
          else Some s);
        (case a_waiting_sessions c of [] \<Rightarrow> Some s
         | x # _ \<Rightarrow> do {
            s \<leftarrow> unlink_waiting x s;
            (r, s) \<leftarrow> tee_lock_agent (a_id c) (Some x) s;
            tee_unblock_agent E (Some x) (if r \<noteq> TEE_SUCCESS then TEE_INVALID_AGENT else TEE_AGENT_LOCK) s
          })
      })"

text \<open>\<open>dlist_delete(&agent->session_list)\<close> followed by \<open>tee_unlock_agent\<close>, as both callers do.\<close>

definition release_agent :: "env \<Rightarrow> addr \<Rightarrow> u32 \<Rightarrow> gtask \<Rightarrow> gtask option" where
  "release_agent E a task_id s = do { s \<leftarrow> unlink_locked a s; tee_unlock_agent E (Some a) task_id s }"

text \<open>One iteration for every agent that is locked when the loop starts; each takes the first entry of the list.\<close>

fun unlock_agents_loop :: "env \<Rightarrow> nat \<Rightarrow> addr \<Rightarrow> gtask \<Rightarrow> gtask option" where
  "unlock_agents_loop E 0 x s = Some s"
| "unlock_agents_loop E (Suc n) x s = do {
    y \<leftarrow> sessions s x;
    (case s_locked_agents y of [] \<Rightarrow> None
     | a # _ \<Rightarrow> do { s \<leftarrow> release_agent E a (s_task_id y) s; unlock_agents_loop E n x s })
  }"

definition tee_unlock_agents :: "env \<Rightarrow> ptr \<Rightarrow> gtask \<Rightarrow> gtask option" where
  "tee_unlock_agents E session s = (case session of None \<Rightarrow> Some s
    | Some x \<Rightarrow> do { y \<leftarrow> sessions s x; unlock_agents_loop E (length (s_locked_agents y)) x s })"


section \<open>Requests of applications\<close>

definition process_lock_agent :: "env \<Rightarrow> u32 \<Rightarrow> u32 \<Rightarrow> ptr \<Rightarrow> gtask \<Rightarrow> (u32 \<times> gtask) option" where
  "process_lock_agent E agent_id task_id session s = do {
    allowed \<leftarrow> (if is_system_agent agent_id then check_system_agent_permission s task_id agent_id else Some True);
    if \<not> allowed then do { s \<leftarrow> tee_unblock_agent E session TEE_INVALID_AGENT s; Some (TEE_ERROR_BAD_PARAMETERS, s) }
    else do {
      (ret, s) \<leftarrow> tee_lock_agent agent_id session s;
      if ret = TEE_SUCCESS then do { s \<leftarrow> tee_unblock_agent E session TEE_AGENT_LOCK s; Some (ret, s) }
      else if ret \<noteq> TEE_ERROR_BUSY then do { s \<leftarrow> tee_unblock_agent E session TEE_INVALID_AGENT s; Some (ret, s) }
      else Some (ret, s)
    }
  }"

text \<open>
  The loop of \<open>process_unlock_agent\<close> over the sessions that wait for the agent.  It removes the session when it is the first
  one, and does nothing otherwise, so it need not end.
\<close>

partial_function (option) drop_waiting :: "addr \<Rightarrow> addr \<Rightarrow> gtask \<Rightarrow> gtask option" where
  "drop_waiting x a s = (case agents s a of None \<Rightarrow> None
    | Some c \<Rightarrow>
      if a_waiting_sessions c = [] then Some s
      else if hd (a_waiting_sessions c) = x
      then (case unlink_waiting x s of None \<Rightarrow> None | Some s' \<Rightarrow> drop_waiting x a s')
      else drop_waiting x a s)"

declare drop_waiting.simps [code]

definition process_unlock_agent :: "env \<Rightarrow> u32 \<Rightarrow> u32 \<Rightarrow> addr \<Rightarrow> gtask \<Rightarrow> (u32 \<times> gtask) option" where
  "process_unlock_agent E agent_id task_id x s = do {
    y \<leftarrow> sessions s x;
    e \<leftarrow> find_entry (agents s) (\<lambda>c. a_id c = agent_id) (s_locked_agents y);
    (case e of Some a \<Rightarrow> do {
        s \<leftarrow> release_agent E a task_id s;
        s \<leftarrow> tee_unblock_agent E (Some x) TEE_AGENT_LOCK s;
        Some (TEE_SUCCESS, s)
      }
     | None \<Rightarrow> do {
        e \<leftarrow> find_agent s agent_id;
        (case e of None \<Rightarrow> do { s \<leftarrow> tee_unblock_agent E (Some x) TEE_INVALID_AGENT s; Some (TEE_ERROR_GENERIC, s) }
         | Some a \<Rightarrow> do {
            s \<leftarrow> drop_waiting x a s;
            s \<leftarrow> tee_unblock_agent E (Some x) TEE_AGENT_LOCK s;
            Some (TEE_ERROR_GENERIC, s)
          })
      })
  }"

definition agent_buffer_error :: "env \<Rightarrow> u32 \<Rightarrow> gtask \<Rightarrow> (u32 \<times> gtask) option" where
  "agent_buffer_error E task_id s = do {
    (_, s) \<leftarrow> send_global2ta_msg E (zero_msg\<lparr>m_cmd_id := TEE_INVALID_AGENT\<rparr>) 0 task_id None s;
    Some (TEE_ERROR_GENERIC, s)
  }"

definition process_get_agent_buffer :: "env \<Rightarrow> u32 \<Rightarrow> u32 \<Rightarrow> addr \<Rightarrow> gtask \<Rightarrow> (u32 \<times> gtask) option" where
  "process_get_agent_buffer E agent_id task_id x s = do {
    e \<leftarrow> find_agent s agent_id;
    (case e of None \<Rightarrow> agent_buffer_error E task_id s
     | Some a \<Rightarrow> do {
        control \<leftarrow> agents s a;
        if \<not> (a_locked control \<and> a_locking_session control = Some x) then agent_buffer_error E task_id s
        else do {
          (ok, s) \<leftarrow> (if a_buffer control = 0 then
              (let ((rc, buffer), s) = ext_val E (Task_map_ns_phy_mem task_id (a_phys_buffer control) (a_size control)) s in
               if rc \<noteq> 0 then Some (False, s)
               else do { s \<leftarrow> upd_agent a (\<lambda>c. c\<lparr>a_buffer := buffer\<rparr>) s; Some (True, s) })
            else Some (True, s));
          if \<not> ok then agent_buffer_error E task_id s
          else do {
            control \<leftarrow> agents s a;
            send_global2ta_msg E (zero_msg\<lparr>m_session_context := a_buffer control, m_param_type := a_size control,
              m_cmd_id := TEE_RETURN_AGENT_BUFFER\<rparr>) TA_GET_AGENT_BUFFER task_id None s
          }
        }
      })
  }"

definition set_agent_status :: "u32 \<Rightarrow> addr \<Rightarrow> gtask \<Rightarrow> (u32 \<times> gtask) option" where
  "set_agent_status agent_id x s = do {
    e \<leftarrow> find_agent s agent_id;
    (case e of None \<Rightarrow> Some (TEE_ERROR_GENERIC, s)
     | Some a \<Rightarrow> do {
        control \<leftarrow> agents s a;
        if \<not> a_locked control \<or> a_locking_session control \<noteq> Some x then Some (TEE_ERROR_GENERIC, s)
        else do { s \<leftarrow> upd_session x (\<lambda>y. y\<lparr>s_agent_pending := True\<rparr>) s; Some (TEE_SUCCESS, s) }
      })
  }"


section \<open>The service thread and late initialisation\<close>

definition agent_late_init :: "env \<Rightarrow> smc_cmd option \<Rightarrow> gtask \<Rightarrow> (u32 \<times> gtask) option" where
  "agent_late_init E cmd s = (case cmd of None \<Rightarrow> Some (TEE_ERROR_BAD_PARAMETERS, s)
    | Some _ \<Rightarrow> do {
        ((ret, param_type, param), s) \<leftarrow> cmd_global_ns_get_params E cmd s;
        if ret \<noteq> 0 then Some (TEE_ERROR_GENERIC, s)
        else if TEE_PARAM_TYPE_GET param_type 0 \<noteq> TEE_PARAM_TYPE_VALUE_INPUT then Some (TEE_ERROR_BAD_PARAMETERS, s)
        else if param = 0 then Some (TEE_ERROR_BAD_PARAMETERS, s)
        else do {
          p0 \<leftarrow> gt_param s 0;
          Some (TEE_SUCCESS, if tp_a p0 = FS_LATE_INIT then fs_agent_late_init s else s)
        }
      })"

definition set_service_thread_cmd :: "smc_cmd option \<Rightarrow> gtask \<Rightarrow> (u32 \<times> bool) \<times> gtask" where
  "set_service_thread_cmd cmd s = (case cmd of None \<Rightarrow> ((TEE_ERROR_BAD_PARAMETERS, False), s)
    | Some c \<Rightarrow> ((TEE_SUCCESS, True), s\<lparr>svc_cmd := c\<rparr>))"

definition get_service_thread_cmd :: "gtask \<Rightarrow> smc_cmd option \<times> gtask" where
  "get_service_thread_cmd s = (if svc_working s then (None, s) else (Some (svc_cmd s), s\<lparr>svc_working := True\<rparr>))"

definition service_thread_request_enqueue :: "env \<Rightarrow> u32 \<Rightarrow> gtask \<Rightarrow> u32 \<times> gtask" where
  "service_thread_request_enqueue E agent_id s = (
    let (m, s) = TEE_Malloc E s in
    case m of None \<Rightarrow> (TEE_ERROR_OUT_OF_MEMORY, s)
    | Some _ \<Rightarrow> (TEE_SUCCESS, s\<lparr>svc_pending := svc_pending s @ [agent_id]\<rparr>))"

definition service_thread_request_dequeue :: "smc_cmd \<Rightarrow> gtask \<Rightarrow> smc_cmd option \<times> gtask" where
  "service_thread_request_dequeue cmd s = (
    if c_event_nr cmd \<noteq> c_event_nr (svc_cmd s) then (None, s)
    else case svc_pending s of [] \<Rightarrow> (None, s\<lparr>svc_working := False\<rparr>)
    | agent_id # rest \<Rightarrow> (Some ((svc_cmd s)\<lparr>c_agent_id := agent_id\<rparr>), s\<lparr>svc_pending := rest\<rparr>))"


section \<open>The invariant of the locks\<close>

type_synonym agent_store = "addr \<Rightarrow> agent_control option"

definition holder :: "agent_store \<Rightarrow> addr \<Rightarrow> ptr" where
  "holder ag a = Option.bind (ag a) a_locking_session"

definition waiters :: "agent_store \<Rightarrow> addr \<Rightarrow> addr list" where
  "waiters ag a = (case ag a of None \<Rightarrow> [] | Some c \<Rightarrow> a_waiting_sessions c)"

definition locked_by :: "sess_store \<Rightarrow> addr \<Rightarrow> addr list" where
  "locked_by sess x = (case sess x of None \<Rightarrow> [] | Some y \<Rightarrow> s_locked_agents y)"

definition waits_for :: "sess_store \<Rightarrow> addr \<Rightarrow> ptr" where
  "waits_for sess x = Option.bind (sess x) s_waiting_agent"

lemma lock_views_upd [simp]:
  "holder (ag(a \<mapsto> c)) = (holder ag)(a := a_locking_session c)"
  "waiters (ag(a \<mapsto> c)) = (waiters ag)(a := a_waiting_sessions c)"
  "locked_by (sess(x \<mapsto> y)) = (locked_by sess)(x := s_locked_agents y)"
  "waits_for (sess(x \<mapsto> y)) = (waits_for sess)(x := s_waiting_agent y)"
  "holder (ag(a := None)) = (holder ag)(a := None)" "waiters (ag(a := None)) = (waiters ag)(a := [])"
  "locked_by (sess(x := None)) = (locked_by sess)(x := [])" "waits_for (sess(x := None)) = (waits_for sess)(x := None)"
  by (auto simp: holder_def waiters_def locked_by_def waits_for_def fun_eq_iff)

lemma lock_views_Some:
  "ag a = Some c \<Longrightarrow> holder ag a = a_locking_session c" "ag a = Some c \<Longrightarrow> waiters ag a = a_waiting_sessions c"
  "sess x = Some y \<Longrightarrow> locked_by sess x = s_locked_agents y" "sess x = Some y \<Longrightarrow> waits_for sess x = s_waiting_agent y"
  by (simp_all add: holder_def waiters_def locked_by_def waits_for_def)

text \<open>
  An agent is held by at most one session, the one on whose list of locked agents it is; a session waits for at most one agent,
  the one on whose list of waiting sessions it is; nobody waits for a free agent, and nobody for an agent it holds.
\<close>

definition wf_lock_views :: "(addr \<Rightarrow> ptr) \<Rightarrow> (addr \<Rightarrow> addr list) \<Rightarrow> (addr \<Rightarrow> addr list) \<Rightarrow> (addr \<Rightarrow> ptr) \<Rightarrow> bool" where
  "wf_lock_views h q l w \<longleftrightarrow>
    (\<forall>a x. a \<in> set (l x) \<longleftrightarrow> h a = Some x) \<and> (\<forall>x. distinct (l x)) \<and>
    (\<forall>a x. x \<in> set (q a) \<longleftrightarrow> w x = Some a) \<and> (\<forall>a. distinct (q a)) \<and>
    (\<forall>a. h a = None \<longrightarrow> q a = []) \<and> (\<forall>a x. h a = Some x \<longrightarrow> x \<notin> set (q a))"

definition wf_locks :: "agent_store \<Rightarrow> sess_store \<Rightarrow> bool" where
  "wf_locks ag sess \<longleftrightarrow> wf_lock_views (holder ag) (waiters ag) (locked_by sess) (waits_for sess) \<and>
    (\<forall>a c. ag a = Some c \<longrightarrow> (a_locked c \<longleftrightarrow> a_locking_session c \<noteq> None) \<and> a_session_list c = a_locking_session c)"

definition wf_agent_list :: "addr list \<Rightarrow> agent_store \<Rightarrow> u32 \<Rightarrow> bool" where
  "wf_agent_list head ag cnt \<longleftrightarrow> distinct head \<and> (\<forall>a. a \<in> set head \<longleftrightarrow> ag a \<noteq> None) \<and>
    (\<forall>a b c d. ag a = Some c \<longrightarrow> ag b = Some d \<longrightarrow> a_id c = a_id d \<longrightarrow> a = b) \<and>
    unat cnt = length head \<and> length head \<le> 32"

definition wf_agents :: "gtask \<Rightarrow> bool" where
  "wf_agents s \<longleftrightarrow> wf_agent_list (g_agent_head s) (agents s) (g_agent_cnt s) \<and> wf_locks (agents s) (sessions s)"

lemma wf_agents_notify [simp]: "wf_agents (notify c s) = wf_agents s"
  by (simp add: wf_agents_def)

lemma wf_agents_quiet: "quiet s s' \<Longrightarrow> wf_agents s' = wf_agents s"
  by (simp add: wf_agents_def quietD)

lemma wf_services_quiet: "quiet s s' \<Longrightarrow> wf_services s' = wf_services s"
  by (simp add: wf_services_def quietD)

lemma wf_viewsD:
  assumes "wf_locks ag sess"
  shows "a \<in> set (locked_by sess x) \<longleftrightarrow> holder ag a = Some x" "x \<in> set (waiters ag a) \<longleftrightarrow> waits_for sess x = Some a"
    "holder ag a = None \<Longrightarrow> waiters ag a = []" "holder ag a = Some x \<Longrightarrow> x \<notin> set (waiters ag a)"
    "distinct (locked_by sess x)" "distinct (waiters ag a)"
proof -
  have "wf_lock_views (holder ag) (waiters ag) (locked_by sess) (waits_for sess)" using assms by (simp add: wf_locks_def)
  note all = this[unfolded wf_lock_views_def]
  show "a \<in> set (locked_by sess x) \<longleftrightarrow> holder ag a = Some x" by (rule all[THEN conjunct1, rule_format])
  show "x \<in> set (waiters ag a) \<longleftrightarrow> waits_for sess x = Some a"
    by (rule all[THEN conjunct2, THEN conjunct2, THEN conjunct1, rule_format])
  show "holder ag a = None \<Longrightarrow> waiters ag a = []" using all by blast
  show "holder ag a = Some x \<Longrightarrow> x \<notin> set (waiters ag a)"
    by (rule all[THEN conjunct2, THEN conjunct2, THEN conjunct2, THEN conjunct2, THEN conjunct2, rule_format])
  show "distinct (locked_by sess x)" "distinct (waiters ag a)" using all by blast+
qed

lemma wf_locks_holderD:
  assumes "wf_locks ag sess" "ag a = Some c" "a_locking_session c = Some x"
  obtains y where "sess x = Some y" "a \<in> set (s_locked_agents y)" "a_session_list c = Some x" "a_locked c"
proof -
  have "a \<in> set (locked_by sess x)"
    using wf_viewsD(1)[OF assms(1), of a x] lock_views_Some(1)[of ag, OF assms(2)] assms(3) by simp
  then obtain y where "sess x = Some y" "a \<in> set (s_locked_agents y)" by (cases "sess x") (auto simp: locked_by_def)
  then show thesis using that assms by (auto simp: wf_locks_def)
qed

lemma wf_locks_waiterD:
  assumes "wf_locks ag sess" "ag a = Some c" "x \<in> set (a_waiting_sessions c)"
  obtains y where "sess x = Some y" "s_waiting_agent y = Some a"
proof -
  have "waits_for sess x = Some a"
    using wf_viewsD(2)[OF assms(1), of x a] lock_views_Some(2)[of ag, OF assms(2)] assms(3) by simp
  then show thesis using that by (cases "sess x") (auto simp: waits_for_def)
qed

lemma wf_locks_lockedD:
  assumes "wf_locks ag sess" "sess x = Some y" "a \<in> set (s_locked_agents y)"
  obtains c where "ag a = Some c" "a_locking_session c = Some x"
proof -
  have "holder ag a = Some x"
    using wf_viewsD(1)[OF assms(1), of a x] lock_views_Some(3)[of sess, OF assms(2)] assms(3) by simp
  then show thesis using that by (cases "ag a") (auto simp: holder_def)
qed

lemma wf_locks_sess_cong:
  assumes "\<And>x. map_option s_locked_agents (sess' x) = map_option s_locked_agents (sess x)"
    "\<And>x. map_option s_waiting_agent (sess' x) = map_option s_waiting_agent (sess x)"
  shows "wf_locks ag sess' = wf_locks ag sess"
proof -
  have "locked_by sess' x = locked_by sess x" "waits_for sess' x = waits_for sess x" for x
    using assms[of x] by (cases "sess x"; cases "sess' x"; simp add: locked_by_def waits_for_def)+
  then have "locked_by sess' = locked_by sess" "waits_for sess' = waits_for sess" by auto
  then show ?thesis by (simp add: wf_locks_def)
qed

text \<open>The lookup by id.\<close>

lemma find_agent_cases [consumes 1, case_names none some]:
  assumes wf: "wf_agents s"
  obtains "find_agent s i = Some None" "\<And>a c. agents s a = Some c \<Longrightarrow> a_id c \<noteq> i"
  | a c where "find_agent s i = Some (Some a)" "agents s a = Some c" "a_id c = i"
  unfolding find_agent_def
proof (rule find_entry_cases[where P = "\<lambda>c. a_id c = i" and as = "g_agent_head s" and h = "agents s"])
  assume 1: "find_entry (agents s) (\<lambda>c. a_id c = i) (g_agent_head s) = Some None"
    "\<And>a x. a \<in> set (g_agent_head s) \<Longrightarrow> agents s a = Some x \<Longrightarrow> a_id x \<noteq> i"
  then show thesis using wf by (intro that(1)) (auto simp: wf_agents_def wf_agent_list_def find_agent_def)
qed (use wf that(2) in \<open>auto simp: wf_agents_def wf_agent_list_def find_agent_def\<close>)

lemma find_agent_id:
  assumes wf: "wf_agents s" and a: "agents s a = Some c"
  shows "find_agent s (a_id c) = Some (Some a)"
  using wf
proof (cases rule: find_agent_cases[where i = "a_id c"])
  case none
  then show ?thesis using a by auto
next
  case (some b d)
  moreover have "b = a" using wf a some unfolding wf_agents_def wf_agent_list_def by blast
  ultimately show ?thesis by simp
qed


section \<open>Locking and unlocking\<close>

text \<open>Steps that change locks and the history only.\<close>

definition locks_erase :: "gtask \<Rightarrow> gtask" where
  "locks_erase s = s\<lparr>sessions := \<lambda>_. None, agents := \<lambda>_. None, history := []\<rparr>"

definition sess_rest :: "session_struct \<Rightarrow> session_struct" where
  "sess_rest y = y\<lparr>s_locked_agents := [], s_waiting_agent := None\<rparr>"

definition agent_rest :: "agent_control \<Rightarrow> u32 \<times> u64 \<times> u32" where
  "agent_rest c = (a_id c, a_phys_buffer c, a_size c)"

definition lock_step :: "gtask \<Rightarrow> gtask \<Rightarrow> bool" where
  "lock_step s s' \<longleftrightarrow> locks_erase s' = locks_erase s \<and> (\<forall>x. map_option sess_rest (sessions s' x) = map_option sess_rest (sessions s x)) \<and>
    (\<forall>a. map_option agent_rest (agents s' a) = map_option agent_rest (agents s a))"

lemma lock_step_refl [simp]: "lock_step s s"
  by (simp add: lock_step_def)

lemma lock_step_trans: "lock_step s s' \<Longrightarrow> lock_step s' s'' \<Longrightarrow> lock_step s s''"
  by (simp add: lock_step_def)

lemma lock_step_quiet: "quiet s s' \<Longrightarrow> lock_step s s'"
  by (auto simp: lock_step_def quiet_def locks_erase_def)

lemma lock_step_notify [simp]: "lock_step s (notify c s') = lock_step s s'"
  by (simp add: lock_step_def notify_def locks_erase_def)

lemma lock_stepD:
  assumes "lock_step s s'"
  shows "g_service_head s' = g_service_head s" "services s' = services s" "g_cur_service s' = g_cur_service s"
    "g_cur_session s' = g_cur_session s" "g_service_index_map s' = g_service_index_map s" "g_cur_index s' = g_cur_index s"
    "g_agent_head s' = g_agent_head s" "g_agent_cnt s' = g_agent_cnt s" "tasks s' = tasks s" "g_mb_state s' = g_mb_state s"
    "smc s' = smc s" "g_task_list_head s' = g_task_list_head s" "g_task_list_num s' = g_task_list_num s"
proof -
  have "f (locks_erase s') = f (locks_erase s)" for f :: "gtask \<Rightarrow> 'b" using assms by (simp add: lock_step_def)
  from this[of g_service_head] this[of g_service_index_map] this[of g_agent_head] show
    "g_service_head s' = g_service_head s" "g_service_index_map s' = g_service_index_map s" "g_agent_head s' = g_agent_head s"
    by (simp_all add: locks_erase_def)
qed (use assms in \<open>auto simp: lock_step_def locks_erase_def dest: arg_cong[where f = services] arg_cong[where f = g_cur_service]
    arg_cong[where f = g_cur_session] arg_cong[where f = g_cur_index] arg_cong[where f = g_agent_cnt] arg_cong[where f = tasks]
    arg_cong[where f = g_mb_state] arg_cong[where f = smc] arg_cong[where f = g_task_list_head] arg_cong[where f = g_task_list_num]\<close>)

lemma lock_step_session:
  assumes "lock_step s s'" "sessions s x = Some y"
  obtains y' where "sessions s' x = Some y'" "sess_rest y' = sess_rest y"
proof -
  have "map_option sess_rest (sessions s' x) = Some (sess_rest y)" using assms by (simp add: lock_step_def)
  then show thesis using that by auto
qed

lemma sess_restD:
  assumes "sess_rest y' = sess_rest y"
  shows "s_task_id y' = s_task_id y" "s_session_id y' = s_session_id y" "s_pam_node y' = s_pam_node y"
    "s_child_ta_sess_head y' = s_child_ta_sess_head y" "s_child_ta_sess_list y' = s_child_ta_sess_list y"
    "s_agent_pending y' = s_agent_pending y" "s_ta2ta_from_taskid y' = s_ta2ta_from_taskid y" "s_map_mem y' = s_map_mem y"
  using assms by (auto simp: sess_rest_def dest: arg_cong[where f = s_task_id] arg_cong[where f = s_session_id] arg_cong[where f = s_pam_node]
      arg_cong[where f = s_child_ta_sess_head] arg_cong[where f = s_child_ta_sess_list] arg_cong[where f = s_agent_pending]
      arg_cong[where f = s_ta2ta_from_taskid] arg_cong[where f = s_map_mem])

lemma lock_step_wf_services:
  assumes "lock_step s s'"
  shows "wf_services s' = wf_services s"
proof -
  have "map_option s_session_id (sessions s' x) = map_option s_session_id (sessions s x)" for x
  proof (cases "sessions s x")
    case None
    then have "map_option sess_rest (sessions s' x) = None" using assms by (simp add: lock_step_def)
    then show ?thesis using None by simp
  next
    case (Some y)
    obtain y' where y': "sessions s' x = Some y'" "sess_rest y' = sess_rest y" by (rule lock_step_session[OF assms Some])
    then show ?thesis using Some sess_restD(2)[OF y'(2)] by simp
  qed
  then show ?thesis
    unfolding wf_services_def lock_stepD[OF assms] by (rule wf_svcs_sess_cong)
qed

lemma lock_step_linked:
  assumes "lock_step s s'"
  shows "linked s' = linked s"
proof -
  have "sessions s' x = None \<longleftrightarrow> sessions s x = None" for x
    using assms unfolding lock_step_def by (metis map_option_is_None)
  then show ?thesis by (simp add: linked_def lock_stepD[OF assms])
qed

lemma wf_agent_list_cong:
  assumes "\<And>a. map_option agent_rest (ag' a) = map_option agent_rest (ag a)"
  shows "wf_agent_list head ag' cnt = wf_agent_list head ag cnt"
proof -
  have ex: "ag' a = None \<longleftrightarrow> ag a = None" for a using assms[of a] by (cases "ag a"; cases "ag' a") auto
  have id: "map_option a_id (ag' a) = map_option a_id (ag a)" for a
    using assms[of a] by (cases "ag a"; cases "ag' a") (auto simp: agent_rest_def)
  have uniq: "(\<forall>a b c d. g a = Some c \<longrightarrow> g b = Some d \<longrightarrow> a_id c = a_id d \<longrightarrow> a = b) \<longleftrightarrow>
      (\<forall>a b i. map_option a_id (g a) = Some i \<longrightarrow> map_option a_id (g b) = Some i \<longrightarrow> a = b)" for g :: agent_store
    by (auto 0 3)
  show ?thesis unfolding wf_agent_list_def uniq id by (simp add: ex)
qed

lemma wf_agent_list_unique:
  assumes "wf_agent_list head ag cnt" "ag a = Some c" "ag b = Some d" "a_id c = a_id d"
  shows "a = b"
  using assms unfolding wf_agent_list_def by blast

lemma wf_agent_list_remove:
  assumes wf: "wf_agent_list head ag cnt" and a: "ag a = Some c"
  shows "wf_agent_list (remove1 a head) (ag(a := None)) (cnt - 1)"
proof -
  have mem: "a \<in> set head" using wf a by (simp add: wf_agent_list_def)
  have n: "unat cnt = length head" using wf by (simp add: wf_agent_list_def)
  have "0 < length head" by (rule length_pos_if_in_set[OF mem])
  then have "1 \<le> cnt" using n by (simp add: word_le_nat_alt Suc_le_eq)
  then have "unat (cnt - 1) = length head - 1" using n by (simp add: unat_sub)
  then show ?thesis
    using wf mem by (auto simp: wf_agent_list_def length_remove1)
qed

lemma wf_agents_step:
  assumes "wf_agents s" "lock_step s s'" "wf_locks (agents s') (sessions s')"
  shows "wf_agents s'"
proof -
  have "map_option agent_rest (agents s' a) = map_option agent_rest (agents s a)" for a using assms(2) by (simp add: lock_step_def)
  from wf_agent_list_cong[of "agents s'" "agents s", OF this] show ?thesis
    using assms by (simp add: wf_agents_def lock_stepD[OF assms(2)])
qed

lemma send_global2ta_msgE:
  assumes "linked s"
  obtains r s' where "send_global2ta_msg E msg cmd t b s = Some (r, s')" "quiet s s'"
  using send_global2ta_msg_okay[OF assms, of E msg cmd t b] by (auto simp: okay_iff)

lemma tee_unblock_agent_okay:
  assumes "linked s" "sessions s x \<noteq> None"
  shows "okay (tee_unblock_agent E (Some x) i s) (quiet s)"
proof -
  obtain y where y: "sessions s x = Some y" using assms(2) by auto
  obtain r s' where "send_global2ta_msg E (zero_msg\<lparr>m_cmd_id := i\<rparr>) TA_LOCK_ACK (s_task_id y) None s = Some (r, s')" "quiet s s'"
    by (rule send_global2ta_msgE[OF assms(1)])
  then show ?thesis using y by (simp add: tee_unblock_agent_def)
qed

lemma find_agent_cong:
  assumes "\<And>a. map_option agent_rest (ag' a) = map_option agent_rest (ag a)"
  shows "find_entry ag' (\<lambda>c. a_id c = i) l = find_entry ag (\<lambda>c. a_id c = i) l"
proof (induction l)
  case (Cons a l)
  then show ?case using assms[of a] by (cases "ag a"; cases "ag' a") (auto simp: agent_rest_def)
qed simp

lemma find_agent_step: "lock_step s s' \<Longrightarrow> find_agent s' i = find_agent s i"
  unfolding find_agent_def lock_stepD(7) by (rule find_agent_cong) (simp add: lock_step_def)

text \<open>Releasing an agent gives it to the first session that waits for it.\<close>

definition handover :: "addr list \<Rightarrow> ptr" where
  "handover ws = (case ws of [] \<Rightarrow> None | w # _ \<Rightarrow> Some w)"

definition released :: "addr \<Rightarrow> addr \<Rightarrow> gtask \<Rightarrow> gtask \<Rightarrow> bool" where
  "released a x s s' \<longleftrightarrow> lock_step s s' \<and> wf_locks (agents s') (sessions s') \<and>
    holder (agents s') = (holder (agents s))(a := handover (waiters (agents s) a)) \<and>
    waiters (agents s') = (waiters (agents s))(a := tl (waiters (agents s) a)) \<and>
    locked_by (sessions s') x = remove1 a (locked_by (sessions s) x)"

lemma views_free:
  assumes "wf_lock_views h q l w" "h a = Some x" "q a = []"
  shows "wf_lock_views (h(a := None)) (q(a := [])) (l(x := remove1 a (l x))) w"
proof -
  have "y \<in> set (q a) \<longleftrightarrow> w y = Some a" for y using assms(1) unfolding wf_lock_views_def by blast
  then have "w y \<noteq> Some a" for y using assms(3) by simp
  then show ?thesis using assms unfolding wf_lock_views_def by auto
qed

lemma views_handover:
  assumes "wf_lock_views h q l w" "h a = Some x" "q a = z # zs"
  shows "wf_lock_views (h(a := Some z)) (q(a := zs)) ((l(x := remove1 a (l x)))(z := l z @ [a])) (w(z := None))"
proof -
  note all = assms(1)[unfolded wf_lock_views_def]
  have L: "b \<in> set (l y) \<longleftrightarrow> h b = Some y" and Q: "y \<in> set (q b) \<longleftrightarrow> w y = Some b" for b y
    using all by blast+
  have d: "distinct (l y)" "distinct (q b)" for b y using all by blast+
  have z: "z \<noteq> x" "w z = Some a" "h b \<noteq> Some z \<or> b \<noteq> a" for b
    using all assms(2,3) Q[of z a] by auto
  have zs: "z \<notin> set zs" "distinct zs" "y \<in> set zs \<longleftrightarrow> w y = Some a \<and> y \<noteq> z" for y
    using d(2)[of a] Q[of y a] assms(3) by auto
  show ?thesis
    unfolding wf_lock_views_def
  proof (intro conjI allI impI)
    show "b \<in> set (((l(x := remove1 a (l x)))(z := l z @ [a])) y) \<longleftrightarrow> (h(a := Some z)) b = Some y" for b y
      using L[of b y] L[of b x] L[of b z] d(1)[of x] z assms(2) by auto
    show "distinct (((l(x := remove1 a (l x)))(z := l z @ [a])) y)" for y
      using d(1) L[of a z] z assms(2) by auto
    show "y \<in> set ((q(a := zs)) b) \<longleftrightarrow> (w(z := None)) y = Some b" for b y
      using Q[of y b] zs(3)[of y] z(2) by auto
    show "distinct ((q(a := zs)) b)" for b using d(2) zs(2) by auto
    show "(q(a := zs)) b = []" if "(h(a := Some z)) b = None" for b
      using that all by (auto split: if_splits)
    show "y \<notin> set ((q(a := zs)) b)" if "(h(a := Some z)) b = Some y" for b y
      using that all zs(1) by (auto split: if_splits)
  qed
qed

lemma released_free:
  assumes wf: "wf_locks (agents s) (sessions s)" and c: "agents s a = Some c" "a_locking_session c = Some x"
    and ws: "a_waiting_sessions c = []" and y: "sessions s x = Some y"
    and c': "a_locked c' = False" "a_locking_session c' = None" "a_session_list c' = None" "a_waiting_sessions c' = []"
      "agent_rest c' = agent_rest c"
    and s': "sessions s' = (sessions s)(x \<mapsto> y\<lparr>s_locked_agents := remove1 a (s_locked_agents y)\<rparr>)" "agents s' = (agents s)(a \<mapsto> c')"
      "locks_erase s' = locks_erase s"
  shows "released a x s s'"
proof -
  have v: "holder (agents s) a = Some x" "waiters (agents s) a = []" "locked_by (sessions s) x = s_locked_agents y"
    using c ws y by (simp_all add: lock_views_Some)
  have w: "(waits_for (sessions s))(x := s_waiting_agent y) = waits_for (sessions s)"
    using y by (auto simp: lock_views_Some)
  have "wf_lock_views ((holder (agents s))(a := None)) ((waiters (agents s))(a := []))
      ((locked_by (sessions s))(x := remove1 a (locked_by (sessions s) x))) (waits_for (sessions s))"
    using wf v by (intro views_free) (simp_all add: wf_locks_def)
  then have views: "wf_lock_views ((holder (agents s))(a := None)) ((waiters (agents s))(a := []))
      ((locked_by (sessions s))(x := remove1 a (s_locked_agents y))) ((waits_for (sessions s))(x := s_waiting_agent y))"
    by (simp add: v(3) w)
  show ?thesis
    unfolding released_def using wf c y c' v views
    by (auto simp: s' lock_step_def sess_rest_def wf_locks_def handover_def)
qed

lemma released_handover:
  assumes wf: "wf_locks (agents s) (sessions s)" and c: "agents s a = Some c" "a_locking_session c = Some x"
    and ws: "a_waiting_sessions c = z # zs" and y: "sessions s x = Some y" "sessions s z = Some yz"
    and c': "a_locked c'" "a_locking_session c' = Some z" "a_session_list c' = Some z" "a_waiting_sessions c' = zs"
      "agent_rest c' = agent_rest c"
    and s': "sessions s' = ((sessions s)(x \<mapsto> y\<lparr>s_locked_agents := remove1 a (s_locked_agents y)\<rparr>))
        (z \<mapsto> yz\<lparr>s_waiting_agent := None, s_locked_agents := s_locked_agents yz @ [a]\<rparr>)" "agents s' = (agents s)(a \<mapsto> c')"
      "locks_erase s' = locks_erase s"
  shows "released a x s s'"
proof -
  have v: "holder (agents s) a = Some x" "waiters (agents s) a = z # zs" "locked_by (sessions s) x = s_locked_agents y"
      "locked_by (sessions s) z = s_locked_agents yz" "waits_for (sessions s) x = s_waiting_agent y"
    using c ws y by (simp_all add: lock_views_Some)
  have "z \<noteq> x" using wf_viewsD(4)[OF wf v(1)] v(2) by auto
  have w: "((waits_for (sessions s))(x := s_waiting_agent y))(z := None) = (waits_for (sessions s))(z := None)"
    using v(5) by (auto simp: fun_eq_iff)
  have "wf_lock_views ((holder (agents s))(a := Some z)) ((waiters (agents s))(a := zs))
      (((locked_by (sessions s))(x := remove1 a (locked_by (sessions s) x)))(z := locked_by (sessions s) z @ [a]))
      ((waits_for (sessions s))(z := None))"
    using wf v by (intro views_handover) (simp_all add: wf_locks_def)
  then have views: "wf_lock_views ((holder (agents s))(a := Some z)) ((waiters (agents s))(a := zs))
      (((locked_by (sessions s))(x := remove1 a (s_locked_agents y)))(z := s_locked_agents yz @ [a]))
      (((waits_for (sessions s))(x := s_waiting_agent y))(z := None))"
    by (simp add: v(3,4) w)
  show ?thesis
    unfolding released_def using wf c y c' v views \<open>z \<noteq> x\<close>
    by (auto simp: s' lock_step_def sess_rest_def wf_locks_def handover_def)
qed

text \<open>The part of \<open>tee_unlock_agent\<close> before it looks at the waiting sessions.\<close>

definition unlocked :: "agent_control \<Rightarrow> agent_control" where
  "unlocked c = (if a_buffer c \<noteq> 0 then c\<lparr>a_locked := False, a_locking_session := None, a_buffer := 0\<rparr>
    else c\<lparr>a_locked := False, a_locking_session := None\<rparr>)"

lemma unlocked_simps [simp]:
  "a_locked (unlocked c) = False" "a_locking_session (unlocked c) = None" "a_session_list (unlocked c) = a_session_list c"
  "a_waiting_sessions (unlocked c) = a_waiting_sessions c" "agent_rest (unlocked c) = agent_rest c" "a_id (unlocked c) = a_id c"
  by (simp_all add: unlocked_def agent_rest_def)

lemma tee_unlock_agent_eq:
  assumes "agents s a = Some c"
  shows "\<exists>h. tee_unlock_agent E (Some a) t s = (
    let s = s\<lparr>history := h, agents := (agents s)(a \<mapsto> unlocked c)\<rparr> in
    case a_waiting_sessions c of [] \<Rightarrow> Some s
    | x # _ \<Rightarrow> do {
        s \<leftarrow> unlink_waiting x s;
        (r, s) \<leftarrow> tee_lock_agent (a_id c) (Some x) s;
        tee_unblock_agent E (Some x) (if r \<noteq> TEE_SUCCESS then TEE_INVALID_AGENT else TEE_AGENT_LOCK) s
      })"
proof (cases "a_buffer c = 0")
  case True
  then show ?thesis
    using assms True by (intro exI[of _ "history s"]) (simp add: tee_unlock_agent_def unlocked_def Let_def)
next
  case False
  then show ?thesis
    using assms False by (intro exI[of _ "Task_unmap t (a_buffer c) (a_size c) # history s"])
      (simp add: tee_unlock_agent_def unlocked_def notify_def Let_def)
qed

lemma release_agent_okay:
  assumes wf: "linked s" "wf_agents s" and c: "agents s a = Some c" "a_locking_session c = Some x"
  shows "okay (release_agent E a t s) (released a x s)"
proof -
  have wl: "wf_locks (agents s) (sessions s)" using wf(2) by (simp add: wf_agents_def)
  obtain y where y: "sessions s x = Some y" "a_session_list c = Some x" "a_locked c" by (rule wf_locks_holderD[OF wl c])
  define y1 where "y1 = y\<lparr>s_locked_agents := remove1 a (s_locked_agents y)\<rparr>"
  define c3 where "c3 = unlocked (c\<lparr>a_session_list := None\<rparr>)"
  have c3: "a_waiting_sessions c3 = a_waiting_sessions c" "agent_rest c3 = agent_rest c" "a_locked c3 = False"
      "a_locking_session c3 = None" "a_session_list c3 = None"
    by (simp_all add: c3_def) (simp add: agent_rest_def)
  have u1: "unlink_locked a s = Some (s\<lparr>sessions := (sessions s)(x \<mapsto> y1), agents := (agents s)(a \<mapsto> c\<lparr>a_session_list := None\<rparr>)\<rparr>)"
    using c y by (simp add: unlink_locked_def y1_def)
  define s1 where "s1 = s\<lparr>sessions := (sessions s)(x \<mapsto> y1), agents := (agents s)(a \<mapsto> c\<lparr>a_session_list := None\<rparr>)\<rparr>"
  have id: "a_id (c\<lparr>a_session_list := None\<rparr>) = a_id c" "a_waiting_sessions (c\<lparr>a_session_list := None\<rparr>) = a_waiting_sessions c" by simp_all
  have "agents s1 a = Some (c\<lparr>a_session_list := None\<rparr>)" by (simp add: s1_def)
  from tee_unlock_agent_eq[OF this, of E t, unfolded id] obtain h where h: "tee_unlock_agent E (Some a) t s1 = (
      let s = s1\<lparr>history := h, agents := (agents s1)(a \<mapsto> c3)\<rparr> in
      case a_waiting_sessions c of [] \<Rightarrow> Some s
      | z # _ \<Rightarrow> do {
          s \<leftarrow> unlink_waiting z s;
          (r, s) \<leftarrow> tee_lock_agent (a_id c) (Some z) s;
          tee_unblock_agent E (Some z) (if r \<noteq> TEE_SUCCESS then TEE_INVALID_AGENT else TEE_AGENT_LOCK) s
        })"
    unfolding c3_def by blast
  define s3 where "s3 = s1\<lparr>history := h, agents := (agents s1)(a \<mapsto> c3)\<rparr>"
  have s3: "sessions s3 = (sessions s)(x \<mapsto> y1)" "agents s3 = (agents s)(a \<mapsto> c3)" "locks_erase s3 = locks_erase s"
      "g_agent_head s3 = g_agent_head s"
    by (simp_all add: s3_def s1_def locks_erase_def)
  have step: "release_agent E a t s = (case a_waiting_sessions c of [] \<Rightarrow> Some s3
      | z # _ \<Rightarrow> do {
          s \<leftarrow> unlink_waiting z s3;
          (r, s) \<leftarrow> tee_lock_agent (a_id c) (Some z) s;
          tee_unblock_agent E (Some z) (if r \<noteq> TEE_SUCCESS then TEE_INVALID_AGENT else TEE_AGENT_LOCK) s
        })"
    using h u1 by (simp add: release_agent_def s1_def[symmetric] s3_def[symmetric] Let_def)
  show ?thesis
  proof (cases "a_waiting_sessions c")
    case Nil
    have "released a x s s3"
      using Nil c3 by (intro released_free[OF wl c Nil y(1)]) (simp_all add: s3 y1_def)
    then show ?thesis using step Nil by simp
  next
    case (Cons z zs)
    have z: "z \<noteq> x" using wf_viewsD(4)[OF wl, of a x] c Cons by (auto simp: lock_views_Some)
    obtain yz where yz: "sessions s z = Some yz" "s_waiting_agent yz = Some a"
      by (rule wf_locks_waiterD[OF wl c(1), of z]) (simp add: Cons)
    define c4 where "c4 = c3\<lparr>a_waiting_sessions := zs\<rparr>"
    define s4 where "s4 = s3\<lparr>sessions := (sessions s3)(z \<mapsto> yz\<lparr>s_waiting_agent := None\<rparr>), agents := (agents s3)(a \<mapsto> c4)\<rparr>"
    have c4: "a_waiting_sessions c4 = zs" "agent_rest c4 = agent_rest c" "a_locked c4 = False" "a_locking_session c4 = None"
        "a_session_list c4 = None"
      using c3 by (simp_all add: c4_def agent_rest_def)
    have u: "unlink_waiting z s3 = Some s4"
      using z yz c3(1) by (simp add: unlink_waiting_def s3 s4_def c4_def Cons)
    have "map_option agent_rest (agents s4 b) = map_option agent_rest (agents s b)" for b
      using c c4(2) by (simp add: s4_def s3)
    then have "find_agent s4 (a_id c) = find_agent s (a_id c)"
      unfolding find_agent_def by (subst find_agent_cong[of "agents s4" "agents s"]) (simp_all add: s4_def s3(4))
    then have f: "find_agent s4 (a_id c) = Some (Some a)" using find_agent_id[OF wf(2) c(1)] by simp
    have s4: "agents s4 a = Some c4" "sessions s4 z = Some (yz\<lparr>s_waiting_agent := None\<rparr>)" by (simp_all add: s4_def)
    define s5 where "s5 = s4\<lparr>agents := (agents s4)(a \<mapsto> c4\<lparr>a_locking_session := Some z, a_locked := True, a_session_list := Some z\<rparr>),
      sessions := (sessions s4)(z \<mapsto> yz\<lparr>s_waiting_agent := None, s_locked_agents := s_locked_agents yz @ [a]\<rparr>)\<rparr>"
    have l: "tee_lock_agent (a_id c) (Some z) s4 = Some (TEE_SUCCESS, s5)"
      using f s4 c4 by (simp add: tee_lock_agent_def s5_def link_locked_def)
    have r: "released a x s s5"
      using c4 by (intro released_handover[OF wl c Cons y(1) yz(1), where c' = "c4\<lparr>a_locking_session := Some z, a_locked := True, a_session_list := Some z\<rparr>"])
        (use s3(3) in \<open>simp_all add: agent_rest_def s5_def s4_def s3(1,2) y1_def locks_erase_def\<close>)
    then have st: "lock_step s s5" by (simp add: released_def)
    then have "linked s5" using wf(1) by (simp add: lock_step_linked)
    then obtain s6 where s6: "tee_unblock_agent E (Some z) TEE_AGENT_LOCK s5 = Some s6" "quiet s5 s6"
      using tee_unblock_agent_okay[of s5 z E TEE_AGENT_LOCK] by (auto simp: okay_iff s5_def)
    then have "released a x s s6"
      using r lock_step_trans[OF st lock_step_quiet[OF s6(2)]] by (simp add: released_def quietD[OF s6(2)])
    then show ?thesis using step Cons u l s6(1) by simp
  qed
qed


text \<open>Sessions may come and go while they neither hold nor wait for an agent.\<close>

lemma wf_agents_session_views:
  assumes "wf_agents s" "agents s' = agents s" "g_agent_head s' = g_agent_head s" "g_agent_cnt s' = g_agent_cnt s"
    "locked_by (sessions s') = locked_by (sessions s)" "waits_for (sessions s') = waits_for (sessions s)"
  shows "wf_agents s'"
  using assms by (simp add: wf_agents_def wf_locks_def)

lemma idle_session_views:
  assumes "locked_by sess x = []" "waits_for sess x = None" "s_locked_agents y = []" "s_waiting_agent y = None"
  shows "locked_by (sess(x := None)) = locked_by sess" "waits_for (sess(x := None)) = waits_for sess"
    "locked_by (sess(x \<mapsto> y)) = locked_by sess" "waits_for (sess(x \<mapsto> y)) = waits_for sess"
  using assms by auto

text \<open>Locking: the caller gets a free agent, keeps one it has, and queues for a taken one.\<close>

definition acquired :: "addr \<Rightarrow> addr \<Rightarrow> u32 \<Rightarrow> gtask \<Rightarrow> gtask \<Rightarrow> bool" where
  "acquired a x r s s' \<longleftrightarrow> lock_step s s' \<and> wf_locks (agents s') (sessions s') \<and>
    (case holder (agents s) a of
       None \<Rightarrow> r = TEE_SUCCESS \<and> holder (agents s') = (holder (agents s))(a \<mapsto> x) \<and> waiters (agents s') = waiters (agents s)
     | Some z \<Rightarrow> holder (agents s') = holder (agents s) \<and>
         (if z = x then r = TEE_SUCCESS \<and> waiters (agents s') = waiters (agents s)
          else r = TEE_ERROR_BUSY \<and> waiters (agents s') = (waiters (agents s))
            (a := if x \<in> set (waiters (agents s) a) then waiters (agents s) a else waiters (agents s) a @ [x])))"

lemma views_acquire:
  assumes "wf_lock_views h q l w" "h a = None"
  shows "wf_lock_views (h(a := Some x)) q (l(x := l x @ [a])) w"
proof -
  have L: "b \<in> set (l y) \<longleftrightarrow> h b = Some y" and Q: "y \<in> set (q b) \<longleftrightarrow> w y = Some b" for b y
    using assms(1) unfolding wf_lock_views_def by blast+
  have "q a = []" using assms unfolding wf_lock_views_def by blast
  moreover have "w y \<noteq> Some a" for y using Q[of y a] calculation by simp
  moreover have "a \<notin> set (l y)" for y using L[of a y] assms(2) by simp
  ultimately show ?thesis using assms unfolding wf_lock_views_def by auto
qed

lemma views_wait:
  assumes "wf_lock_views h q l w" "h a = Some z" "z \<noteq> x" "w x = None"
  shows "wf_lock_views h (q(a := q a @ [x])) l (w(x := Some a))"
proof -
  have Q: "y \<in> set (q b) \<longleftrightarrow> w y = Some b" for b y
    using assms(1) unfolding wf_lock_views_def by blast
  have "x \<notin> set (q b)" for b using Q[of x b] assms(4) by simp
  then show ?thesis using assms unfolding wf_lock_views_def by auto
qed

lemma already_waiting_wf:
  assumes "\<And>w. w \<in> set ws \<Longrightarrow> sessions s w \<noteq> None"
  shows "already_waiting s x ws = Some (x \<in> set ws)"
  using assms
proof (induction ws)
  case (Cons u ws)
  then obtain y where "sessions s u = Some y" by fastforce
  then show ?case using Cons by simp
qed simp

lemma tee_lock_agent_okay:
  assumes wf: "wf_agents s" and a: "agents s a = Some c" and x: "sessions s x = Some y"
    and w: "s_waiting_agent y = None \<or> s_waiting_agent y = Some a"
  shows "okay (tee_lock_agent (a_id c) (Some x) s) (\<lambda>(r, s'). acquired a x r s s')"
proof -
  have wl: "wf_locks (agents s) (sessions s)" using wf by (simp add: wf_agents_def)
  have v: "holder (agents s) a = a_locking_session c" "waiters (agents s) a = a_waiting_sessions c"
      "locked_by (sessions s) x = s_locked_agents y" "waits_for (sessions s) x = s_waiting_agent y"
    using a x by (simp_all add: lock_views_Some)
  have c: "a_locked c \<longleftrightarrow> a_locking_session c \<noteq> None" "a_session_list c = a_locking_session c" using wl a by (auto simp: wf_locks_def)
  have views: "wf_lock_views (holder (agents s)) (waiters (agents s)) (locked_by (sessions s)) (waits_for (sessions s))"
    using wl by (simp add: wf_locks_def)
  have same: "(waits_for (sessions s))(x := s_waiting_agent y) = waits_for (sessions s)"
      "(locked_by (sessions s))(x := s_locked_agents y) = locked_by (sessions s)"
      "(holder (agents s))(a := a_locking_session c) = holder (agents s)" "(waiters (agents s))(a := a_waiting_sessions c) = waiters (agents s)"
    using v by auto
  note f = find_agent_id[OF wf a]
  show ?thesis
  proof (cases "a_locking_session c")
    case None
    have "wf_lock_views ((holder (agents s))(a := Some x)) (waiters (agents s)) ((locked_by (sessions s))(x := s_locked_agents y @ [a])) (waits_for (sessions s))"
      using views_acquire[OF views, of a x] v None by simp
    then show ?thesis
      using f a x c None v wl
      by (auto simp: tee_lock_agent_def link_locked_def acquired_def lock_step_def locks_erase_def sess_rest_def agent_rest_def wf_locks_def same)
  next
    case (Some z)
    have hz: "(holder (agents s))(a \<mapsto> z) = holder (agents s)" using v Some by auto
    show ?thesis
    proof (cases "z = x")
      case True
      then show ?thesis using f a Some v wl by (simp add: tee_lock_agent_def acquired_def)
    next
      case zx: False
      have alive: "sessions s u \<noteq> None" if "u \<in> set (a_waiting_sessions c)" for u
        using wf_locks_waiterD[OF wl a that] by auto
      show ?thesis
      proof (cases "x \<in> set (a_waiting_sessions c)")
        case True
        then show ?thesis
          using f a Some zx c v wl alive by (simp add: tee_lock_agent_def add_waiting_session_def already_waiting_wf acquired_def same)
      next
        case False
        then have "waits_for (sessions s) x = None"
          using w wf_viewsD(2)[OF wl, of x a] v by auto
        moreover from this have "wf_lock_views (holder (agents s)) ((waiters (agents s))(a := a_waiting_sessions c @ [x])) (locked_by (sessions s))
            ((waits_for (sessions s))(x := Some a))"
          using views_wait[OF views, of a z x] v Some zx by simp
        ultimately show ?thesis
          using f a x Some zx c v wl alive False
          by (auto simp: tee_lock_agent_def add_waiting_session_def link_waiting_def already_waiting_wf acquired_def lock_step_def locks_erase_def
              sess_rest_def agent_rest_def wf_locks_def same hz)
      qed
    qed
  qed
qed

lemma released_wf: "wf_agents s \<Longrightarrow> released a x s s' \<Longrightarrow> wf_agents s'"
  using wf_agents_step[of s s'] by (auto simp: released_def)

lemma acquired_wf: "wf_agents s \<Longrightarrow> acquired a x r s s' \<Longrightarrow> wf_agents s'"
  using wf_agents_step[of s s'] by (auto simp: acquired_def)

text \<open>Unlocking everything a session holds hands over every one of its agents.\<close>

definition released_all :: "addr \<Rightarrow> gtask \<Rightarrow> gtask \<Rightarrow> bool" where
  "released_all x s s' \<longleftrightarrow> lock_step s s' \<and> wf_agents s' \<and> locked_by (sessions s') x = [] \<and>
    (\<forall>a. if holder (agents s) a = Some x
      then holder (agents s') a = handover (waiters (agents s) a) \<and> waiters (agents s') a = tl (waiters (agents s) a)
      else holder (agents s') a = holder (agents s) a \<and> waiters (agents s') a = waiters (agents s) a)"

lemma unlock_agents_loop_okay:
  assumes "linked s" "wf_agents s" "sessions s x = Some y" "length (s_locked_agents y) = n"
  shows "okay (unlock_agents_loop E n x s) (released_all x s)"
  using assms
proof (induction n arbitrary: s y)
  case 0
  then have "locked_by (sessions s) x = []" by (simp add: lock_views_Some)
  moreover from this have "holder (agents s) a \<noteq> Some x" for a
    using 0 wf_viewsD(1)[of "agents s" "sessions s" a x] by (simp add: wf_agents_def)
  ultimately show ?case using 0 by (simp add: released_all_def)
next
  case (Suc n)
  have wl: "wf_locks (agents s) (sessions s)" using Suc.prems(2) by (simp add: wf_agents_def)
  obtain a as where as: "s_locked_agents y = a # as" using Suc.prems(4) by (cases "s_locked_agents y") auto
  obtain c where c: "agents s a = Some c" "a_locking_session c = Some x"
    by (rule wf_locks_lockedD[OF wl Suc.prems(3), of a]) (simp add: as)
  obtain s1 where s1: "release_agent E a (s_task_id y) s = Some s1" "released a x s s1"
    using release_agent_okay[OF Suc.prems(1,2) c, of E "s_task_id y"] by (auto simp: okay_iff)
  then have st: "lock_step s s1" and l1: "locked_by (sessions s1) x = as"
    using as Suc.prems(3) by (simp_all add: released_def lock_views_Some)
  obtain y1 where y1: "sessions s1 x = Some y1" by (rule lock_step_session[OF st Suc.prems(3)])
  have "linked s1" using Suc.prems(1) st by (simp add: lock_step_linked)
  moreover have "length (s_locked_agents y1) = n" using l1 y1 Suc.prems(4) as by (simp add: lock_views_Some)
  ultimately obtain s2 where s2: "unlock_agents_loop E n x s1 = Some s2" "released_all x s1 s2"
    using Suc.IH[OF _ released_wf[OF Suc.prems(2) s1(2)] y1] by (auto simp: okay_iff)
  have ha: "holder (agents s) a = Some x" using c by (simp add: lock_views_Some)
  then have "handover (waiters (agents s) a) \<noteq> Some x"
    using wf_viewsD(4)[OF wl ha] by (auto simp: handover_def split: list.split)
  then have "released_all x s s2"
    using s2(2) s1(2) ha lock_step_trans[OF st, of s2] by (auto simp: released_all_def released_def)
  then show ?case using Suc.prems(3) as s1(1) s2(1) by simp
qed

lemma tee_unlock_agents_okay:
  assumes "linked s" "wf_agents s" "sessions s x = Some y"
  shows "okay (tee_unlock_agents E (Some x) s) (released_all x s)"
  using unlock_agents_loop_okay[OF assms refl, of E] assms(3) by (simp add: tee_unlock_agents_def)

text \<open>
  The loop of \<open>process_unlock_agent\<close> for an agent the session does not hold returns only when nobody else waits for
  the agent.
\<close>

lemma drop_waiting_stuck:
  assumes "drop_waiting x a s = Some s'" "waiters (agents s) a \<noteq> []"
  shows "hd (waiters (agents s) a) = x"
proof -
  have "waiters (agents s) a \<noteq> [] \<longrightarrow> hd (waiters (agents s) a) = x"
  proof (rule drop_waiting.raw_induct[of "\<lambda>x a s s'. waiters (agents s) a \<noteq> [] \<longrightarrow> hd (waiters (agents s) a) = x" "((x, a), s)" s',
        unfolded prod.case, OF _ assms(1)])
    fix f :: "addr \<Rightarrow> addr \<Rightarrow> gtask \<Rightarrow> gtask option" and x a s s'
    assume f: "\<And>x a s s'. f x a s = Some s' \<Longrightarrow> waiters (agents s) a \<noteq> [] \<longrightarrow> hd (waiters (agents s) a) = x"
      and body: "(case agents s a of None \<Rightarrow> None
        | Some c \<Rightarrow>
          if a_waiting_sessions c = [] then Some s
          else if hd (a_waiting_sessions c) = x then (case unlink_waiting x s of None \<Rightarrow> None | Some s' \<Rightarrow> f x a s')
          else f x a s) = Some s'"
    then obtain c where c: "agents s a = Some c" by (auto split: option.splits)
    then have "waiters (agents s) a = a_waiting_sessions c" by (simp add: lock_views_Some)
    then show "waiters (agents s) a \<noteq> [] \<longrightarrow> hd (waiters (agents s) a) = x"
      using body c f[of x a s s'] by (auto split: if_splits)
  qed
  then show ?thesis using assms(2) by blast
qed

text \<open>With distinct waiting sessions, the loop returns exactly when there is no other waiting session than \<open>x\<close>.\<close>

lemma drop_waiting_iff:
  assumes wf: "wf_agents s" and a: "agents s a = Some c"
  shows "drop_waiting x a s \<noteq> None \<longleftrightarrow> set (a_waiting_sessions c) \<subseteq> {x}"
proof (cases "a_waiting_sessions c")
  case Nil
  then show ?thesis using a by (simp add: drop_waiting.simps)
next
  case (Cons z zs)
  have wl: "wf_locks (agents s) (sessions s)" using wf by (simp add: wf_agents_def)
  have d: "z \<notin> set zs" using wf_viewsD(6)[OF wl, of a] a Cons by (simp add: lock_views_Some)
  show ?thesis
  proof (cases "z = x")
    case False
    then show ?thesis using drop_waiting_stuck[of x a s] a Cons by (cases "drop_waiting x a s") (auto simp: lock_views_Some)
  next
    case True
    obtain y where y: "sessions s x = Some y" "s_waiting_agent y = Some a"
      by (rule wf_locks_waiterD[OF wl a, of x]) (simp add: Cons True)
    define s1 where "s1 = s\<lparr>agents := (agents s)(a \<mapsto> c\<lparr>a_waiting_sessions := zs\<rparr>), sessions := (sessions s)(x \<mapsto> y\<lparr>s_waiting_agent := None\<rparr>)\<rparr>"
    have "unlink_waiting x s = Some s1" using y a Cons True by (simp add: unlink_waiting_def s1_def)
    then have step: "drop_waiting x a s = drop_waiting x a s1"
      using a Cons True by (subst drop_waiting.simps) simp
    have a1: "agents s1 a = Some (c\<lparr>a_waiting_sessions := zs\<rparr>)" by (simp add: s1_def)
    show ?thesis
    proof (cases zs)
      case Nil
      then show ?thesis using step a1 Cons True by (simp add: drop_waiting.simps[of x a s1])
    next
      case (Cons u us)
      then show ?thesis
        using step drop_waiting_stuck[of x a s1] a1 d True \<open>a_waiting_sessions c = z # zs\<close>
        by (cases "drop_waiting x a s1") (auto simp: lock_views_Some)
    qed
  qed
qed

text \<open>Leaving the queue of an agent.\<close>

lemma views_unwait:
  assumes "wf_lock_views h q l w" "w x = Some a"
  shows "wf_lock_views h (q(a := remove1 x (q a))) l (w(x := None))"
proof -
  have Q: "y \<in> set (q b) \<longleftrightarrow> w y = Some b" and d: "distinct (q b)" for b y
    using assms(1) unfolding wf_lock_views_def by blast+
  have "h b = None \<Longrightarrow> q b = []" for b using assms(1) unfolding wf_lock_views_def by blast
  then show ?thesis using assms Q d unfolding wf_lock_views_def by auto
qed

definition left_queue :: "addr \<Rightarrow> addr \<Rightarrow> gtask \<Rightarrow> gtask \<Rightarrow> bool" where
  "left_queue x a s s' \<longleftrightarrow> lock_step s s' \<and> wf_agents s' \<and> holder (agents s') = holder (agents s) \<and>
    waiters (agents s') = (waiters (agents s))(a := remove1 x (waiters (agents s) a)) \<and>
    locked_by (sessions s') = locked_by (sessions s) \<and> waits_for (sessions s') = (waits_for (sessions s))(x := None)"

lemma unlink_waiting_okay:
  assumes wf: "wf_agents s" and x: "sessions s x = Some y" "s_waiting_agent y = Some a"
  shows "okay (unlink_waiting x s) (left_queue x a s)"
proof -
  have wl: "wf_locks (agents s) (sessions s)" using wf by (simp add: wf_agents_def)
  have w: "waits_for (sessions s) x = Some a" using x by (simp add: lock_views_Some)
  then have "x \<in> set (waiters (agents s) a)" using wf_viewsD(2)[OF wl, of x a] by simp
  then obtain c where c: "agents s a = Some c" by (cases "agents s a") (auto simp: waiters_def)
  define s1 where "s1 = s\<lparr>agents := (agents s)(a \<mapsto> c\<lparr>a_waiting_sessions := remove1 x (a_waiting_sessions c)\<rparr>),
    sessions := (sessions s)(x \<mapsto> y\<lparr>s_waiting_agent := None\<rparr>)\<rparr>"
  have u: "unlink_waiting x s = Some s1" using x c by (simp add: unlink_waiting_def s1_def)
  have st: "lock_step s s1" using x c by (simp add: lock_step_def s1_def locks_erase_def sess_rest_def agent_rest_def)
  have v: "holder (agents s1) = holder (agents s)" "waiters (agents s1) = (waiters (agents s))(a := remove1 x (waiters (agents s) a))"
      "locked_by (sessions s1) = locked_by (sessions s)" "waits_for (sessions s1) = (waits_for (sessions s))(x := None)"
    using c x by (auto simp: s1_def lock_views_Some)
  have "wf_lock_views (holder (agents s1)) (waiters (agents s1)) (locked_by (sessions s1)) (waits_for (sessions s1))"
    unfolding v using wl w by (intro views_unwait) (simp_all add: wf_locks_def)
  moreover have "a_locked d = (a_locking_session d \<noteq> None) \<and> a_session_list d = a_locking_session d" if "agents s1 b = Some d" for b d
    using that wl c by (auto simp: s1_def wf_locks_def split: if_splits)
  ultimately have "wf_locks (agents s1) (sessions s1)" by (simp add: wf_locks_def)
  then show ?thesis using u st v wf_agents_step[OF wf st] by (simp add: left_queue_def)
qed

lemma drop_waiting_okay:
  assumes wf: "wf_agents s" and a: "agents s a = Some c" and ws: "set (a_waiting_sessions c) \<subseteq> {x}"
  shows "okay (drop_waiting x a s) (\<lambda>s'. lock_step s s' \<and> wf_agents s' \<and> holder (agents s') = holder (agents s) \<and>
    waiters (agents s') = (waiters (agents s))(a := []))"
proof -
  have wl: "wf_locks (agents s) (sessions s)" using wf by (simp add: wf_agents_def)
  have d: "distinct (a_waiting_sessions c)" using wf_viewsD(6)[OF wl, of a] a by (simp add: lock_views_Some)
  show ?thesis
  proof (cases "a_waiting_sessions c")
    case Nil
    then show ?thesis using a wf by (auto simp: drop_waiting.simps lock_views_Some)
  next
    case (Cons z zs)
    then have c: "a_waiting_sessions c = [x]" using ws d by (cases zs) auto
    obtain y where y: "sessions s x = Some y" "s_waiting_agent y = Some a"
      by (rule wf_locks_waiterD[OF wl a, of x]) (simp add: c)
    obtain s1 where s1: "unlink_waiting x s = Some s1" "left_queue x a s s1"
      using unlink_waiting_okay[OF wf y] by (auto simp: okay_iff)
    have q: "waiters (agents s1) a = []" using s1(2) a c by (simp add: left_queue_def lock_views_Some)
    have "map_option agent_rest (agents s1 a) = Some (agent_rest c)" using s1(2) a by (simp add: left_queue_def lock_step_def)
    then obtain c1 where "agents s1 a = Some c1" by auto
    then have "drop_waiting x a s1 = Some s1" using q by (simp add: drop_waiting.simps lock_views_Some)
    moreover have "drop_waiting x a s = drop_waiting x a s1" using a c s1(1) by (subst drop_waiting.simps) simp
    ultimately show ?thesis using s1(2) a c by (simp add: left_queue_def lock_views_Some)
  qed
qed

lemma find_locked_agent:
  assumes wf: "wf_agents s" and x: "sessions s x = Some y" and a: "agents s a = Some c"
  shows "find_entry (agents s) (\<lambda>d. a_id d = a_id c) (s_locked_agents y) = Some (if a_locking_session c = Some x then Some a else None)"
proof -
  have wl: "wf_locks (agents s) (sessions s)" using wf by (simp add: wf_agents_def)
  have mem: "a \<in> set (s_locked_agents y) \<longleftrightarrow> a_locking_session c = Some x"
    using wf_viewsD(1)[OF wl, of a x] x a by (simp add: lock_views_Some)
  have uniq: "b = a" if "agents s b = Some d" "a_id d = a_id c" for b d
    using wf a that unfolding wf_agents_def wf_agent_list_def by blast
  show ?thesis
  proof (rule find_entry_cases[where P = "\<lambda>d. a_id d = a_id c" and as = "s_locked_agents y" and h = "agents s"])
    show "agents s b \<noteq> None" if "b \<in> set (s_locked_agents y)" for b using wf_locks_lockedD[OF wl x that] by auto
  next
    assume "find_entry (agents s) (\<lambda>d. a_id d = a_id c) (s_locked_agents y) = Some None"
      "\<And>b d. b \<in> set (s_locked_agents y) \<Longrightarrow> agents s b = Some d \<Longrightarrow> a_id d \<noteq> a_id c"
    then show ?thesis using mem a by auto
  next
    fix b d
    assume "find_entry (agents s) (\<lambda>d. a_id d = a_id c) (s_locked_agents y) = Some (Some b)" "b \<in> set (s_locked_agents y)"
      "agents s b = Some d" "a_id d = a_id c"
    then show ?thesis using mem uniq by auto
  qed
qed

lemma process_unlock_agent_held:
  assumes wf: "linked s" "wf_agents s" and x: "sessions s x = Some y" and a: "agents s a = Some c" "a_locking_session c = Some x"
  shows "okay (process_unlock_agent E (a_id c) t x s) (\<lambda>(r, s'). r = TEE_SUCCESS \<and> released a x s s')"
proof -
  obtain s1 where s1: "release_agent E a t s = Some s1" "released a x s s1"
    using release_agent_okay[OF wf a, of E t] by (auto simp: okay_iff)
  then have st: "lock_step s s1" by (simp add: released_def)
  obtain y1 where "sessions s1 x = Some y1" by (rule lock_step_session[OF st x])
  then obtain s2 where s2: "tee_unblock_agent E (Some x) TEE_AGENT_LOCK s1 = Some s2" "quiet s1 s2"
    using tee_unblock_agent_okay[of s1 x E TEE_AGENT_LOCK] lock_step_linked[OF st] wf(1) by (auto simp: okay_iff)
  have "released a x s s2"
    using s1(2) lock_step_trans[OF st lock_step_quiet[OF s2(2)]] by (simp add: released_def quietD[OF s2(2)])
  then show ?thesis
    using x find_locked_agent[OF wf(2) x a(1)] a(2) s1(1) s2(1) by (simp add: process_unlock_agent_def)
qed

lemma process_unlock_agent_not_held:
  assumes wf: "linked s" "wf_agents s" and x: "sessions s x = Some y" and a: "agents s a = Some c" "a_locking_session c \<noteq> Some x"
  shows "process_unlock_agent E (a_id c) t x s \<noteq> None \<longleftrightarrow> set (a_waiting_sessions c) \<subseteq> {x}"
proof -
  have p: "process_unlock_agent E (a_id c) t x s = do {
      s \<leftarrow> drop_waiting x a s; s \<leftarrow> tee_unblock_agent E (Some x) TEE_AGENT_LOCK s; Some (TEE_ERROR_GENERIC, s) }"
    using x find_locked_agent[OF wf(2) x a(1)] a(2) find_agent_id[OF wf(2) a(1)] by (simp add: process_unlock_agent_def)
  show ?thesis
  proof (cases "set (a_waiting_sessions c) \<subseteq> {x}")
    case True
    then obtain s1 where s1: "drop_waiting x a s = Some s1" "lock_step s s1"
      using drop_waiting_okay[OF wf(2) a(1)] by (auto simp: okay_iff)
    obtain y1 where "sessions s1 x = Some y1" by (rule lock_step_session[OF s1(2) x])
    then obtain s2 where "tee_unblock_agent E (Some x) TEE_AGENT_LOCK s1 = Some s2"
      using tee_unblock_agent_okay[of s1 x E TEE_AGENT_LOCK] lock_step_linked[OF s1(2)] wf(1) by (auto simp: okay_iff)
    then show ?thesis using True p s1(1) by simp
  next
    case False
    then show ?thesis using p drop_waiting_iff[OF wf(2) a(1), of x] by (cases "drop_waiting x a s") auto
  qed
qed


section \<open>Registration keeps the invariant\<close>

lemma sess_coreD:
  assumes "sess_core y' = sess_core y"
  shows "s_locked_agents y' = s_locked_agents y" "s_waiting_agent y' = s_waiting_agent y" "s_task_id y' = s_task_id y"
    "s_session_id y' = s_session_id y" "s_child_ta_sess_head y' = s_child_ta_sess_head y" "s_child_ta_sess_list y' = s_child_ta_sess_list y"
    "s_agent_pending y' = s_agent_pending y" "s_ta2ta_from_taskid y' = s_ta2ta_from_taskid y"
  using assms by (auto simp: sess_core_def dest: arg_cong[where f = s_locked_agents] arg_cong[where f = s_waiting_agent]
      arg_cong[where f = s_task_id] arg_cong[where f = s_session_id] arg_cong[where f = s_child_ta_sess_head]
      arg_cong[where f = s_child_ta_sess_list] arg_cong[where f = s_agent_pending] arg_cong[where f = s_ta2ta_from_taskid])

lemma mem_step_wf_agents:
  assumes "mem_step P s s'" "wf_agents s"
  shows "wf_agents s'"
proof -
  have core: "map_option sess_core (sessions s' x) = map_option sess_core (sessions s x)" for x
    using assms(1) by (simp add: mem_step_def)
  have "locked_by (sessions s') x = locked_by (sessions s) x \<and> waits_for (sessions s') x = waits_for (sessions s) x" for x
    using core[of x] by (cases "sessions s x"; cases "sessions s' x") (auto simp: locked_by_def waits_for_def intro: sess_coreD(1,2))
  then have "locked_by (sessions s') = locked_by (sessions s)" "waits_for (sessions s') = waits_for (sessions s)" by auto
  then show ?thesis using wf_agents_session_views[OF assms(2), of s'] by (simp add: mem_stepD[OF assms(1)])
qed

lemma mem_step_tasks:
  assumes "mem_step P s s'"
  shows "tasks s' = tasks s" "g_task_list_head s' = g_task_list_head s" "g_task_list_num s' = g_task_list_num s"
  using assms by (auto simp: mem_step_def mem_erase_def dest: arg_cong[where f = tasks] arg_cong[where f = g_task_list_head]
      arg_cong[where f = g_task_list_num])

lemma mem_step_wf_tasks: "mem_step P s s' \<Longrightarrow> wf_tasks s' = wf_tasks s"
  by (simp add: wf_tasks_def mem_step_tasks)

lemma check_agent_param_okay:
  assumes "wf_services s" "cur_session_ok s"
  shows "okay (check_agent_param E cmd s) (\<lambda>((r, p), s'). mem_step (\<lambda>_. True) s s' \<and>
    (r = TEE_SUCCESS \<longrightarrow> cmd \<noteq> None \<and> g_gt_pam_node s' \<noteq> None))"
proof (cases cmd)
  case (Some c)
  obtain r ty p s' where "cmd_global_ns_get_params E cmd s = Some ((r, ty, p), s')" "mem_step (\<lambda>_. True) s s'"
      "r = TEE_SUCCESS \<and> p \<noteq> 0 \<longrightarrow> g_gt_pam_node s' \<noteq> None"
    using cmd_global_ns_get_params_step[OF assms, of E cmd] by (auto simp: okay_iff)
  then show ?thesis using Some by (simp add: check_agent_param_def)
qed (simp add: check_agent_param_def)

lemma find_agent_total: "wf_agents s \<Longrightarrow> \<exists>e. find_agent s i = Some e"
  by (cases rule: find_agent_cases[where i = i]) auto

lemma register_agent_buffer_to_task_okay:
  assumes "wf_agents s"
  shows "okay (register_agent_buffer_to_task E i t s) (quiet s)"
  using assms
proof (cases rule: find_agent_cases[where i = i])
  case none
  then show ?thesis by (simp add: register_agent_buffer_to_task_def)
next
  case (some a c)
  then show ?thesis by (simp add: register_agent_buffer_to_task_def)
qed

lemma task_adapt_register_agent_okay:
  assumes "wf_agents s" "wf_tasks s"
  shows "okay (task_adapt_register_agent E i s) (quiet s)"
  using assms(2)
proof (cases rule: task_list_cases[where P = "\<lambda>t. ti_is_agent t \<and> ti_agent_id t = i"])
  case none
  then show ?thesis by (simp add: task_adapt_register_agent_def)
next
  case (some a t)
  then show ?thesis
    using register_agent_buffer_to_task_okay[OF assms(1), of E i "ti_task_id t"] by (simp add: task_adapt_register_agent_def)
qed

lemma add_agent_control_wf:
  assumes wf: "wf_agents s" and cnt: "g_agent_cnt s < AGENT_MAX" and new: "\<And>a c. agents s a = Some c \<Longrightarrow> a_id c \<noteq> i"
  obtains "add_agent_control E i p n s = (TEE_ERROR_OUT_OF_MEMORY, notify Tee_malloc s)"
  | a s' c where "add_agent_control E i p n s = (TEE_SUCCESS, s')" "agents s a = None" "agents s' = (agents s)(a \<mapsto> c)" "wf_agents s'"
      "a_id c = i" "a_phys_buffer c = p" "a_size c = n" "\<not> a_locked c" "g_agent_cnt s' = g_agent_cnt s + 1" "services s' = services s"
      "sessions s' = sessions s" "wf_services s' = wf_services s" "tasks s' = tasks s" "g_task_list_head s' = g_task_list_head s"
      "g_task_list_num s' = g_task_list_num s"
proof (rule TEE_Malloc_cases[of E s])
  assume "TEE_Malloc E s = (None, notify Tee_malloc s)"
  then show thesis by (intro that(1)) (simp add: add_agent_control_def)
next
  fix a assume m: "TEE_Malloc E s = (Some a, notify Tee_malloc s)" "\<not> in_use s a"
  define c where "c = \<lparr>a_id = i, a_locked = False, a_buffer = 0, a_phys_buffer = p, a_size = n, a_locking_session = None,
    a_waiting_sessions = [], a_session_list = None\<rparr>"
  define s' where "s' = (notify Tee_malloc s)\<lparr>g_agent_head := g_agent_head s @ [a], agents := (agents s)(a \<mapsto> c), g_agent_cnt := g_agent_cnt s + 1\<rparr>"
  have free: "agents s a = None" "a \<notin> set (g_agent_head s)" using m(2) wf by (auto simp: in_use_def wf_agents_def wf_agent_list_def)
  have "unat (g_agent_cnt s) < 32" using cnt by (simp add: word_less_nat_alt)
  then have "wf_agent_list (g_agent_head s') (agents s') (g_agent_cnt s')"
    using wf free new by (auto simp: wf_agents_def wf_agent_list_def s'_def c_def unat_word_ariths dest: new)
  moreover have "holder (agents s') = holder (agents s)" "waiters (agents s') = waiters (agents s)"
    using free by (auto simp: s'_def c_def holder_def waiters_def fun_eq_iff)
  then have "wf_locks (agents s') (sessions s')"
    using wf by (auto simp: wf_agents_def wf_locks_def s'_def c_def)
  ultimately have "wf_agents s'" by (simp add: wf_agents_def)
  then show thesis
    using m free by (intro that(2)[of s' a c]) (simp_all add: add_agent_control_def s'_def c_def wf_services_def)
qed

text \<open>What a successful registration establishes.\<close>

definition registered :: "smc_cmd \<Rightarrow> gtask \<Rightarrow> gtask \<Rightarrow> bool" where
  "registered cmd s s' \<longleftrightarrow> (\<exists>a c. agents s a = None \<and> agents s' = (agents s)(a \<mapsto> c) \<and> a_id c = c_agent_id cmd \<and> \<not> a_locked c \<and>
    (\<forall>b d. agents s b = Some d \<longrightarrow> a_id d \<noteq> c_agent_id cmd) \<and>
    4096 \<le> unat (a_size c) \<and> unat (a_size c) \<le> 32768 \<and> in_mailbox_range (g_mb_state s) (a_phys_buffer c) (a_size c)) \<and>
    unat (g_agent_cnt s') = Suc (unat (g_agent_cnt s))"

lemma register_agent_okay:
  assumes wf: "wf_services s" "wf_agents s" "wf_tasks s" "cur_session_ok s"
  shows "okay (register_agent other E cmd s) (\<lambda>(r, s'). wf_services s' \<and> wf_agents s' \<and> wf_tasks s' \<and>
    (if r = TEE_SUCCESS then (\<exists>c. cmd = Some c \<and> registered c s s') else agents s' = agents s))"
proof (cases "g_agent_cnt s \<ge> AGENT_MAX")
  case True
  then show ?thesis using wf by (simp add: register_agent_def)
next
  case room: False
  obtain r p s1 where s1: "check_agent_param E cmd s = Some ((r, p), s1)" "mem_step (\<lambda>_. True) s s1"
      "r = TEE_SUCCESS \<longrightarrow> cmd \<noteq> None \<and> g_gt_pam_node s1 \<noteq> None"
    using check_agent_param_okay[OF wf(1,4), of E cmd] by (auto simp: okay_iff)
  note same = mem_stepD[OF s1(2)]
  have wf1: "wf_services s1" "wf_agents s1" "wf_tasks s1"
    using wf s1(2) by (simp_all add: mem_step_wf_services mem_step_wf_agents mem_step_wf_tasks)
  show ?thesis
  proof (cases "r = TEE_SUCCESS")
    case False
    then show ?thesis using room s1(1) wf1 same by (simp add: register_agent_def)
  next
    case True
    then obtain c n where c: "cmd = Some c" "g_gt_pam_node s1 = Some n" using s1(3) by auto
    define p0 where "p0 = op_p (n_op n) 0"
    define pa where "pa = paddr (tp_a p0) (tp_b p0)"
    define sz where "sz = tp_a (op_p (n_op n) 1)"
    obtain e where e: "find_agent s1 (c_agent_id c) = Some e" using find_agent_total[OF wf1(2)] by blast
    have eq: "register_agent other E cmd s = (
        if \<not> in_mailbox_range (g_mb_state s1) pa sz then Some (TEE_ERROR_BAD_PARAMETERS, s1)
        else if \<not> other \<and> \<not> is_system_agent (c_agent_id c) then Some (TEE_ERROR_GENERIC, s1)
        else if sz < AGENT_BUFF_SIZE \<or> sz > BITS_PER_BYTE * AGENT_BUFF_SIZE then Some (TEE_ERROR_GENERIC, s1)
        else if e \<noteq> None then Some (TEE_ERROR_GENERIC, s1)
        else let (r, s2) = add_agent_control E (c_agent_id c) pa sz s1 in
          if r \<noteq> TEE_SUCCESS then Some (TEE_ERROR_GENERIC, s2)
          else do { s2 \<leftarrow> task_adapt_register_agent E (c_agent_id c) s2; Some (TEE_SUCCESS, s2) })"
      using room s1(1) True c e by (simp add: register_agent_def gt_param_def pa_def p0_def sz_def Let_def)
    show ?thesis
    proof (cases "\<not> in_mailbox_range (g_mb_state s1) pa sz \<or> \<not> other \<and> \<not> is_system_agent (c_agent_id c) \<or>
        sz < AGENT_BUFF_SIZE \<or> sz > BITS_PER_BYTE * AGENT_BUFF_SIZE \<or> e \<noteq> None")
      case True
      then show ?thesis unfolding eq using wf1 same by auto
    next
      case ok: False
      have new: "a_id d \<noteq> c_agent_id c" if "agents s1 b = Some d" for b d
        using find_agent_id[OF wf1(2) that] e ok by auto
      have cnt: "g_agent_cnt s1 < AGENT_MAX" using room same by simp
      show ?thesis
      proof (rule add_agent_control_wf[where i = "c_agent_id c" and E = E and p = pa and n = sz, OF wf1(2) cnt new])
        assume "add_agent_control E (c_agent_id c) pa sz s1 = (TEE_ERROR_OUT_OF_MEMORY, notify Tee_malloc s1)"
        then show ?thesis unfolding eq using ok wf1 same by (auto simp: wf_services_def)
      next
        fix a s2 d
        assume s2: "add_agent_control E (c_agent_id c) pa sz s1 = (TEE_SUCCESS, s2)" "agents s1 a = None" "agents s2 = (agents s1)(a \<mapsto> d)"
          "wf_agents s2" "a_id d = c_agent_id c" "a_phys_buffer d = pa" "a_size d = sz" "\<not> a_locked d" "g_agent_cnt s2 = g_agent_cnt s1 + 1"
          "services s2 = services s1" "sessions s2 = sessions s1" "wf_services s2 = wf_services s1" "tasks s2 = tasks s1"
          "g_task_list_head s2 = g_task_list_head s1" "g_task_list_num s2 = g_task_list_num s1"
        then have "wf_tasks s2" using wf1(3) by (simp add: wf_tasks_def)
        then obtain s3 where s3: "task_adapt_register_agent E (c_agent_id c) s2 = Some s3" "quiet s2 s3"
          using task_adapt_register_agent_okay[OF s2(4), of E "c_agent_id c"] by (auto simp: okay_iff)
        have sz: "4096 \<le> unat sz" "unat sz \<le> 32768" using ok by (simp_all add: word_less_nat_alt not_less)
        have "unat (g_agent_cnt s1 + 1) = Suc (unat (g_agent_cnt s1))" using cnt by (simp add: word_less_nat_alt unat_word_ariths)
        then have "registered c s s3"
          unfolding registered_def using s2 sz ok new same by (auto simp: quietD[OF s3(2)] intro!: exI[of _ a])
        then show ?thesis
          unfolding eq using ok s2(1,4,12) s3 wf1(1) \<open>wf_tasks s2\<close> c(1)
          by (auto simp: wf_agents_quiet[OF s3(2)] wf_services_quiet[OF s3(2)] wf_tasks_quiet[OF s3(2)])
      qed
    qed
  qed
qed

lemma unregister_agent_okay:
  assumes wf: "wf_services s" "wf_agents s" "wf_tasks s" "cur_session_ok s"
  shows "okay (unregister_agent E cmd s) (\<lambda>(r, s'). wf_services s' \<and> wf_agents s' \<and> wf_tasks s' \<and>
    (if r = TEE_SUCCESS then \<exists>c. cmd = Some c \<and> \<not> is_system_agent (c_agent_id c) \<and>
        (\<forall>a d. agents s' a = Some d \<longleftrightarrow> agents s a = Some d \<and> a_id d \<noteq> c_agent_id c)
     else agents s' = agents s))"
proof (cases "g_agent_cnt s = 0")
  case True
  then show ?thesis using wf by (simp add: unregister_agent_def)
next
  case some: False
  obtain r p s1 where s1: "check_agent_param E cmd s = Some ((r, p), s1)" "mem_step (\<lambda>_. True) s s1"
      "r = TEE_SUCCESS \<longrightarrow> cmd \<noteq> None \<and> g_gt_pam_node s1 \<noteq> None"
    using check_agent_param_okay[OF wf(1,4), of E cmd] by (auto simp: okay_iff)
  note same = mem_stepD(8)[OF s1(2)]
  have wf1: "wf_services s1" "wf_agents s1" "wf_tasks s1"
    using wf s1(2) by (simp_all add: mem_step_wf_services mem_step_wf_agents mem_step_wf_tasks)
  show ?thesis
  proof (cases "r = TEE_SUCCESS \<and> (\<exists>c. cmd = Some c \<and> \<not> is_system_agent (c_agent_id c))")
    case False
    then show ?thesis using some s1 wf1 same by (auto simp: unregister_agent_def)
  next
    case True
    then obtain c where c: "cmd = Some c" "\<not> is_system_agent (c_agent_id c)" "r = TEE_SUCCESS" by auto
    from wf1(2) show ?thesis
    proof (cases rule: find_agent_cases[where i = "c_agent_id c"])
      case none
      then have "agents s1 a = Some d \<longleftrightarrow> agents s1 a = Some d \<and> a_id d \<noteq> c_agent_id c" for a d by blast
      then show ?thesis using some s1(1) c wf1 same none(1) by (simp add: unregister_agent_def)
    next
      case (some a d)
      have d: "a_locked d \<longleftrightarrow> a_locking_session d \<noteq> None" using wf1(2) some(2) by (auto simp: wf_agents_def wf_locks_def)
      show ?thesis
      proof (cases "a_locked d")
        case True
        then show ?thesis using \<open>g_agent_cnt s \<noteq> 0\<close> s1(1) c wf1 same some by (simp add: unregister_agent_def)
      next
        case False
        have wl: "wf_locks (agents s1) (sessions s1)" using wf1(2) by (simp add: wf_agents_def)
        have hd: "holder (agents s1) a = None" using False d some(2) by (simp add: lock_views_Some)
        then have ws: "waiters (agents s1) a = []" by (rule wf_viewsD(3)[OF wl])
        let ?s = "s1\<lparr>g_agent_head := remove1 a (g_agent_head s1), agents := (agents s1)(a := None), g_agent_cnt := g_agent_cnt s1 - 1\<rparr>"
        have "(holder (agents s1))(a := None) = holder (agents s1)" "(waiters (agents s1))(a := []) = waiters (agents s1)" using hd ws by auto
        then have locks: "wf_locks (agents ?s) (sessions ?s)" using wl by (auto simp: wf_locks_def)
        have "wf_agent_list (g_agent_head ?s) (agents ?s) (g_agent_cnt ?s)"
          using wf_agent_list_remove[of "g_agent_head s1" "agents s1" "g_agent_cnt s1" a d] some(2) wf1(2) by (simp add: wf_agents_def)
        then have wfs: "wf_agents ?s" "wf_services ?s" "wf_tasks ?s" using locks wf1 by (simp_all add: wf_agents_def wf_services_def wf_tasks_def)
        have "agents ?s b = Some e \<longleftrightarrow> agents s1 b = Some e \<and> a_id e \<noteq> c_agent_id c" for b e
          using wf_agent_list_unique[of "g_agent_head s1" "agents s1" "g_agent_cnt s1" a d b e] wf1(2) some(2,3) by (auto simp: wf_agents_def)
        moreover have "unregister_agent E cmd s = Some (TEE_SUCCESS, ?s)"
          using \<open>g_agent_cnt s \<noteq> 0\<close> s1(1) c some False ws by (simp add: unregister_agent_def lock_views_Some)
        ultimately show ?thesis using wfs c(1,2) same by simp
      qed
    qed
  qed
qed


section \<open>Fair locks\<close>

text \<open>
  What clients of the agents rely on: a lock that is released goes to the first session that waits for it, and the
  others move up.  Then a waiting session gets the lock after as many releases as there are sessions before it.
\<close>

fun repeatedly :: "nat \<Rightarrow> ('s \<Rightarrow> 's option) \<Rightarrow> 's \<Rightarrow> 's option" where
  "repeatedly 0 f s = Some s"
| "repeatedly (Suc n) f s = do { s \<leftarrow> f s; repeatedly n f s }"

locale fifo_lock =
  fixes inv :: "'s \<Rightarrow> bool" and owner :: "'s \<Rightarrow> 'a \<Rightarrow> 'x option" and queue :: "'s \<Rightarrow> 'a \<Rightarrow> 'x list" and unlock :: "'a \<Rightarrow> 's \<Rightarrow> 's option"
  assumes unlock: "inv s \<Longrightarrow> owner s a \<noteq> None \<Longrightarrow>
    okay (unlock a s) (\<lambda>s'. inv s' \<and> owner s' a = (case queue s a of [] \<Rightarrow> None | x # _ \<Rightarrow> Some x) \<and> queue s' a = tl (queue s a))"
begin

lemma served:
  assumes "inv s" "owner s a \<noteq> None" "i < length (queue s a)"
  shows "okay (repeatedly (Suc i) (unlock a) s) (\<lambda>s'. inv s' \<and> owner s' a = Some (queue s a ! i) \<and> queue s' a = drop (Suc i) (queue s a))"
  using assms
proof (induction i arbitrary: s)
  case 0
  then obtain x xs where "queue s a = x # xs" by (cases "queue s a") auto
  then show ?case using unlock[OF 0(1,2)] by (auto simp: okay_iff)
next
  case (Suc i)
  then obtain x xs where q: "queue s a = x # xs" by (cases "queue s a") auto
  obtain s1 where s1: "unlock a s = Some s1" "inv s1" "owner s1 a = Some x" "queue s1 a = xs"
    using unlock[OF Suc.prems(1,2)] q by (auto simp: okay_iff)
  then show ?case using Suc.IH[of s1] Suc.prems(3) q by simp
qed

end

text \<open>The session that holds an agent unlocks it.\<close>

definition holder_unlock :: "env \<Rightarrow> addr \<Rightarrow> gtask \<Rightarrow> gtask option" where
  "holder_unlock E a s = do {
    c \<leftarrow> agents s a;
    x \<leftarrow> a_locking_session c;
    y \<leftarrow> sessions s x;
    (r, s) \<leftarrow> process_unlock_agent E (a_id c) (s_task_id y) x s;
    Some s
  }"

lemma holder_unlock_okay:
  assumes wf: "wf_services s" "wf_agents s" and h: "holder (agents s) a \<noteq> None"
  shows "okay (holder_unlock E a s) (\<lambda>s'. (wf_services s' \<and> wf_agents s') \<and>
    holder (agents s') a = handover (waiters (agents s) a) \<and> waiters (agents s') a = tl (waiters (agents s) a))"
proof -
  obtain c x where c: "agents s a = Some c" "a_locking_session c = Some x" using h by (cases "agents s a") (auto simp: holder_def)
  have wl: "wf_locks (agents s) (sessions s)" using wf(2) by (simp add: wf_agents_def)
  obtain y where y: "sessions s x = Some y" by (rule wf_locks_holderD[OF wl c])
  obtain r s1 where s1: "process_unlock_agent E (a_id c) (s_task_id y) x s = Some (r, s1)" "released a x s s1"
    using process_unlock_agent_held[OF wf_services_linked[OF wf(1)] wf(2) y c, of E "s_task_id y"] by (auto simp: okay_iff)
  moreover have "wf_services s1" using s1(2) wf(1) by (auto simp: released_def lock_step_wf_services)
  ultimately show ?thesis using c y released_wf[OF wf(2) s1(2)] by (simp add: holder_unlock_def released_def)
qed

interpretation agent_lock: fifo_lock "\<lambda>s. wf_services s \<and> wf_agents s" "\<lambda>s. holder (agents s)" "\<lambda>s. waiters (agents s)" "holder_unlock E" for E
  by unfold_locales (use holder_unlock_okay in \<open>simp add: handover_def\<close>)


section \<open>Properties\<close>

text \<open>Two sessions of one application; the first holds an agent and the second waits for it.\<close>

definition demo_holder :: session_struct where
  "demo_holder = demo_session\<lparr>s_locked_agents := [9]\<rparr>"

definition demo_waiter :: session_struct where
  "demo_waiter = demo_session\<lparr>s_task_id := 8, s_session_id := 2, s_waiting_agent := Some 9\<rparr>"

definition demo_agent :: agent_control where
  "demo_agent = \<lparr>a_id = 0x77, a_locked = True, a_buffer = 0, a_phys_buffer = 0x80001000, a_size = 4096,
    a_locking_session = Some 5, a_waiting_sessions = [6], a_session_list = Some 5\<rparr>"

definition demo_locks :: gtask where
  "demo_locks = demo_open\<lparr>
    services := (services demo_open)(0 \<mapsto> (the (services demo_open 0))\<lparr>v_session_head := [5, 6], v_session_bitmap := [3], v_session_count := 2\<rparr>),
    sessions := [5 \<mapsto> demo_holder, 6 \<mapsto> demo_waiter],
    agents := [9 \<mapsto> demo_agent], g_agent_head := [9], g_agent_cnt := 1\<rparr>"

lemma demo_locks_simps [simp]:
  "sessions demo_locks = [5 \<mapsto> demo_holder, 6 \<mapsto> demo_waiter]" "agents demo_locks = [9 \<mapsto> demo_agent]" "g_agent_head demo_locks = [9]"
  "g_agent_cnt demo_locks = 1" "g_cur_session demo_locks = Some 5" "g_mb_state demo_locks = g_mb_state demo_open"
  by (simp_all add: demo_locks_def)

lemma wf_demo_tasks: "wf_tasks demo_locks"
  using wf_tasks_demo_gtask by (simp add: demo_locks_def demo_open_def wf_tasks_def)

lemma wf_demo_locks: "wf_services demo_locks" "wf_agents demo_locks"
proof -
  obtain v where v: "services demo_open 0 = Some v" "v_session_head v = [5]"
    using demo_gtask_service by (auto simp: demo_open_def)
  let ?v = "v\<lparr>v_session_head := [5, 6], v_session_bitmap := [3], v_session_count := 2\<rparr>"
  have wf: "wf_svcs (g_service_head demo_open) (services demo_open) (sessions demo_open) (g_service_index_map demo_open) (g_cur_index demo_open)"
    using wf_demo_open by (simp add: wf_services_def)
  have "(3 :: u32) = mask 2" by (simp add: mask_eq_exp_minus_1)
  then have "wbits [3 :: u32] = {0, 1}" by (auto simp: wbits_def bit_mask_iff less_Suc_eq numeral_2_eq_2)
  then have "service_wf [5 \<mapsto> demo_holder, 6 \<mapsto> demo_waiter] ?v"
    by (simp add: service_wf_def sid_def demo_holder_def demo_waiter_def demo_session_def; auto)
  then have "wf_svcs (g_service_head demo_open) ((services demo_open)(0 \<mapsto> ?v)) [5 \<mapsto> demo_holder, 6 \<mapsto> demo_waiter]
      (g_service_index_map demo_open) (g_cur_index demo_open)"
    using v by (intro wf_svcs_sessions[OF wf v(1)]) (auto simp: v_uuid_def)
  then show "wf_services demo_locks" using v by (simp add: wf_services_def demo_locks_def)
  show "wf_agents demo_locks"
    by (auto simp: wf_agents_def wf_agent_list_def wf_locks_def wf_lock_views_def holder_def waiters_def locked_by_def waits_for_def
        demo_holder_def demo_waiter_def demo_agent_def demo_session_def)
qed

text \<open>
  C18: A session that asks for the lock of a registered agent gets it when it is free or already its own, and otherwise is put
  once at the end of the sessions that wait for it; no other lock changes and the invariant of the locks is kept.
\<close>

theorem tee_lock_agent_correct:
  assumes "wf_agents s" "agents s a = Some c" "sessions s x = Some y" "s_waiting_agent y = None \<or> s_waiting_agent y = Some a"
  shows "\<exists>r s'. tee_lock_agent (a_id c) (Some x) s = Some (r, s') \<and> wf_locks (agents s') (sessions s') \<and>
    (case holder (agents s) a of
       None \<Rightarrow> r = TEE_SUCCESS \<and> holder (agents s') = (holder (agents s))(a \<mapsto> x) \<and> waiters (agents s') = waiters (agents s)
     | Some z \<Rightarrow> holder (agents s') = holder (agents s) \<and>
         (if z = x then r = TEE_SUCCESS \<and> waiters (agents s') = waiters (agents s)
          else r = TEE_ERROR_BUSY \<and> waiters (agents s') = (waiters (agents s))
            (a := if x \<in> set (waiters (agents s) a) then waiters (agents s) a else waiters (agents s) a @ [x])))"
proof -
  obtain r s' where "tee_lock_agent (a_id c) (Some x) s = Some (r, s')" "acquired a x r s s'"
    using tee_lock_agent_okay[OF assms] by (auto simp: okay_iff)
  then show ?thesis unfolding acquired_def by blast
qed

theorem tee_lock_agent_correct_witness:
  "\<exists>r s'. tee_lock_agent 0x77 (Some 6) demo_locks = Some (r, s') \<and> r = TEE_ERROR_BUSY \<and> waiters (agents s') 9 = [6]"
  using tee_lock_agent_correct[OF wf_demo_locks(2), of 9 demo_agent 6 demo_waiter]
  by (auto simp: demo_agent_def demo_waiter_def)

text \<open>
  C19: A session that ends gives up every agent it holds.  \<open>tee_unlock_agents\<close> always returns; each agent goes to the first session
  that waits for it, or becomes free when none does, and the agents of other sessions keep their holder and their queue.
\<close>

theorem tee_unlock_agents_hands_over:
  assumes "wf_services s" "wf_agents s" "sessions s x = Some y"
  shows "\<exists>s'. tee_unlock_agents E (Some x) s = Some s' \<and> wf_services s' \<and> wf_agents s' \<and> locked_by (sessions s') x = [] \<and>
    (\<forall>a. if holder (agents s) a = Some x
      then holder (agents s') a = handover (waiters (agents s) a) \<and> waiters (agents s') a = tl (waiters (agents s) a)
      else holder (agents s') a = holder (agents s) a \<and> waiters (agents s') a = waiters (agents s) a)"
proof -
  obtain s' where s': "tee_unlock_agents E (Some x) s = Some s'" "released_all x s s'"
    using tee_unlock_agents_okay[OF wf_services_linked[OF assms(1)] assms(2,3), of E] by (auto simp: okay_iff)
  then have "wf_services s'" using assms(1) lock_step_wf_services[of s s'] by (auto simp: released_all_def)
  then show ?thesis using s' unfolding released_all_def by blast
qed

theorem tee_unlock_agents_hands_over_witness:
  "\<exists>s'. tee_unlock_agents calm_env (Some 5) demo_locks = Some s' \<and> holder (agents s') 9 = Some 6 \<and> locked_by (sessions s') 5 = []"
proof -
  have "holder (agents demo_locks) 9 = Some 5" "waiters (agents demo_locks) 9 = [6]"
    by (simp_all add: holder_def waiters_def demo_agent_def)
  moreover obtain s' where "tee_unlock_agents calm_env (Some 5) demo_locks = Some s'" "locked_by (sessions s') 5 = []"
      "\<forall>a. if holder (agents demo_locks) a = Some 5
        then holder (agents s') a = handover (waiters (agents demo_locks) a) \<and> waiters (agents s') a = tl (waiters (agents demo_locks) a)
        else holder (agents s') a = holder (agents demo_locks) a \<and> waiters (agents s') a = waiters (agents demo_locks) a"
    using tee_unlock_agents_hands_over[OF wf_demo_locks, of 5 demo_holder calm_env] by auto
  ultimately show ?thesis by (auto simp: handover_def split: if_splits)
qed

text \<open>
  C20: Waiting sessions are served in the order in which they asked: after as many releases by the current holders as there are
  sessions up to and including it in the queue, a waiting session holds the agent, and those behind it are still in order.
\<close>

theorem waiting_session_served:
  assumes "wf_services s" "wf_agents s" "i < length (waiters (agents s) a)"
  shows "\<exists>s'. repeatedly (Suc i) (holder_unlock E a) s = Some s' \<and> wf_agents s' \<and>
    holder (agents s') a = Some (waiters (agents s) a ! i) \<and> waiters (agents s') a = drop (Suc i) (waiters (agents s) a)"
proof -
  have "wf_locks (agents s) (sessions s)" using assms(2) by (simp add: wf_agents_def)
  then have "holder (agents s) a \<noteq> None" using assms(3) wf_viewsD(3)[of "agents s" "sessions s" a] by (cases "holder (agents s) a") auto
  then show ?thesis using agent_lock.served[of s a i E] assms by (auto simp: okay_iff)
qed

theorem waiting_session_served_witness:
  "\<exists>s'. repeatedly 1 (holder_unlock calm_env 9) demo_locks = Some s' \<and> holder (agents s') 9 = Some 6"
  using waiting_session_served[OF wf_demo_locks, of 0 9 calm_env] by (simp add: waiters_def demo_agent_def) blast

text \<open>
  C21: When a session unlocks an agent that it does not hold, the call returns exactly when no other session waits for
  that agent; otherwise the loop over the waiting sessions never ends.
\<close>

theorem unlock_not_held_returns_iff:
  assumes "wf_services s" "wf_agents s" "sessions s x = Some y" "agents s a = Some c" "a_locking_session c \<noteq> Some x"
  shows "process_unlock_agent E (a_id c) t x s \<noteq> None \<longleftrightarrow> set (a_waiting_sessions c) \<subseteq> {x}"
  by (rule process_unlock_agent_not_held[OF wf_services_linked[OF assms(1)] assms(2-5)])

theorem unlock_not_held_returns_iff_witness:
  "process_unlock_agent calm_env 0x77 8 6 demo_locks \<noteq> None"
  using unlock_not_held_returns_iff[OF wf_demo_locks, of 6 demo_waiter 9 demo_agent calm_env 8] by (simp add: demo_agent_def)




end
