(* ===== verification/Session_Manager.thy ===== *)
theory Session_Manager
  imports Agent_Manager
begin

text \<open>
  The sessions of the global task, \<open>framework/gtask/src/manager/session_manager.c\<close>: choosing the session of a command, opening and
  closing sessions, also on behalf of other trusted applications, and what is released when one of the steps fails.

  \<open>session->child_ta_sess_list\<close> is a list node: \<open>s_child_ta_sess_list\<close> names the session on whose list of children it is
  linked, if it is linked.  A service and a session given together are a session and the service on whose list it is.
  \<open>memcpy_s\<close> between two commands does not fail.
\<close>

abbreviation (input) CALL_TA_OPEN_SESSION :: u32 where "CALL_TA_OPEN_SESSION \<equiv> 0x11"
abbreviation (input) CALL_TA_INVOKE_CMD :: u32 where "CALL_TA_INVOKE_CMD \<equiv> 0x12"
abbreviation (input) CALL_TA_CLOSE_SESSION :: u32 where "CALL_TA_CLOSE_SESSION \<equiv> 0x13"
abbreviation (input) CALL_TA_OPEN_SESSION_INIT :: u32 where "CALL_TA_OPEN_SESSION_INIT \<equiv> 0x17"
abbreviation (input) CALL_TA_OPEN_SESSION_PROP :: u32 where "CALL_TA_OPEN_SESSION_PROP \<equiv> 0x18"
abbreviation (input) SESSION_FROM_CA :: u32 where "SESSION_FROM_CA \<equiv> 0"
abbreviation (input) SESSION_FROM_TA :: u32 where "SESSION_FROM_TA \<equiv> 1"
abbreviation (input) MAX_TA2TA_LEVEL :: u32 where "MAX_TA2TA_LEVEL \<equiv> 1"
abbreviation (input) MAX_SESSION_ID :: nat where "MAX_SESSION_ID \<equiv> 8"
abbreviation (input) ERROR_SESSION_ID :: int where "ERROR_SESSION_ID \<equiv> -1"
abbreviation (input) INVALID_SESSION_HANDLE :: int where "INVALID_SESSION_HANDLE \<equiv> -1"
abbreviation (input) SESSION_NAME_MAX :: nat where "SESSION_NAME_MAX \<equiv> 108"
abbreviation (input) TA_STATUS_NORMAL :: u32 where "TA_STATUS_NORMAL \<equiv> 0"

definition is_err_ret :: "u32 \<Rightarrow> bool" where
  "is_err_ret result \<longleftrightarrow> \<not> (result = TEE_SUCCESS \<or> result = TEE_PENDING \<or> result = TEE_PENDING2)"


section \<open>Linking and unlinking\<close>

definition link_child :: "addr \<Rightarrow> addr \<Rightarrow> gtask \<Rightarrow> gtask option" where
  "link_child x p s = do {
    y \<leftarrow> sessions s x;
    if s_child_ta_sess_list y \<noteq> None then None
    else do {
      s \<leftarrow> upd_session x (\<lambda>y. y\<lparr>s_child_ta_sess_list := Some p\<rparr>) s;
      upd_session p (\<lambda>q. q\<lparr>s_child_ta_sess_head := s_child_ta_sess_head q @ [x]\<rparr>) s
    }
  }"

definition unlink_child :: "addr \<Rightarrow> gtask \<Rightarrow> gtask option" where
  "unlink_child x s = do {
    y \<leftarrow> sessions s x;
    (case s_child_ta_sess_list y of None \<Rightarrow> Some s
     | Some p \<Rightarrow> do {
        s \<leftarrow> upd_session p (\<lambda>q. q\<lparr>s_child_ta_sess_head := remove1 x (s_child_ta_sess_head q)\<rparr>) s;
        upd_session x (\<lambda>y. y\<lparr>s_child_ta_sess_list := None\<rparr>) s
      })
  }"

definition unlink_session :: "addr \<Rightarrow> addr \<Rightarrow> gtask \<Rightarrow> gtask option" where
  "unlink_session a x s = do {
    v \<leftarrow> services s a;
    if x \<notin> set (v_session_head v) then None
    else upd_service a (\<lambda>v. v\<lparr>v_session_head := remove1 x (v_session_head v)\<rparr>) s
  }"

definition free_session :: "addr \<Rightarrow> gtask \<Rightarrow> gtask" where
  "free_session x s = s\<lparr>sessions := (sessions s)(x := None)\<rparr>"

text \<open>\<open>SET_BIT\<close> and \<open>CLR_BIT\<close> on the word and bit of a session id.\<close>

definition set_session_bit :: "u32 \<Rightarrow> service_struct \<Rightarrow> service_struct" where
  "set_session_bit i v = (
    let n = unat (i - 1); w = n div 32
    in v\<lparr>v_session_bitmap := (v_session_bitmap v)[w := v_session_bitmap v ! w OR push_bit (n mod 32) 1]\<rparr>)"

definition clr_session_bit :: "u32 \<Rightarrow> service_struct \<Rightarrow> service_struct" where
  "clr_session_bit i v = (
    let n = unat (i - 1); w = n div 32
    in v\<lparr>v_session_bitmap := (v_session_bitmap v)[w := v_session_bitmap v ! w AND NOT (push_bit (n mod 32) 1)]\<rparr>)"


section \<open>Messages to the application\<close>

definition call_ta_invoke_close_session ::
  "env \<Rightarrow> smc_cmd \<Rightarrow> u32 \<Rightarrow> u32 \<Rightarrow> global_to_ta_msg \<Rightarrow> gtask \<Rightarrow> ((u32 \<times> global_to_ta_msg) \<times> gtask) option" where
  "call_ta_invoke_close_session E cmd cmd_type cmd_id entry_msg s = (
    if c_ret_val cmd = TEE_PENDING2 \<or> c_ret_val cmd = TEE_PENDING then Some ((TEE_SUCCESS, entry_msg), s)
    else do {
      a \<leftarrow> g_cur_service s;
      v \<leftarrow> services s a;
      x \<leftarrow> g_cur_session s;
      y \<leftarrow> sessions s x;
      let entry_msg = entry_msg\<lparr>m_session_id := set_session_context_bit (v_index v) (s_session_id y),
        m_session_context := s_session_context y, m_cmd_id := c_cmd_id cmd, m_dev_id := c_dev_file_id cmd, m_started := c_started cmd\<rparr>;
      let entry_msg = (if cmd_id = CALL_TA_CLOSE_SESSION \<and> v_session_count v = 1 \<and> \<not> p_keep_alive (v_property v)
        then entry_msg\<lparr>m_last_session := True\<rparr> else entry_msg);
      ((ret, param_type, params), s) \<leftarrow> (if cmd_type = CMD_TYPE_NS_TO_SECURE then cmd_ns_get_params E (s_task_id y) (Some cmd) s
        else cmd_secure_get_params E (s_task_id y) (Some cmd) s);
      let entry_msg = entry_msg\<lparr>m_param_type := param_type, m_params := params\<rparr>;
      if ret \<noteq> TEE_SUCCESS then Some ((ret, entry_msg), s)
      else Some ((ret, entry_msg\<lparr>m_session_type := if cmd_type = CMD_TYPE_NS_TO_SECURE then SESSION_FROM_CA else SESSION_FROM_TA\<rparr>), s)
    })"

definition set_init_msg_prop :: "ta_property \<Rightarrow> ta_init_msg \<Rightarrow> ta_init_msg" where
  "set_init_msg_prop p m = m\<lparr>i_prop := \<lparr>p_uuid = p_uuid p, p_stack_size = p_stack_size p, p_heap_size = p_heap_size p,
    p_single_instance = p_single_instance p, p_multi_session = p_multi_session p, p_keep_alive = p_keep_alive p,
    p_ssa_enum_enable = p_ssa_enum_enable p, p_other_buff = p_other_buff p, p_other_len = p_other_len p\<rparr>\<rparr>"

text \<open>The flag, in the middle of the result, says that the initial message was due.\<close>

definition check_and_process_init_build ::
  "env \<Rightarrow> global_to_ta_msg \<Rightarrow> gtask \<Rightarrow> ((u32 \<times> bool \<times> global_to_ta_msg) \<times> gtask) option" where
  "check_and_process_init_build E entry_msg s = do {
    a \<leftarrow> g_cur_service s;
    v \<leftarrow> services s a;
    if v_init_build v = 0 then do {
      s \<leftarrow> upd_service a (\<lambda>v. v\<lparr>v_init_build := 1\<rparr>) s;
      x \<leftarrow> g_cur_session s;
      y \<leftarrow> sessions s x;
      let init_msg = (set_init_msg_prop (v_property v) zero_init_msg)\<lparr>i_login_method := s_login_method y\<rparr>;
      let (ret, s) = send_ta_init_msg E init_msg (v_ta_64bit v) CALL_TA_OPEN_SESSION_INIT (s_task_id y) s;
      if ret \<noteq> TEE_SUCCESS then Some ((ret, True, entry_msg), s)
      else do { s \<leftarrow> upd_session x (\<lambda>y. y\<lparr>s_wait_ta_back_msg := True\<rparr>) s; Some ((TEE_SUCCESS, True, entry_msg), s) }
    }
    else Some ((TEE_SUCCESS, False, if v_session_count v = 1 then entry_msg\<lparr>m_first_session := True\<rparr> else entry_msg), s)
  }"

definition async_call_ta_entry :: "env \<Rightarrow> smc_cmd option \<Rightarrow> u32 \<Rightarrow> u32 \<Rightarrow> gtask \<Rightarrow> (u32 \<times> gtask) option" where
  "async_call_ta_entry E cmd cmd_type cmd_id s = (case (cmd, g_cur_session s) of
      (Some c, Some x) \<Rightarrow> do {
        y \<leftarrow> sessions s x;
        if s_agent_pending y then Some (TEE_ERROR_BUSY, s)
        else do {
          s \<leftarrow> upd_session x (\<lambda>y. y\<lparr>s_login_method := c_login_method c\<rparr>) s;
          if cmd_id \<noteq> CALL_TA_OPEN_SESSION \<and> cmd_id \<noteq> CALL_TA_INVOKE_CMD \<and> cmd_id \<noteq> CALL_TA_CLOSE_SESSION
          then Some (TEE_ERROR_GENERIC, s)
          else do {
            ((ret, flag, entry_msg), s) \<leftarrow> (if cmd_id = CALL_TA_OPEN_SESSION then check_and_process_init_build E zero_msg s
              else Some ((TEE_SUCCESS, False, zero_msg), s));
            if flag then Some (ret, s)
            else do {
              ((ret, entry_msg), s) \<leftarrow> call_ta_invoke_close_session E c cmd_type cmd_id entry_msg s;
              if ret \<noteq> 0 then Some (ret, s)
              else do {
                (ret, s) \<leftarrow> send_global2ta_msg E entry_msg cmd_id (s_task_id y) None s;
                if ret \<noteq> TEE_SUCCESS then Some (ret, s)
                else do { s \<leftarrow> upd_session x (\<lambda>y. y\<lparr>s_wait_ta_back_msg := True\<rparr>) s; Some (TEE_SUCCESS, s) }
              }
            }
          }
        }
      }
    | _ \<Rightarrow> Some (TEE_ERROR_BAD_PARAMETERS, s))"

definition session_set_cancelable :: "bool \<Rightarrow> gtask \<Rightarrow> gtask option" where
  "session_set_cancelable cancelable s = (case g_cur_session s of None \<Rightarrow> Some s
    | Some x \<Rightarrow> upd_session x (\<lambda>y. y\<lparr>s_cancelable := cancelable\<rparr>) s)"


section \<open>The session of a command\<close>

definition find_session_with_dev_file_id :: "gtask \<Rightarrow> u32 \<Rightarrow> u32 \<Rightarrow> ptr \<Rightarrow> ptr option" where
  "find_session_with_dev_file_id s session_id dev_file_id srv = (case srv of None \<Rightarrow> Some None
    | Some a \<Rightarrow> do {
        v \<leftarrow> services s a;
        find_entry (sessions s) (\<lambda>y. s_session_id y = session_id \<and> c_dev_file_id (s_cmd_in y) = dev_file_id) (v_session_head v)
      })"

definition reset_ta_context :: "gtask \<Rightarrow> gtask" where
  "reset_ta_context s = s\<lparr>g_cur_service := None, g_cur_session := None\<rparr>"

definition set_tee_return_origin :: "u32 \<Rightarrow> smc_cmd \<Rightarrow> smc_cmd" where
  "set_tee_return_origin ret_origin cmd = cmd\<lparr>c_err_origin := ret_origin\<rparr>"

definition set_tee_return :: "u32 \<Rightarrow> smc_cmd \<Rightarrow> smc_cmd" where
  "set_tee_return ret_val cmd = cmd\<lparr>c_ret_val := ret_val\<rparr>"

definition init_ta_service_session :: "smc_cmd \<Rightarrow> gtask \<Rightarrow> (u32 \<times> gtask) option" where
  "init_ta_service_session cmd s = do {
    (i, e) \<leftarrow> find_service s (Some (c_uuid cmd)) (service_index_of_context (c_context cmd));
    if i = - 1 then Some (TEE_ERROR_SERVICE_NOT_EXIST, s)
    else do {
      let s = s\<lparr>g_cur_service := e\<rparr>;
      x \<leftarrow> find_session_with_dev_file_id s (session_id_of_context (c_context cmd)) (c_dev_file_id cmd) (g_cur_service s);
      let s = s\<lparr>g_cur_session := x\<rparr>;
      if x = None \<and> c_cmd_type cmd \<noteq> CMD_TYPE_GLOBAL then Some (TEE_ERROR_SESSION_NOT_EXIST, s)
      else Some (TEE_SUCCESS, s)
    }
  }"

definition init_ta_context :: "smc_cmd option \<Rightarrow> gtask \<Rightarrow> (u32 \<times> gtask) option" where
  "init_ta_context cmd s = (case cmd of None \<Rightarrow> Some (TEE_ERROR_BAD_PARAMETERS, s) | Some c \<Rightarrow> init_ta_service_session c s)"

definition init_ta2ta_session :: "smc_cmd \<Rightarrow> gtask \<Rightarrow> (u32 \<times> gtask) option" where
  "init_ta2ta_session cmd s = do {
    x \<leftarrow> find_session_with_dev_file_id s (session_id_of_context (c_context cmd)) (c_dev_file_id cmd) (g_cur_service s);
    let s = s\<lparr>g_cur_session := x\<rparr>;
    if x = None \<and> c_cmd_type cmd \<noteq> CMD_TYPE_GLOBAL then Some (TEE_ERROR_SESSION_NOT_EXIST, s)
    else Some (TEE_SUCCESS, s)
  }"

text \<open>The walk from the calling task to the tasks that called it; it ends when it reaches a session of level 0.\<close>

partial_function (option) ta2ta_call_back :: "gtask \<Rightarrow> u32 \<Rightarrow> int option" where
  "ta2ta_call_back s pre_task = (case find_task s pre_task of None \<Rightarrow> None
    | Some None \<Rightarrow> Some (- 1)
    | Some (Some (serv, sess)) \<Rightarrow>
      if g_cur_service s = Some serv then Some (- 1)
      else (case sessions s sess of None \<Rightarrow> None
        | Some y \<Rightarrow> if s_ta2ta_level y > 0 then ta2ta_call_back s (s_ta2ta_from_taskid y) else Some 0))"

declare ta2ta_call_back.simps [code]

definition check_ta2ta_context :: "u32 \<Rightarrow> gtask \<Rightarrow> u32 option" where
  "check_ta2ta_context task_id s = do {
    r \<leftarrow> ta2ta_call_back s task_id;
    if r \<noteq> 0 then Some TEE_ERROR_GENERIC
    else (case g_cur_session s of None \<Rightarrow> Some TEE_SUCCESS
      | Some x \<Rightarrow> do {
          y \<leftarrow> sessions s x;
          Some (if s_ta2ta_from_taskid y \<noteq> task_id then TEE_ERROR_SESSION_NOT_EXIST else TEE_SUCCESS)
        })
  }"

definition init_ta2ta_service :: "smc_cmd \<Rightarrow> gtask \<Rightarrow> (u32 \<times> gtask) option" where
  "init_ta2ta_service cmd s = do {
    (i, e) \<leftarrow> find_service s (Some (c_uuid cmd)) (service_index_of_context (c_context cmd));
    if i = - 1 then Some (TEE_ERROR_SERVICE_NOT_EXIST, s) else Some (TEE_SUCCESS, s\<lparr>g_cur_service := e\<rparr>)
  }"

definition init_ta2ta_service_session :: "smc_cmd \<Rightarrow> gtask \<Rightarrow> (u32 \<times> gtask) option" where
  "init_ta2ta_service_session cmd s = do {
    (ret, s) \<leftarrow> init_ta2ta_service cmd s;
    if ret \<noteq> TEE_SUCCESS then Some (ret, s) else init_ta2ta_session cmd s
  }"

definition init_ta2ta_agent_context :: "smc_cmd option \<Rightarrow> gtask \<Rightarrow> (u32 \<times> gtask) option" where
  "init_ta2ta_agent_context cmd s = (case cmd of None \<Rightarrow> Some (TEE_ERROR_BAD_PARAMETERS, s)
    | Some c \<Rightarrow> do {
        (ret, s) \<leftarrow> init_ta2ta_service_session c s;
        if ret \<noteq> TEE_SUCCESS then Some (ret, s)
        else (case g_cur_session s of None \<Rightarrow> Some (TEE_SUCCESS, s)
          | Some x \<Rightarrow> do {
              y \<leftarrow> sessions s x;
              if \<not> s_cmd y then Some (TEE_SUCCESS, s)
              else do {
                (ret, s) \<leftarrow> (if c_event_nr (s_cmd_in y) \<noteq> c_event_nr c then do {
                    t \<leftarrow> find_task s (s_ta2ta_from_taskid y);
                    (case t of None \<Rightarrow> Some (TEE_ERROR_GENERIC, s)
                     | Some (_, z) \<Rightarrow> do {
                        s \<leftarrow> upd_session z (\<lambda>y. y\<lparr>s_cmd_in := (s_cmd_in y)\<lparr>c_event_nr := c_event_nr c, c_ca_pid := c_ca_pid c\<rparr>\<rparr>) s;
                        s \<leftarrow> upd_session x (\<lambda>y. y\<lparr>s_cmd_in := (s_cmd_in y)\<lparr>c_event_nr := c_event_nr c, c_ca_pid := c_ca_pid c\<rparr>\<rparr>) s;
                        Some (TEE_SUCCESS, s)
                      })
                  } else Some (TEE_SUCCESS, s));
                if ret \<noteq> TEE_SUCCESS then Some (ret, s)
                else do { s \<leftarrow> upd_session x (\<lambda>y. y\<lparr>s_cmd_in := (s_cmd_in y)\<lparr>c_ret_val := c_ret_val c\<rparr>\<rparr>) s; Some (TEE_SUCCESS, s) }
              }
            })
      })"

text \<open>The command is filled in; the result \<open>None\<close> for it means that it is left as it was.\<close>

definition init_ta2ta_context :: "env \<Rightarrow> u64 \<Rightarrow> u32 \<Rightarrow> gtask \<Rightarrow> ((u32 \<times> smc_cmd option) \<times> gtask) option" where
  "init_ta2ta_context E ta_cmd task_id s = (
    if ta_cmd = 0 then Some ((TEE_ERROR_BAD_PARAMETERS, None), s)
    else (
      let ((ret, out), s) = map_secure_operation E ta_cmd task_id s in
      case out of None \<Rightarrow> Some ((TEE_ERROR_OUT_OF_MEMORY, None), s)
      | Some cmd \<Rightarrow> do {
          t \<leftarrow> find_task s task_id;
          (case t of None \<Rightarrow> Some ((TEE_ERROR_GENERIC, out), s)
           | Some (_, z) \<Rightarrow> do {
              y \<leftarrow> sessions s z;
              let cmd = cmd\<lparr>c_ca_pid := c_ca_pid (s_cmd_in y), c_event_nr := c_event_nr (s_cmd_in y), c_dev_file_id := c_dev_file_id (s_cmd_in y)\<rparr>;
              (ret, s) \<leftarrow> init_ta2ta_service_session cmd s;
              if ret \<noteq> TEE_SUCCESS then Some ((ret, Some cmd), s)
              else do {
                ret \<leftarrow> check_ta2ta_context task_id s;
                if ret \<noteq> TEE_SUCCESS then Some ((ret, Some cmd), s)
                else (case g_cur_session s of None \<Rightarrow> Some ((TEE_SUCCESS, Some cmd), s)
                  | Some x \<Rightarrow> do {
                      s \<leftarrow> upd_session x (\<lambda>y. y\<lparr>s_cmd := True, s_cmd_in := cmd\<rparr>) s;
                      Some ((TEE_SUCCESS, Some cmd), s)
                    })
              }
            })
        }))"

definition init_session_context :: "u32 \<Rightarrow> gtask \<Rightarrow> (u32 \<times> gtask) option" where
  "init_session_context task_id s = do {
    t \<leftarrow> find_task s task_id;
    (case t of None \<Rightarrow> Some (TEE_ERROR_SESSION_NOT_EXIST, s)
     | Some (a, x) \<Rightarrow> Some (TEE_SUCCESS, s\<lparr>g_cur_service := Some a, g_cur_session := Some x\<rparr>))
  }"

definition set_session_context :: "u32 \<Rightarrow> u32 \<Rightarrow> smc_cmd \<Rightarrow> smc_cmd" where
  "set_session_context service_index session_id cmd = cmd\<lparr>c_context := set_session_context_bit service_index session_id\<rparr>"


section \<open>Creating a session\<close>

text \<open>The first number whose bit is clear, plus one.\<close>

fun get_session_id_from :: "u32 list \<Rightarrow> nat list \<Rightarrow> int" where
  "get_session_id_from bitmap [] = ERROR_SESSION_ID"
| "get_session_id_from bitmap (i # is) = (
    if \<not> bit (bitmap ! (i div 32)) (i mod 32) then int (i + 1) else get_session_id_from bitmap is)"

definition get_session_id :: "service_struct \<Rightarrow> int" where
  "get_session_id v = get_session_id_from (v_session_bitmap v) [0..<MAX_SESSION_ID]"

fun decimal :: "nat \<Rightarrow> string" where
  "decimal n = (if n < 10 then [char_of (48 + n)] else decimal (n div 10) @ [char_of (48 + n mod 10)])"

declare decimal.simps [simp del]

text \<open>\<open>snprintf_s\<close> fails when the text does not fit.\<close>

definition join_session_task_name :: "string \<Rightarrow> u32 \<Rightarrow> string option" where
  "join_session_task_name service_name session_id = (
    let name = decimal (unat session_id) @ service_name
    in if length name \<le> SESSION_NAME_MAX - 1 then Some name else None)"

definition start_ta_task :: "env \<Rightarrow> smc_cmd option \<Rightarrow> u32 \<Rightarrow> gtask \<Rightarrow> (u32 \<times> gtask) option" where
  "start_ta_task E cmd cmd_type s = (case cmd of None \<Rightarrow> Some (TEE_ERROR_BAD_PARAMETERS, s)
    | Some c \<Rightarrow> do {
        s \<leftarrow> (case g_cur_session s of None \<Rightarrow> Some s | Some x \<Rightarrow> upd_session x (\<lambda>y. y\<lparr>s_cmd_in := c\<rparr>) s);
        async_call_ta_entry E cmd cmd_type CALL_TA_INVOKE_CMD s
      })"

text \<open>Of the parameters of the task only the UUID is used.\<close>

definition ta_task_init :: "gtask \<Rightarrow> TEE_UUID option" where
  "ta_task_init s = do {
    x \<leftarrow> g_cur_session s;
    y \<leftarrow> sessions s x;
    a \<leftarrow> g_cur_service s;
    v \<leftarrow> services s a;
    Some (v_uuid v)
  }"

definition get_ta2ta_level :: "u32 \<Rightarrow> u32 \<Rightarrow> gtask \<Rightarrow> u32 option option" where
  "get_ta2ta_level cmd_type task_id s = (
    if cmd_type = CMD_TYPE_NS_TO_SECURE then Some (Some 0)
    else do {
      t \<leftarrow> find_task s task_id;
      (case t of None \<Rightarrow> Some None
       | Some (_, x) \<Rightarrow> do {
          y \<leftarrow> sessions s x;
          Some (if s_ta2ta_level y \<ge> MAX_TA2TA_LEVEL then None else Some (s_ta2ta_level y + 1))
        })
    })"

definition add_session_to_ta2ta_list :: "u32 \<Rightarrow> u32 \<Rightarrow> addr \<Rightarrow> gtask \<Rightarrow> gtask option" where
  "add_session_to_ta2ta_list cmd_type caller_task_id cur_sess s = (
    if cmd_type = CMD_TYPE_NS_TO_SECURE then Some s
    else do {
      t \<leftarrow> find_task s caller_task_id;
      (case t of None \<Rightarrow> Some s | Some (_, p) \<Rightarrow> link_child cur_sess p s)
    })"

definition release_cur_service :: "env \<Rightarrow> gtask \<Rightarrow> gtask option" where
  "release_cur_service E s = do {
    s \<leftarrow> process_release_service E (g_cur_service s) TA_REGION_RELEASE s;
    Some (s\<lparr>g_cur_service := None\<rparr>)
  }"

definition release_srvc_gc :: "env \<Rightarrow> bool \<Rightarrow> int \<Rightarrow> gtask \<Rightarrow> gtask option" where
  "release_srvc_gc E handle_ref_cnt sre_ret s = do {
    a \<leftarrow> g_cur_service s;
    v \<leftarrow> services s a;
    if build_in E (v_uuid v) then Some s
    else do {
      s \<leftarrow> (if handle_ref_cnt then decr_ref_cnt (Some a) s else Some s);
      v \<leftarrow> services s a;
      if sre_ret = TIMEOUT_FAIL_RET then (if v_session_count v = 0 then release_cur_service E s else Some s)
      else if v_session_count v = 0 \<and> v_ref_cnt v = 0 \<and>
          (\<not> p_keep_alive (v_property v) \<or> p_keep_alive (v_property v) \<and> v_first_open v) then release_cur_service E s
      else Some s
    }
  }"

definition create_task_fail_gc :: "env \<Rightarrow> bool \<Rightarrow> int \<Rightarrow> gtask \<Rightarrow> gtask option" where
  "create_task_fail_gc E handle_ref_cnt sre_ret s = do {
    s \<leftarrow> (case g_cur_session s of None \<Rightarrow> Some s
      | Some x \<Rightarrow> do {
          a \<leftarrow> g_cur_service s;
          y \<leftarrow> sessions s x;
          s \<leftarrow> upd_service a (clr_session_bit (s_session_id y)) s;
          let s = release_pam_node (s_pam_node y) s;
          s \<leftarrow> unlink_session a x s;
          s \<leftarrow> unlink_child x s;
          Some ((free_session x s)\<lparr>g_cur_session := None\<rparr>)
        });
    release_srvc_gc E handle_ref_cnt sre_ret s
  }"

definition open_session_fail_gc :: "env \<Rightarrow> gtask \<Rightarrow> (int \<times> gtask) option" where
  "open_session_fail_gc E s = do {
    a \<leftarrow> g_cur_service s;
    v \<leftarrow> services s a;
    if v_session_count v > 0 then do {
      s \<leftarrow> upd_service a (\<lambda>v. v\<lparr>v_session_count := v_session_count v - 1\<rparr>) s;
      x \<leftarrow> g_cur_session s;
      y \<leftarrow> sessions s x;
      sre_task_delete_ex E (s_task_id y) False (set_session_context_bit (v_index v) (s_session_id y)) s
    }
    else Some (SUCC_RET, s)
  }"

definition zero_session :: session_struct where
  "zero_session = \<lparr>s_task_id = 0, s_session_id = 0, s_session_context = 0, s_login_method = 0, s_name = [],
    s_ta2ta_from_taskid = 0, s_cancelable = False, s_agent_pending = False, s_locked_agents = [], s_waiting_agent = None,
    s_cmd_type = 0, s_cmd = False, s_cmd_in = zero_cmd, s_oper_addr = 0, s_pam_node = None, s_map_mem = [],
    s_ta2ta_level = 0, s_ta2ta_handle = 0, s_wait_ta_back_msg = False, s_session_status = 0, s_child_ta_sess_head = [],
    s_child_ta_sess_list = None\<rparr>"

definition add_new_session_into_list :: "env \<Rightarrow> u32 \<Rightarrow> gtask \<Rightarrow> ((u32 \<times> (addr \<times> u32) option) \<times> gtask) option" where
  "add_new_session_into_list E ta2ta_level s = (case g_cur_service s of None \<Rightarrow> Some ((TEE_ERROR_GENERIC, None), s)
    | Some a \<Rightarrow> do {
        v \<leftarrow> services s a;
        let tmp_id = get_session_id v;
        if tmp_id = ERROR_SESSION_ID then Some ((TEE_ERROR_SESSION_MAXIMUM, None), s)
        else (
          let session_id = of_int tmp_id; (m, s) = TEE_Malloc E s in
          case m of None \<Rightarrow> Some ((TEE_ERROR_OUT_OF_MEMORY, None), s)
          | Some x \<Rightarrow> (case join_session_task_name (v_name v) session_id of None \<Rightarrow> Some ((TEE_ERROR_GENERIC, None), s)
            | Some name \<Rightarrow> do {
                let y = zero_session\<lparr>s_agent_pending := False, s_ta2ta_level := ta2ta_level, s_session_id := session_id, s_name := name,
                  s_locked_agents := [], s_map_mem := [], s_session_status := TA_STATUS_NORMAL, s_child_ta_sess_head := [],
                  s_child_ta_sess_list := None\<rparr>;
                let s = s\<lparr>sessions := (sessions s)(x \<mapsto> y)\<rparr>;
                s \<leftarrow> upd_service a (set_session_bit session_id) s;
                s \<leftarrow> upd_service a (\<lambda>v. v\<lparr>v_session_head := v_session_head v @ [x]\<rparr>) s;
                Some ((TEE_SUCCESS, Some (x, session_id)), s\<lparr>g_cur_session := Some x\<rparr>)
              }))
      })"

definition create_session :: "env \<Rightarrow> u32 \<Rightarrow> smc_cmd \<Rightarrow> u32 \<Rightarrow> u32 \<Rightarrow> bool \<Rightarrow> gtask \<Rightarrow> ((u32 \<times> smc_cmd) \<times> gtask) option" where
  "create_session E msg0 cmd cmd_type caller_id handle_ref_cnt s = do {
    level \<leftarrow> get_ta2ta_level cmd_type caller_id s;
    (case level of None \<Rightarrow> do { s \<leftarrow> release_srvc_gc E handle_ref_cnt SUCC_RET s; Some ((TEE_ERROR_GENERIC, cmd), s) }
     | Some level \<Rightarrow> do {
        ((ret, new), s) \<leftarrow> add_new_session_into_list E level s;
        (case new of None \<Rightarrow> do { s \<leftarrow> release_srvc_gc E handle_ref_cnt SUCC_RET s; Some ((ret, cmd), s) }
         | Some (x, session_id) \<Rightarrow> do {
            uuid \<leftarrow> ta_task_init s;
            ((sre_ret, task_id), s) \<leftarrow> sre_task_create E msg0 (Some uuid) s;
            if sre_ret \<noteq> 0 then do { s \<leftarrow> create_task_fail_gc E handle_ref_cnt sre_ret s; Some ((TEE_ERROR_GENERIC, cmd), s) }
            else do {
              t \<leftarrow> task_id;
              s \<leftarrow> upd_session x (\<lambda>y. y\<lparr>s_task_id := t, s_ta2ta_from_taskid := caller_id\<rparr>) s;
              s \<leftarrow> add_session_to_ta2ta_list cmd_type caller_id x s;
              s \<leftarrow> upd_session x (\<lambda>y. y\<lparr>s_wait_ta_back_msg := False\<rparr>) s;
              a \<leftarrow> g_cur_service s;
              v \<leftarrow> services s a;
              let cmd = set_session_context (v_index v) session_id cmd;
              s \<leftarrow> upd_service a (\<lambda>v. v\<lparr>v_session_count := v_session_count v + 1\<rparr>) s;
              Some ((ret, cmd), s)
            }
          })
      })
  }"


section \<open>Opening a session\<close>

text \<open>
  The code takes the address of \<open>session_head.next\<close> for the address of a session list node, so the flag it tests is not one of a session:
  it is some memory of the service, an answer of the environment.
\<close>

definition check_session_accessible :: "env \<Rightarrow> gtask \<Rightarrow> (u32 \<times> gtask) option" where
  "check_session_accessible E s = do {
    b \<leftarrow> is_system_service (g_cur_service s) s;
    if b then Some (TEE_ERROR_ACCESS_DENIED, s)
    else do {
      a \<leftarrow> g_cur_service s;
      v \<leftarrow> services s a;
      if \<not> p_multi_session (v_property v) \<and> v_session_count v > 0 then
        (let (cancelable, s) = ext_bool E Stray_read s
         in if cancelable then Some (TEE_ERROR_BUSY, s) else Some (TEE_ERROR_ACCESS_CONFLICT, s))
      else Some (TEE_SUCCESS, s)
    }
  }"

definition is_session_valid :: "env \<Rightarrow> gtask \<Rightarrow> (u32 \<times> gtask) option" where
  "is_session_valid E s = check_session_accessible E s"

definition check_and_release_ta_elf :: "env \<Rightarrow> gtask \<Rightarrow> gtask option" where
  "check_and_release_ta_elf E s = do {
    a \<leftarrow> g_cur_service s;
    v \<leftarrow> services s a;
    if \<not> build_in E (v_uuid v) \<and> v_elf_state v = ELF_EXIST
    then Some (notify (Sre_release_dynamic_region (v_uuid v) TA_REGION_RELEASE) s) else Some s
  }"

definition do_resc_release_work :: "env \<Rightarrow> bool \<Rightarrow> gtask \<Rightarrow> gtask option" where
  "do_resc_release_work E handle_ref_cnt s = do {
    s \<leftarrow> (if handle_ref_cnt then decr_ref_cnt (g_cur_service s) s else Some s);
    check_and_release_ta_elf E s
  }"

text \<open>\<open>ta2ta_info\<close>: the handle of the caller, and whether the image was loaded by the file loading agent.\<close>

record ta2ta_info_t =
  ta2ta_handle :: int
  is_load_worked :: bool

definition check_handle_ref_cnt :: "env \<Rightarrow> u32 \<Rightarrow> ta2ta_info_t option \<Rightarrow> gtask \<Rightarrow> bool option" where
  "check_handle_ref_cnt E cmd_type ta2ta_info s = do {
    no_load \<leftarrow> (if cmd_type = CMD_TYPE_SECURE_TO_SECURE then map_option (\<lambda>i. \<not> is_load_worked i) ta2ta_info else Some False);
    a \<leftarrow> g_cur_service s;
    v \<leftarrow> services s a;
    Some (\<not> (no_load \<or> build_in E (v_uuid v)))
  }"

definition open_session ::
  "env \<Rightarrow> u32 \<Rightarrow> smc_cmd option \<Rightarrow> u32 \<Rightarrow> u32 \<Rightarrow> ta2ta_info_t option \<Rightarrow> gtask \<Rightarrow> ((u32 \<times> smc_cmd option) \<times> gtask) option" where
  "open_session E msg0 cmd cmd_type caller_id ta2ta_info s = (case (g_cur_service s, cmd) of
      (Some a, Some c) \<Rightarrow>
        if cmd_type = CMD_TYPE_SECURE_TO_SECURE \<and> ta2ta_info = None then Some ((TEE_ERROR_GENERIC, cmd), s)
        else do {
          handle_ref_cnt \<leftarrow> check_handle_ref_cnt E cmd_type ta2ta_info s;
          (ret, s) \<leftarrow> is_session_valid E s;
          if ret \<noteq> TEE_SUCCESS then do { s \<leftarrow> create_task_fail_gc E handle_ref_cnt SUCC_RET s; Some ((ret, cmd), s) }
          else do {
            ((ret, c), s) \<leftarrow> create_session E msg0 c cmd_type caller_id handle_ref_cnt s;
            if ret \<noteq> TEE_SUCCESS then Some ((ret, Some c), s)
            else do {
              x \<leftarrow> g_cur_session s;
              s \<leftarrow> upd_session x (\<lambda>y. y\<lparr>s_cmd_type := cmd_type, s_cmd_in := c\<rparr>) s;
              (ret, s) \<leftarrow> async_call_ta_entry E (Some c) cmd_type CALL_TA_OPEN_SESSION s;
              if is_err_ret ret then do {
                (sre_ret, s) \<leftarrow> open_session_fail_gc E s;
                s \<leftarrow> create_task_fail_gc E handle_ref_cnt sre_ret s;
                Some ((ret, Some c), s)
              }
              else do {
                handle \<leftarrow> (if cmd_type \<noteq> CMD_TYPE_SECURE_TO_SECURE then Some INVALID_SESSION_HANDLE else map_option ta2ta_handle ta2ta_info);
                s \<leftarrow> upd_session x (\<lambda>y. y\<lparr>s_ta2ta_handle := handle\<rparr>) s;
                s \<leftarrow> do_resc_release_work E handle_ref_cnt s;
                Some ((ret, Some c), s)
              }
            }
          }
        }
    | _ \<Rightarrow> Some ((TEE_ERROR_BAD_PARAMETERS, cmd), s))"


section \<open>Closing sessions\<close>

definition release_session :: "env \<Rightarrow> ptr \<Rightarrow> ptr \<Rightarrow> gtask \<Rightarrow> (int \<times> gtask) option" where
  "release_session E service session s = (case (service, session) of
      (Some a, Some x) \<Rightarrow> do {
        v \<leftarrow> services s a;
        y \<leftarrow> sessions s x;
        s \<leftarrow> task_adapt_unregister_ta E (Some (v_uuid v)) (s_task_id y) s;
        s \<leftarrow> upd_service a (\<lambda>v. v\<lparr>v_session_count := v_session_count v - 1\<rparr>) s;
        let backup_service = g_cur_service s;
        let backup_session = g_cur_session s;
        let s = s\<lparr>g_cur_service := Some a, g_cur_session := Some x\<rparr>;
        (sre_ret, s) \<leftarrow> sre_task_delete_ex E (s_task_id y) (v_is_service_dead v) (set_session_context_bit (v_index v) (s_session_id y)) s;
        let s = release_pam_node (s_pam_node y) s;
        s \<leftarrow> task_del_mem_region E x (v_is_service_dead v) s;
        s \<leftarrow> upd_service a (clr_session_bit (s_session_id y)) s;
        s \<leftarrow> unlink_session a x s;
        s \<leftarrow> unlink_child x s;
        s \<leftarrow> tee_unlock_agents E (Some x) s;
        let s = s\<lparr>g_cur_service := backup_service, g_cur_session := backup_session\<rparr>;
        y \<leftarrow> sessions s x;
        s \<leftarrow> (if s_waiting_agent y \<noteq> None then unlink_waiting x s else Some s);
        Some (sre_ret, free_session x s)
      }
    | _ \<Rightarrow> Some (sint TEE_ERROR_BAD_PARAMETERS, s))"

text \<open>The result has the return value and the two pointers afterwards.\<close>

definition process_close_session_entry :: "env \<Rightarrow> ptr \<Rightarrow> ptr \<Rightarrow> gtask \<Rightarrow> ((u32 \<times> ptr \<times> ptr) \<times> gtask) option" where
  "process_close_session_entry E service session s = (case (service, session) of
      (Some a, Some x) \<Rightarrow> do {
        (sre_ret, s) \<leftarrow> release_session E service session s;
        v \<leftarrow> services s a;
        if sre_ret = TIMEOUT_FAIL_RET then
          (if v_session_count v = 0 then
             (if \<not> build_in E (v_uuid v) then do {
                s \<leftarrow> process_release_service E service TA_REGION_RELEASE s;
                Some ((TEE_SUCCESS, None, None), s)
              }
              else do {
                s \<leftarrow> upd_service a (\<lambda>v. v\<lparr>v_init_build := 0\<rparr>) s;
                s \<leftarrow> recycle_srvc_thread E service s;
                Some ((TEE_SUCCESS, service, None), s)
              })
           else Some ((TEE_SUCCESS, service, None), s))
        else if v_session_count v = 0 \<and> v_ref_cnt v = 0 \<and> \<not> p_keep_alive (v_property v) then
          (if \<not> build_in E (v_uuid v) then do {
             s \<leftarrow> process_release_service E service TA_REGION_RELEASE s;
             Some ((TEE_SUCCESS, None, None), s)
           }
           else do {
             s \<leftarrow> upd_service a (\<lambda>v. v\<lparr>v_init_build := 0\<rparr>) s;
             s \<leftarrow> recycle_srvc_thread E service s;
             Some ((TEE_SUCCESS, service, None), s)
           })
        else Some ((TEE_SUCCESS, service, None), s)
      }
    | _ \<Rightarrow> Some ((TEE_ERROR_BAD_PARAMETERS, service, session), s))"

text \<open>
  One pass over the live services: the first session opened by the task, with its service.  The flag says that a live service was
  seen before, since only a live service resets \<open>need_reiterate\<close>.
\<close>

fun find_target :: "gtask \<Rightarrow> u32 \<Rightarrow> bool \<Rightarrow> addr list \<Rightarrow> (bool \<times> (addr \<times> addr) option) option" where
  "find_target s from_taskid live [] = Some (live, None)"
| "find_target s from_taskid live (a # as) = do {
    v \<leftarrow> services s a;
    if v_is_service_dead v then find_target s from_taskid live as
    else do {
      e \<leftarrow> find_entry (sessions s) (\<lambda>y. s_ta2ta_from_taskid y = from_taskid) (v_session_head v);
      (case e of None \<Rightarrow> find_target s from_taskid True as | Some x \<Rightarrow> Some (True, Some (a, x)))
    }
  }"

text \<open>
  \<open>do_target_session_close\<close> and \<open>process_close_ta2ta_target_sessions\<close>.  Closing a session always clears its pointer, so after each
  close the pass starts again; the argument \<open>need\<close> is \<open>need_reiterate\<close> at the start of a pass.
\<close>

partial_function (option) process_close_ta2ta_target_sessions :: "env \<Rightarrow> u32 \<Rightarrow> u32 \<Rightarrow> bool \<Rightarrow> gtask \<Rightarrow> gtask option" where
  "process_close_ta2ta_target_sessions E from_taskid level need s = (
    case find_target s from_taskid False (g_service_head s) of None \<Rightarrow> None
    | Some (live, None) \<Rightarrow>
        if need \<and> \<not> live then process_close_ta2ta_target_sessions E from_taskid level need s else Some s
    | Some (live, Some (a, x)) \<Rightarrow> (case sessions s x of None \<Rightarrow> None
      | Some y \<Rightarrow> Option.bind
          (if level < MAX_TA2TA_LEVEL then process_close_ta2ta_target_sessions E (s_task_id y) (level + 1) False s else Some s)
          (\<lambda>s. case process_close_session_entry E (Some a) (Some x) s of None \<Rightarrow> None
            | Some (_, s) \<Rightarrow> process_close_ta2ta_target_sessions E from_taskid level True s)))"

declare process_close_ta2ta_target_sessions.simps [code]

definition process_close_session :: "env \<Rightarrow> gtask \<Rightarrow> (u32 \<times> gtask) option" where
  "process_close_session E s = (case g_cur_session s of None \<Rightarrow> Some (TEE_ERROR_BAD_PARAMETERS, s)
    | Some x \<Rightarrow> do {
        y \<leftarrow> sessions s x;
        s \<leftarrow> process_close_ta2ta_target_sessions E (s_task_id y) (s_ta2ta_level y) False s;
        ((ret, service, session), s) \<leftarrow> process_close_session_entry E (g_cur_service s) (g_cur_session s) s;
        Some (ret, s\<lparr>g_cur_service := service, g_cur_session := session\<rparr>)
      })"

definition process_open_session_error :: "env \<Rightarrow> gtask \<Rightarrow> gtask option" where
  "process_open_session_error E s = do {
    a \<leftarrow> g_cur_service s;
    v \<leftarrow> services s a;
    x \<leftarrow> g_cur_session s;
    y \<leftarrow> sessions s x;
    s \<leftarrow> task_adapt_unregister_ta E (Some (v_uuid v)) (s_task_id y) s;
    let s = release_pam_node (s_pam_node y) s;
    s \<leftarrow> task_del_mem_region E x False s;
    s \<leftarrow> upd_service a (\<lambda>v. v\<lparr>v_session_count := v_session_count v - 1\<rparr>) s;
    (sre_ret, s) \<leftarrow> sre_task_delete_ex E (s_task_id y) False (set_session_context_bit (v_index v) (s_session_id y)) s;
    s \<leftarrow> upd_service a (clr_session_bit (s_session_id y)) s;
    s \<leftarrow> unlink_session a x s;
    s \<leftarrow> unlink_child x s;
    let s = (free_session x s)\<lparr>g_cur_session := None\<rparr>;
    v \<leftarrow> services s a;
    if sre_ret = TIMEOUT_FAIL_RET then
      (if v_session_count v = 0 then
         (if \<not> build_in E (v_uuid v) then release_cur_service E s
          else do { s \<leftarrow> upd_service a (\<lambda>v. v\<lparr>v_init_build := 0\<rparr>) s; recycle_srvc_thread E (Some a) s })
       else Some s)
    else if v_session_count v = 0 \<and> v_ref_cnt v = 0 then
      (if \<not> build_in E (v_uuid v) then
         (if \<not> p_keep_alive (v_property v) \<or> p_keep_alive (v_property v) \<and> v_first_open v then release_cur_service E s else Some s)
       else if \<not> p_keep_alive (v_property v) then
         do { s \<leftarrow> upd_service a (\<lambda>v. v\<lparr>v_init_build := 0\<rparr>) s; recycle_srvc_thread E (Some a) s }
       else Some s)
    else Some s
  }"

definition process_open_session :: "env \<Rightarrow> smc_cmd option \<Rightarrow> u32 \<Rightarrow> gtask \<Rightarrow> (u32 \<times> gtask) option" where
  "process_open_session E cmd cmd_type s = (case cmd of None \<Rightarrow> Some (TEE_ERROR_BAD_PARAMETERS, s)
    | Some c \<Rightarrow> (case (g_cur_service s, g_cur_session s) of
        (Some a, Some x) \<Rightarrow> do {
          v \<leftarrow> services s a;
          y \<leftarrow> sessions s x;
          let entry_msg = (if v_session_count v = 1 then zero_msg\<lparr>m_first_session := True\<rparr> else zero_msg);
          let entry_msg = entry_msg\<lparr>m_session_id := set_session_context_bit (v_index v) (s_session_id y),
            m_session_context := s_session_context y, m_cmd_id := c_cmd_id c, m_dev_id := c_dev_file_id c, m_started := c_started c\<rparr>;
          ((ret, param_type, params), s) \<leftarrow> (if cmd_type = CMD_TYPE_NS_TO_SECURE then cmd_ns_get_params E (s_task_id y) cmd s
            else cmd_secure_get_params E (s_task_id y) cmd s);
          if ret \<noteq> TEE_SUCCESS then do { s \<leftarrow> process_open_session_error E s; Some (TEE_ERROR_GENERIC, s) }
          else do {
            let entry_msg = entry_msg\<lparr>m_param_type := param_type, m_params := params,
              m_session_type := if cmd_type = CMD_TYPE_NS_TO_SECURE then SESSION_FROM_CA else SESSION_FROM_TA\<rparr>;
            (ret, s) \<leftarrow> send_global2ta_msg E entry_msg CALL_TA_OPEN_SESSION (s_task_id y) None s;
            if ret \<noteq> 0 then Some (ret, s)
            else do { s \<leftarrow> upd_session x (\<lambda>y. y\<lparr>s_wait_ta_back_msg := True\<rparr>) s; Some (TEE_SUCCESS, s) }
          }
        }
      | _ \<Rightarrow> Some (TEE_ERROR_SESSION_NOT_EXIST, s)))"

definition process_init_session :: "env \<Rightarrow> gtask \<Rightarrow> (bool \<times> gtask) option" where
  "process_init_session E s = (case (g_cur_service s, g_cur_session s) of
      (Some a, Some x) \<Rightarrow> do {
        v \<leftarrow> services s a;
        y \<leftarrow> sessions s x;
        if p_other_buff (v_property v) \<noteq> None \<and> p_other_len (v_property v) \<noteq> 0 then
          (let (ret, s) = ext_ret E (Ipc_msg_snd CALL_TA_OPEN_SESSION_PROP (s_task_id y) Msg_prop) s in
           if ret \<noteq> 0 then Some (False, s)
           else do { s \<leftarrow> upd_session x (\<lambda>y. y\<lparr>s_wait_ta_back_msg := True\<rparr>) s; Some (True, s) })
        else Some (False, s)
      }
    | _ \<Rightarrow> Some (False, s))"

text \<open>The second result is \<open>*sync\<close>; it is not written when the arguments are bad.\<close>

definition close_session :: "env \<Rightarrow> smc_cmd option \<Rightarrow> u32 \<Rightarrow> gtask \<Rightarrow> ((u32 \<times> bool option) \<times> gtask) option" where
  "close_session E cmd cmd_type s = (case (cmd, g_cur_service s) of
      (Some c, Some a) \<Rightarrow> do {
        v \<leftarrow> services s a;
        if is_gtask_by_uuid (v_uuid v) then Some ((TEE_SUCCESS, Some True), s)
        else (case g_cur_session s of None \<Rightarrow> Some ((TEE_ERROR_SESSION_NOT_EXIST, Some False), s)
          | Some x \<Rightarrow> do {
              y \<leftarrow> sessions s x;
              if s_session_id y = 0 \<or> unat (s_session_id y) > MAX_SESSION_ID then Some ((TEE_ERROR_SESSION_NOT_EXIST, Some False), s)
              else do {
                s \<leftarrow> upd_session x (\<lambda>y. y\<lparr>s_cmd_in := c\<rparr>) s;
                (ret, s) \<leftarrow> async_call_ta_entry E cmd cmd_type CALL_TA_CLOSE_SESSION s;
                Some ((ret, Some False), s)
              }
            })
      }
    | _ \<Rightarrow> Some ((TEE_ERROR_BAD_PARAMETERS, None), s))"

definition close_session_async :: "env \<Rightarrow> ptr \<Rightarrow> gtask \<Rightarrow> (u32 \<times> gtask) option" where
  "close_session_async E sess s = (case sess of None \<Rightarrow> Some (TEE_ERROR_BAD_PARAMETERS, s)
    | Some x \<Rightarrow> do {
        y \<leftarrow> sessions s x;
        e \<leftarrow> find_service_by_task_id E s (s_task_id y);
        (case e of None \<Rightarrow> Some (TEE_ERROR_SERVICE_NOT_EXIST, s)
         | Some a \<Rightarrow> do {
            let s = s\<lparr>g_cur_service := Some a, g_cur_session := Some x\<rparr>;
            s \<leftarrow> upd_session x (\<lambda>y. y\<lparr>s_cmd_in := (s_cmd_in y)\<lparr>c_operation_phys := 0, c_operation_h_phys := 0\<rparr>\<rparr>) s;
            y \<leftarrow> sessions s x;
            async_call_ta_entry E (Some (s_cmd_in y)) (s_cmd_type y) CALL_TA_CLOSE_SESSION s
          })
      })"

end
