(* ===== verification/Session_Inv.thy ===== *)
theory Session_Inv
  imports Session_Manager
begin

text \<open>
  The invariant of sessions, and that the operations of theory \<open>Session_Manager\<close> keep it.  The invariant joins those of services, agents
  and internal tasks with the one of the child lists: a session is on the list of children of exactly the session it names.

  Most operations leave the shape of the state as it is: which objects exist, how they are linked, and the numbers they are found by.  \<open>keep\<close> says
  so, and everything that depends on the shape alone follows.
\<close>

section \<open>The shape of a state\<close>

definition svc_key :: "service_struct \<Rightarrow> TEE_UUID \<times> u32 \<times> addr list \<times> u32 list \<times> u32 \<times> bool" where
  "svc_key v = (v_uuid v, v_index v, v_session_head v, v_session_bitmap v, v_session_count v, v_is_service_dead v)"

definition sess_key :: "session_struct \<Rightarrow> u32 \<times> u32 \<times> u32 \<times> u32 \<times> addr list \<times> ptr \<times> addr list \<times> ptr" where
  "sess_key y = (s_session_id y, s_task_id y, s_ta2ta_from_taskid y, s_ta2ta_level y, s_locked_agents y, s_waiting_agent y,
    s_child_ta_sess_head y, s_child_ta_sess_list y)"

definition keep :: "gtask \<Rightarrow> gtask \<Rightarrow> bool" where
  "keep s s' \<longleftrightarrow> g_service_head s' = g_service_head s \<and> g_service_index_map s' = g_service_index_map s \<and> g_cur_index s' = g_cur_index s \<and>
    (\<forall>a. map_option svc_key (services s' a) = map_option svc_key (services s a)) \<and>
    (\<forall>x. map_option sess_key (sessions s' x) = map_option sess_key (sessions s x)) \<and>
    g_agent_head s' = g_agent_head s \<and> agents s' = agents s \<and> g_agent_cnt s' = g_agent_cnt s \<and>
    tasks s' = tasks s \<and> g_task_list_head s' = g_task_list_head s \<and> g_task_list_num s' = g_task_list_num s \<and>
    g_cur_service s' = g_cur_service s \<and> g_cur_session s' = g_cur_session s"

lemma keep_refl [simp, intro]: "keep s s"
  by (simp add: keep_def)

lemma keep_trans: "keep s s' \<Longrightarrow> keep s' s'' \<Longrightarrow> keep s s''"
  by (simp add: keep_def)

lemma keep_sym: "keep s s' \<Longrightarrow> keep s' s"
  by (simp add: keep_def)

lemma keep_notify [simp]: "keep s (notify c s') = keep s s'" "keep (notify c s) s' = keep s s'"
  by (simp_all add: keep_def)

lemma keep_quiet: "quiet s s' \<Longrightarrow> keep s s'"
  by (simp add: keep_def quietD)

lemma keep_mem_step:
  assumes "mem_step P s s'"
  shows "keep s s'"
proof -
  have "map_option sess_key (sessions s' x) = map_option sess_key (sessions s x)" for x
  proof -
    have k: "sess_key (sess_core y) = sess_key y" for y by (simp add: sess_key_def sess_core_def)
    have "map_option sess_key (map_option sess_core (sessions s' x)) = map_option sess_key (map_option sess_core (sessions s x))"
      using assms by (simp add: mem_step_def)
    then show ?thesis by (simp add: option.map_comp comp_def k)
  qed
  then show ?thesis using mem_stepD[OF assms] mem_step_tasks[OF assms] by (simp add: keep_def)
qed

lemma keep_sets_thread:
  assumes "sets_thread a s s'"
  shows "keep s s'"
proof -
  obtain v t h where "services s a = Some v" "s' = s\<lparr>services := (services s)(a \<mapsto> v\<lparr>v_service_thread := t\<rparr>), history := h\<rparr>"
    using assms by (auto simp: sets_thread_def)
  then show ?thesis by (simp add: keep_def svc_key_def v_uuid_def)
qed

lemma keep_session:
  assumes "keep s s'" "sessions s' x = Some y" "sess_key y' = sess_key y"
  shows "keep s (s'\<lparr>sessions := (sessions s')(x \<mapsto> y')\<rparr>)"
  by (rule keep_trans[OF assms(1)]) (use assms(2,3) in \<open>simp add: keep_def\<close>)

lemma keep_service:
  assumes "keep s s'" "services s' a = Some v" "svc_key v' = svc_key v"
  shows "keep s (s'\<lparr>services := (services s')(a \<mapsto> v')\<rparr>)"
  by (rule keep_trans[OF assms(1)]) (use assms(2,3) in \<open>simp add: keep_def\<close>)

lemma keepD:
  assumes "keep s s'"
  shows "g_service_head s' = g_service_head s" "agents s' = agents s" "tasks s' = tasks s" "g_cur_service s' = g_cur_service s"
    "g_cur_session s' = g_cur_session s" "map_option svc_key (services s' a) = map_option svc_key (services s a)"
    "map_option sess_key (sessions s' x) = map_option sess_key (sessions s x)"
  using assms by (simp_all add: keep_def)

lemma map_option_SomeD: "map_option f z' = map_option f z \<Longrightarrow> z = Some y \<Longrightarrow> \<exists>y'. z' = Some y' \<and> f y' = f y"
  by (cases z') auto

lemma keep_sessionD:
  assumes "keep s s'" "sessions s x = Some y"
  obtains y' where "sessions s' x = Some y'" "sess_key y' = sess_key y"
  using map_option_SomeD[OF keepD(7)[OF assms(1), of x] assms(2)] by blast

lemma keep_serviceD:
  assumes "keep s s'" "services s a = Some v"
  obtains v' where "services s' a = Some v'" "svc_key v' = svc_key v"
  using map_option_SomeD[OF keepD(6)[OF assms(1), of a] assms(2)] by blast

lemma keep_alive: "keep s s' \<Longrightarrow> sessions s' x = None \<longleftrightarrow> sessions s x = None" "keep s s' \<Longrightarrow> services s' a = None \<longleftrightarrow> services s a = None"
  using keepD(6,7)[of s s'] by (metis map_option_is_None)+

lemma svc_keyD:
  assumes "svc_key v' = svc_key v"
  shows "v_uuid v' = v_uuid v" "v_index v' = v_index v" "v_session_head v' = v_session_head v" "v_session_bitmap v' = v_session_bitmap v"
    "v_session_count v' = v_session_count v" "v_is_service_dead v' = v_is_service_dead v"
  using assms by (simp_all add: svc_key_def)

lemma sess_keyD:
  assumes "sess_key y' = sess_key y"
  shows "s_session_id y' = s_session_id y" "s_task_id y' = s_task_id y" "s_ta2ta_from_taskid y' = s_ta2ta_from_taskid y"
    "s_ta2ta_level y' = s_ta2ta_level y" "s_locked_agents y' = s_locked_agents y" "s_waiting_agent y' = s_waiting_agent y"
    "s_child_ta_sess_head y' = s_child_ta_sess_head y" "s_child_ta_sess_list y' = s_child_ta_sess_list y"
  using assms by (simp_all add: sess_key_def)

lemma map_option_via:
  assumes "map_option f z' = map_option f z" "\<And>y y'. f y' = f y \<Longrightarrow> g y' = g y"
  shows "map_option g z' = map_option g z"
proof (cases z)
  case None
  then show ?thesis using assms(1) by simp
next
  case (Some y)
  then obtain y' where "z' = Some y'" "f y' = f y" using map_option_SomeD[OF assms(1)] by blast
  then show ?thesis using Some assms(2)[of y' y] by simp
qed


section \<open>The invariant\<close>

definition parent :: "sess_store \<Rightarrow> addr \<Rightarrow> ptr" where
  "parent sess x = Option.bind (sess x) s_child_ta_sess_list"

definition children :: "sess_store \<Rightarrow> addr \<Rightarrow> addr list" where
  "children sess x = (case sess x of None \<Rightarrow> [] | Some y \<Rightarrow> s_child_ta_sess_head y)"

definition wf_links :: "sess_store \<Rightarrow> bool" where
  "wf_links sess \<longleftrightarrow> (\<forall>x p. x \<in> set (children sess p) \<longleftrightarrow> parent sess x = Some p) \<and> (\<forall>p. distinct (children sess p))"

definition wf_gtask :: "gtask \<Rightarrow> bool" where
  "wf_gtask s \<longleftrightarrow> wf_services s \<and> wf_agents s \<and> wf_tasks s \<and> wf_links (sessions s)"

lemma wf_gtaskD:
  assumes "wf_gtask s"
  shows "wf_services s" "wf_agents s" "wf_tasks s" "wf_links (sessions s)" "linked s"
  using assms by (simp_all add: wf_gtask_def wf_services_linked)

text \<open>The current session is one of the current service.\<close>

definition cur_ok :: "gtask \<Rightarrow> bool" where
  "cur_ok s \<longleftrightarrow> (\<forall>a. g_cur_service s = Some a \<longrightarrow> services s a \<noteq> None) \<and>
    (\<forall>x. g_cur_session s = Some x \<longrightarrow> (\<exists>a v. g_cur_service s = Some a \<and> services s a = Some v \<and> x \<in> set (v_session_head v)))"

lemma link_views_upd [simp]:
  "parent (sess(x \<mapsto> y)) = (parent sess)(x := s_child_ta_sess_list y)" "children (sess(x \<mapsto> y)) = (children sess)(x := s_child_ta_sess_head y)"
  "parent (sess(x := None)) = (parent sess)(x := None)" "children (sess(x := None)) = (children sess)(x := [])"
  by (auto simp: parent_def children_def fun_eq_iff)

lemma link_views_Some:
  "sess x = Some y \<Longrightarrow> parent sess x = s_child_ta_sess_list y" "sess x = Some y \<Longrightarrow> children sess x = s_child_ta_sess_head y"
  by (simp_all add: parent_def children_def)

lemma link_views_cong:
  assumes "\<And>x. map_option s_child_ta_sess_head (sess' x) = map_option s_child_ta_sess_head (sess x)"
    "\<And>x. map_option s_child_ta_sess_list (sess' x) = map_option s_child_ta_sess_list (sess x)"
  shows "parent sess' = parent sess" "children sess' = children sess"
proof -
  have "parent sess' x = parent sess x \<and> children sess' x = children sess x" for x
    using assms[of x] by (cases "sess x"; cases "sess' x") (auto simp: parent_def children_def)
  then show "parent sess' = parent sess" "children sess' = children sess" by auto
qed

lemma wf_svcs_key_cong:
  assumes svcs: "\<And>a. map_option svc_key (svcs' a) = map_option svc_key (svcs a)"
    and sess: "\<And>x. map_option s_session_id (sess' x) = map_option s_session_id (sess x)"
    and wf: "wf_svcs head svcs sess bm cur"
  shows "wf_svcs head svcs' sess' bm cur"
proof -
  have bwd: "\<exists>w. svcs a = Some w \<and> svc_key w = svc_key v" if "svcs' a = Some v" for a v
    using map_option_SomeD[OF svcs[of a, symmetric] that] by blast
  have fwd: "\<exists>w. svcs' a = Some w \<and> svc_key w = svc_key v" if "svcs a = Some v" for a v
    using map_option_SomeD[OF svcs[of a] that] by blast
  have ident: "map_option ident (svcs' a) = map_option ident (svcs a)" for a
    by (rule map_option_via[OF svcs]) (simp add: ident_def svc_key_def)
  have "service_wf sess' v" if a: "svcs' a = Some v" for a v
  proof -
    obtain w where w: "svcs a = Some w" "svc_key w = svc_key v" using bwd[OF a] by blast
    then have "service_wf sess' w" using wf service_wf_cong[of w sess' sess, OF sess] by (auto simp: wf_svcs_def)
    then show ?thesis using svc_keyD[OF w(2)] by (simp add: service_wf_def)
  qed
  moreover have "sessions_owned svcs' sess'"
  proof -
    have own: "sessions_owned svcs sess" using wf by (simp add: wf_svcs_def)
    have "a = b" if "svcs' a = Some v" "svcs' b = Some w" "x \<in> set (v_session_head v)" "x \<in> set (v_session_head w)" for a b v w x
      using bwd[OF that(1)] bwd[OF that(2)] own that(3,4) unfolding sessions_owned_def by (metis svc_keyD(3))
    moreover have "\<exists>a v. svcs' a = Some v \<and> x \<in> set (v_session_head v)" if x: "sess' x \<noteq> None" for x
    proof -
      have "sess x \<noteq> None" using x sess[of x] by (cases "sess x") auto
      then obtain a v where "svcs a = Some v" "x \<in> set (v_session_head v)" using own by (auto simp: sessions_owned_def)
      then show ?thesis using fwd by (metis svc_keyD(3))
    qed
    ultimately show ?thesis unfolding sessions_owned_def by blast
  qed
  moreover have "svcs' a = None \<longleftrightarrow> svcs a = None" for a using svcs[of a] by (metis map_option_is_None)
  ultimately show ?thesis
    using wf index_wf_ident[OF ident] live_uuids_ident[OF ident] by (auto simp: wf_svcs_def)
qed

lemma keep_via:
  assumes "keep s s'" "\<And>y y'. sess_key y' = sess_key y \<Longrightarrow> g y' = g y"
  shows "map_option g (sessions s' x) = map_option g (sessions s x)"
  by (rule map_option_via[OF keepD(7)[OF assms(1)] assms(2)])

lemma keep_parts:
  assumes k: "keep s s'"
  shows "wf_services s \<Longrightarrow> wf_services s'" "wf_agents s \<Longrightarrow> wf_agents s'" "wf_tasks s \<Longrightarrow> wf_tasks s'"
    "parent (sessions s') = parent (sessions s)" "children (sessions s') = children (sessions s)"
    "locked_by (sessions s') = locked_by (sessions s)" "waits_for (sessions s') = waits_for (sessions s)"
proof -
  note same = k[unfolded keep_def]
  show "wf_services s'" if "wf_services s"
    using that same wf_svcs_key_cong[OF keepD(6)[OF k] keep_via[OF k sess_keyD(1)]] by (simp add: wf_services_def)
  show "wf_agents s'" if "wf_agents s"
    using that same wf_locks_sess_cong[OF keep_via[OF k sess_keyD(5)] keep_via[OF k sess_keyD(6)]] by (simp add: wf_agents_def)
  show "wf_tasks s'" if "wf_tasks s" using that same by (simp add: wf_tasks_def)
  show "parent (sessions s') = parent (sessions s)" "children (sessions s') = children (sessions s)"
    by (rule link_views_cong; rule keep_via[OF k]; erule sess_keyD)+
  have l: "map_option s_locked_agents (sessions s' x) = map_option s_locked_agents (sessions s x)"
    "map_option s_waiting_agent (sessions s' x) = map_option s_waiting_agent (sessions s x)" for x
    by (rule keep_via[OF k]; erule sess_keyD)+
  have "locked_by (sessions s') x = locked_by (sessions s) x \<and> waits_for (sessions s') x = waits_for (sessions s) x" for x
    using l[of x] by (cases "sessions s x"; cases "sessions s' x") (auto simp: locked_by_def waits_for_def)
  then show "locked_by (sessions s') = locked_by (sessions s)" "waits_for (sessions s') = waits_for (sessions s)" by auto
qed

lemma wf_gtask_keep:
  assumes "keep s s'" "wf_gtask s"
  shows "wf_gtask s'"
  using assms(2) keep_parts[OF assms(1)] by (simp add: wf_gtask_def wf_links_def)

lemma cur_ok_keep:
  assumes "keep s s'" "cur_ok s"
  shows "cur_ok s'"
proof -
  have "\<exists>v'. services s' a = Some v' \<and> x \<in> set (v_session_head v')" if "services s a = Some v" "x \<in> set (v_session_head v)" for a v x
    using keep_serviceD[OF assms(1) that(1)] that(2) by (metis svc_keyD(3))
  then show ?thesis using assms(2) keep_alive(2)[OF assms(1)] unfolding cur_ok_def keepD[OF assms(1)] by blast
qed

lemma cur_okE:
  assumes "wf_gtask s" "cur_ok s" "g_cur_session s = Some x"
  obtains a v y where "g_cur_service s = Some a" "services s a = Some v" "x \<in> set (v_session_head v)" "sessions s x = Some y"
proof -
  obtain a v where av: "g_cur_service s = Some a" "services s a = Some v" "x \<in> set (v_session_head v)"
    using assms(2,3) by (auto simp: cur_ok_def)
  then have "sessions s x \<noteq> None" using wf_servicesD[OF wf_gtaskD(1)[OF assms(1)] av(2)] by (simp add: service_wf_def)
  then show thesis using that av by auto
qed

lemma cur_ok_imp: "wf_gtask s \<Longrightarrow> cur_ok s \<Longrightarrow> cur_session_ok s" "cur_ok s \<Longrightarrow> cur_service_ok s"
  by (auto simp: cur_session_ok_def cur_service_ok_def elim: cur_okE split: option.splits) (auto simp: cur_ok_def)


section \<open>Operations that keep the shape\<close>

lemma get_params_keep:
  assumes "wf_gtask s" "cur_ok s" "g_cur_session s \<noteq> None"
  shows "okay (cmd_ns_get_params E t cmd s) (\<lambda>((r, ty, p), s'). keep s s')"
    "okay (cmd_secure_get_params E t cmd s) (\<lambda>((r, ty, p), s'). keep s s')"
proof -
  note wf = wf_gtaskD(1)[OF assms(1)] cur_ok_imp(1)[OF assms(1,2)]
  show "okay (cmd_ns_get_params E t cmd s) (\<lambda>((r, ty, p), s'). keep s s')"
    by (rule okay_conseq[OF cmd_ns_get_params_step[OF covers_True wf, of t E cmd]]) (use assms(3) in \<open>auto intro: keep_mem_step\<close>)
  show "okay (cmd_secure_get_params E t cmd s) (\<lambda>((r, ty, p), s'). keep s s')"
    by (rule okay_conseq[OF cmd_secure_get_params_step[OF wf, of t E cmd]]) (use assms(3) in \<open>auto intro: keep_mem_step\<close>)
qed

lemma release_pam_node_keep [simp]: "keep s (release_pam_node n s') = keep s s'"
proof -
  have "keep s' (release_pam_node n s')" by (rule keep_mem_step[of "\<lambda>_. True"]) (simp add: release_pam_node_step)
  then show ?thesis using keep_trans keep_sym by blast
qed

lemma release_pam_node_sel [simp]:
  "g_cur_service (release_pam_node n s) = g_cur_service s" "g_cur_session (release_pam_node n s) = g_cur_session s"
  "services (release_pam_node n s) = services s" "g_service_head (release_pam_node n s) = g_service_head s"
  using mem_stepD[of "\<lambda>_. True" s "release_pam_node n s"] release_pam_node_step[of "\<lambda>_. True" s s n] by simp_all

lemma del_regions_quiet: "quiet s s' \<Longrightarrow> quiet s (del_regions E ms d s')"
  by (induction ms arbitrary: s') (simp_all add: ext_pair)

lemma task_del_mem_region_keep:
  assumes "sessions s x = Some y"
  shows "okay (task_del_mem_region E x d s) (\<lambda>s'. keep s s' \<and> services s' = services s)"
proof -
  let ?s = "del_regions E (s_map_mem y) d s"
  have q: "quiet s ?s" by (simp add: del_regions_quiet)
  then have x: "sessions ?s x = Some y" using assms by (simp add: quietD)
  show ?thesis
    using assms x quietD(2)[OF q]
    by (simp add: task_del_mem_region_def keep_session[OF keep_quiet[OF q] x] sess_key_def)
qed

lemma call_ta_invoke_close_session_keep:
  assumes wf: "wf_gtask s" "cur_ok s" and x: "g_cur_session s = Some x"
  shows "okay (call_ta_invoke_close_session E cmd cmd_type cmd_id m s) (\<lambda>((r, m'), s'). keep s s')"
proof -
  obtain a v y where av: "g_cur_service s = Some a" "services s a = Some v" "sessions s x = Some y"
    using cur_okE[OF wf x] by blast
  obtain r ty p s1 where s1: "(if cmd_type = CMD_TYPE_NS_TO_SECURE then cmd_ns_get_params E (s_task_id y) (Some cmd) s
      else cmd_secure_get_params E (s_task_id y) (Some cmd) s) = Some ((r, ty, p), s1)" "keep s s1"
    using get_params_keep[OF wf, of E "s_task_id y" "Some cmd"] x by (cases "cmd_type = CMD_TYPE_NS_TO_SECURE") (auto simp: okay_iff)
  show ?thesis
    using x av s1(2) unfolding call_ta_invoke_close_session_def by (simp add: s1(1) Let_def)
qed

lemma check_and_process_init_build_keep:
  assumes wf: "wf_gtask s" "cur_ok s" and x: "g_cur_session s = Some x"
  shows "okay (check_and_process_init_build E m s) (\<lambda>((r, f, m'), s'). keep s s')"
proof -
  obtain a v y where av: "g_cur_service s = Some a" "services s a = Some v" "sessions s x = Some y"
    using cur_okE[OF wf x] by blast
  define s1 where "s1 = s\<lparr>services := (services s)(a \<mapsto> v\<lparr>v_init_build := 1\<rparr>)\<rparr>"
  have k1: "keep s s1" unfolding s1_def using av(2) by (intro keep_service) (auto simp: svc_key_def v_uuid_def)
  define im where "im = (set_init_msg_prop (v_property v) zero_init_msg)\<lparr>i_login_method := s_login_method y\<rparr>"
  obtain r s2 where s2: "send_ta_init_msg E im (v_ta_64bit v) CALL_TA_OPEN_SESSION_INIT (s_task_id y) s1 = (r, s2)" by fastforce
  then have q: "quiet s1 s2" using send_ta_init_msg_quiet[of s1 E im "v_ta_64bit v" CALL_TA_OPEN_SESSION_INIT "s_task_id y"] by simp
  have k2: "keep s s2" using k1 keep_quiet[OF q] by (rule keep_trans)
  have y2: "sessions s2 x = Some y" using quietD(3)[OF q] av(3) by (simp add: s1_def)
  have k3: "keep s (s2\<lparr>sessions := (sessions s2)(x \<mapsto> y\<lparr>s_wait_ta_back_msg := True\<rparr>)\<rparr>)"
    by (rule keep_session[OF k2 y2]) (simp add: sess_key_def)
  have e: "check_and_process_init_build E m s = (if v_init_build v = 0 then
      (if r \<noteq> TEE_SUCCESS then Some ((r, True, m), s2)
       else Some ((TEE_SUCCESS, True, m), s2\<lparr>sessions := (sessions s2)(x \<mapsto> y\<lparr>s_wait_ta_back_msg := True\<rparr>)\<rparr>))
     else Some ((TEE_SUCCESS, False, if v_session_count v = 1 then m\<lparr>m_first_session := True\<rparr> else m), s))"
    using av x y2 s2[unfolded s1_def im_def] by (simp add: check_and_process_init_build_def Let_def)
  show ?thesis unfolding e using k2 k3 by simp
qed

lemma async_call_ta_entry_keep:
  assumes wf: "wf_gtask s" "cur_ok s"
  shows "okay (async_call_ta_entry E cmd cmd_type cmd_id s) (\<lambda>(r, s'). keep s s')"
proof (cases "cmd = None \<or> g_cur_session s = None")
  case True
  then show ?thesis by (auto simp: async_call_ta_entry_def split: option.splits)
next
  case False
  then obtain c x where c: "cmd = Some c" "g_cur_session s = Some x" by auto
  obtain y where y: "sessions s x = Some y" using cur_okE[OF wf c(2)] by blast
  define s1 where "s1 = s\<lparr>sessions := (sessions s)(x \<mapsto> y\<lparr>s_login_method := c_login_method c\<rparr>)\<rparr>"
  have k1: "keep s s1" unfolding s1_def using y by (intro keep_session) (auto simp: sess_key_def)
  note wf1 = wf_gtask_keep[OF k1 wf(1)] cur_ok_keep[OF k1 wf(2)]
  have x1: "g_cur_session s1 = Some x" using c(2) by (simp add: s1_def)
  obtain r f m s2 where s2: "(if cmd_id = CALL_TA_OPEN_SESSION then check_and_process_init_build E zero_msg s1
      else Some ((TEE_SUCCESS, False, zero_msg), s1)) = Some ((r, f, m), s2)" "keep s1 s2"
    using check_and_process_init_build_keep[OF wf1 x1, of E zero_msg] by (cases "cmd_id = CALL_TA_OPEN_SESSION") (auto simp: okay_iff)
  note wf2 = wf_gtask_keep[OF s2(2) wf1(1)] cur_ok_keep[OF s2(2) wf1(2)]
  have x2: "g_cur_session s2 = Some x" using keepD(5)[OF s2(2)] x1 by simp
  obtain r3 m3 s3 where s3: "call_ta_invoke_close_session E c cmd_type cmd_id m s2 = Some ((r3, m3), s3)" "keep s2 s3"
    using call_ta_invoke_close_session_keep[OF wf2 x2, of E c cmd_type cmd_id m] by (auto simp: okay_iff)
  have "linked s3" using wf_gtaskD(5)[OF wf_gtask_keep[OF s3(2) wf2(1)]] .
  then obtain r4 s4 where s4: "send_global2ta_msg E m3 cmd_id (s_task_id y) None s3 = Some (r4, s4)" "quiet s3 s4"
    by (rule send_global2ta_msgE)
  have k2: "keep s s2" using k1 s2(2) by (rule keep_trans)
  have k3: "keep s s3" using k2 s3(2) by (rule keep_trans)
  have k4: "keep s s4" using k3 keep_quiet[OF s4(2)] by (rule keep_trans)
  obtain y4 where y4: "sessions s4 x = Some y4" by (rule keep_sessionD[OF k4 y])
  have k5: "keep s (s4\<lparr>sessions := (sessions s4)(x \<mapsto> y4\<lparr>s_wait_ta_back_msg := True\<rparr>)\<rparr>)"
    by (rule keep_session[OF k4 y4]) (simp add: sess_key_def)
  have e: "async_call_ta_entry E cmd cmd_type cmd_id s = (
      if s_agent_pending y then Some (TEE_ERROR_BUSY, s)
      else if cmd_id \<noteq> CALL_TA_OPEN_SESSION \<and> cmd_id \<noteq> CALL_TA_INVOKE_CMD \<and> cmd_id \<noteq> CALL_TA_CLOSE_SESSION then Some (TEE_ERROR_GENERIC, s1)
      else if f then Some (r, s2) else if r3 \<noteq> 0 then Some (r3, s3) else if r4 \<noteq> TEE_SUCCESS then Some (r4, s4)
      else Some (TEE_SUCCESS, s4\<lparr>sessions := (sessions s4)(x \<mapsto> y4\<lparr>s_wait_ta_back_msg := True\<rparr>)\<rparr>))"
    using c y s3(1) s4(1) y4 s2(1) by (cases "cmd_id = CALL_TA_OPEN_SESSION") (auto simp: async_call_ta_entry_def s1_def[symmetric])
  show ?thesis unfolding e using k1 k2 k3 k4 k5 by simp
qed


section \<open>Session bits and links\<close>

lemma session_bit_index:
  assumes "1 \<le> unat i" "unat i \<le> 8"
  shows "unat (i - 1 :: u32) = unat i - 1"
  using assms by (simp add: unat_sub word_le_nat_alt)

lemma session_bit_wbits:
  assumes v: "length (v_session_bitmap v) = 1" and i: "1 \<le> unat i" "unat i \<le> 8"
  shows "wbits (v_session_bitmap (set_session_bit i v)) = insert (unat i - 1) (wbits (v_session_bitmap v))"
    "wbits (v_session_bitmap (clr_session_bit i v)) = wbits (v_session_bitmap v) - {unat i - 1}"
  using wbits_update[of "unat i - 1" "v_session_bitmap v"] v i
  by (simp_all add: set_session_bit_def clr_session_bit_def session_bit_index[OF i] Let_def)

lemma session_bit_sel [simp]:
  "v_session_head (set_session_bit i v) = v_session_head v" "v_session_count (set_session_bit i v) = v_session_count v"
  "v_index (set_session_bit i v) = v_index v" "v_uuid (set_session_bit i v) = v_uuid v"
  "v_is_service_dead (set_session_bit i v) = v_is_service_dead v" "v_property (set_session_bit i v) = v_property v"
  "v_ref_cnt (set_session_bit i v) = v_ref_cnt v" "length (v_session_bitmap (set_session_bit i v)) = length (v_session_bitmap v)"
  "v_session_head (clr_session_bit i v) = v_session_head v" "v_session_count (clr_session_bit i v) = v_session_count v"
  "v_index (clr_session_bit i v) = v_index v" "v_uuid (clr_session_bit i v) = v_uuid v"
  "v_is_service_dead (clr_session_bit i v) = v_is_service_dead v" "v_property (clr_session_bit i v) = v_property v"
  "v_ref_cnt (clr_session_bit i v) = v_ref_cnt v" "length (v_session_bitmap (clr_session_bit i v)) = length (v_session_bitmap v)"
  by (simp_all add: set_session_bit_def clr_session_bit_def Let_def v_uuid_def)

text \<open>The service after one of its sessions is gone.\<close>

definition without_session :: "addr \<Rightarrow> u32 \<Rightarrow> service_struct \<Rightarrow> service_struct" where
  "without_session x i v = (clr_session_bit i v)\<lparr>v_session_head := remove1 x (v_session_head v), v_session_count := v_session_count v - 1\<rparr>"

lemma without_session_sel [simp]:
  "v_session_head (without_session x i v) = remove1 x (v_session_head v)" "v_session_count (without_session x i v) = v_session_count v - 1"
  "v_index (without_session x i v) = v_index v" "v_uuid (without_session x i v) = v_uuid v"
  "v_is_service_dead (without_session x i v) = v_is_service_dead v" "v_property (without_session x i v) = v_property v"
  "v_ref_cnt (without_session x i v) = v_ref_cnt v" "v_session_bitmap (without_session x i v) = v_session_bitmap (clr_session_bit i v)"
  by (simp_all add: without_session_def v_uuid_def)

text \<open>Steps that change only the links between sessions.\<close>

definition sess_nolink :: "session_struct \<Rightarrow> session_struct" where
  "sess_nolink y = y\<lparr>s_child_ta_sess_head := [], s_child_ta_sess_list := None\<rparr>"

definition link_step :: "gtask \<Rightarrow> gtask \<Rightarrow> bool" where
  "link_step s s' \<longleftrightarrow> (\<exists>ss. s' = s\<lparr>sessions := ss\<rparr> \<and> (\<forall>z. map_option sess_nolink (ss z) = map_option sess_nolink (sessions s z)))"

lemma sess_nolinkD:
  assumes "sess_nolink y' = sess_nolink y"
  shows "s_session_id y' = s_session_id y" "s_task_id y' = s_task_id y" "s_ta2ta_from_taskid y' = s_ta2ta_from_taskid y"
    "s_ta2ta_level y' = s_ta2ta_level y" "s_locked_agents y' = s_locked_agents y" "s_waiting_agent y' = s_waiting_agent y"
  using assms by (auto simp: sess_nolink_def dest: arg_cong[where f = s_session_id] arg_cong[where f = s_task_id]
      arg_cong[where f = s_ta2ta_from_taskid] arg_cong[where f = s_ta2ta_level] arg_cong[where f = s_locked_agents] arg_cong[where f = s_waiting_agent])

lemma link_stepD:
  assumes "link_step s s'"
  shows "services s' = services s" "g_service_head s' = g_service_head s" "g_service_index_map s' = g_service_index_map s"
    "g_cur_index s' = g_cur_index s" "agents s' = agents s" "g_agent_head s' = g_agent_head s" "g_agent_cnt s' = g_agent_cnt s"
    "tasks s' = tasks s" "g_task_list_head s' = g_task_list_head s" "g_task_list_num s' = g_task_list_num s"
    "g_cur_service s' = g_cur_service s" "g_cur_session s' = g_cur_session s"
    "map_option sess_nolink (sessions s' z) = map_option sess_nolink (sessions s z)"
  using assms by (auto simp: link_step_def)

lemma link_step_wf_agents:
  assumes "link_step s s'" "wf_agents s"
  shows "wf_agents s'"
  using assms(2) link_stepD(5-7)[OF assms(1)] wf_locks_sess_cong[OF map_option_via[OF link_stepD(13)[OF assms(1)] sess_nolinkD(5)]
    map_option_via[OF link_stepD(13)[OF assms(1)] sess_nolinkD(6)]] by (simp add: wf_agents_def)

definition unlinked :: "addr \<Rightarrow> gtask \<Rightarrow> gtask \<Rightarrow> bool" where
  "unlinked x s s' \<longleftrightarrow> link_step s s' \<and> wf_links (sessions s') \<and> parent (sessions s') = (parent (sessions s))(x := None) \<and>
    children (sessions s') = (\<lambda>p. remove1 x (children (sessions s) p))"

lemma unlink_child_okay:
  assumes wf: "wf_links (sessions s)" and x: "sessions s x = Some y"
  shows "okay (unlink_child x s) (unlinked x s)"
proof (cases "s_child_ta_sess_list y")
  case None
  then have px: "parent (sessions s) x = None" using x by (simp add: link_views_Some)
  then have "x \<notin> set (children (sessions s) p)" for p using wf by (simp add: wf_links_def)
  then have "children (sessions s) = (\<lambda>p. remove1 x (children (sessions s) p))" by (simp add: remove1_idem)
  moreover have "link_step s s" unfolding link_step_def by (rule exI[of _ "sessions s"]) simp
  ultimately have "unlinked x s s" using wf px by (simp add: unlinked_def fun_upd_idem)
  then show ?thesis using None x by (simp add: unlink_child_def)
next
  case (Some p)
  then have px: "parent (sessions s) x = Some p" using x by (simp add: link_views_Some)
  then have mem: "x \<in> set (children (sessions s) p)" using wf by (simp add: wf_links_def)
  then obtain q where q: "sessions s p = Some q" by (cases "sessions s p") (auto simp: children_def)
  define s1 where "s1 = s\<lparr>sessions := (sessions s)(p \<mapsto> q\<lparr>s_child_ta_sess_head := remove1 x (s_child_ta_sess_head q)\<rparr>)\<rparr>"
  obtain y1 where y1: "sessions s1 x = Some y1" "sess_nolink y1 = sess_nolink y" "s_child_ta_sess_head y1 = remove1 x (children (sessions s) x)"
  proof (cases "p = x")
    case True
    then show thesis using that q x by (simp add: s1_def sess_nolink_def link_views_Some)
  next
    case False
    have "parent (sessions s) x \<noteq> Some x" using px False by simp
    then have "x \<notin> set (children (sessions s) x)" using wf by (simp add: wf_links_def)
    then show thesis using that x False by (simp add: s1_def link_views_Some remove1_idem)
  qed
  define s2 where "s2 = s1\<lparr>sessions := (sessions s1)(x \<mapsto> y1\<lparr>s_child_ta_sess_list := None\<rparr>)\<rparr>"
  have "x \<notin> set (children (sessions s) r)" if "r \<noteq> p" for r using wf px that by (auto simp: wf_links_def)
  then have ch: "children (sessions s2) = (\<lambda>r. remove1 x (children (sessions s) r))"
    using q y1(3) by (auto simp: s2_def s1_def fun_eq_iff link_views_Some remove1_idem)
  have pa: "parent (sessions s2) = (parent (sessions s))(x := None)"
    using q by (auto simp: s2_def s1_def fun_eq_iff link_views_Some)
  have "map_option sess_nolink (sessions s2 z) = map_option sess_nolink (sessions s z)" for z
    using q x y1 by (auto simp: s2_def s1_def sess_nolink_def)
  then have "link_step s s2" unfolding link_step_def s2_def s1_def by (intro exI[of _ "sessions s2"]) (simp add: s2_def s1_def)
  moreover have "wf_links (sessions s2)" using wf unfolding wf_links_def ch pa by auto
  ultimately have "unlinked x s s2" using ch pa by (simp add: unlinked_def)
  moreover have "unlink_child x s = Some s2" using Some x q y1(1) by (simp add: unlink_child_def s1_def s2_def)
  ultimately show ?thesis by simp
qed

lemma lock_step_links:
  assumes "lock_step s s'"
  shows "parent (sessions s') = parent (sessions s)" "children (sessions s') = children (sessions s)"
proof -
  have r: "map_option sess_rest (sessions s' z) = map_option sess_rest (sessions s z)" for z using assms by (simp add: lock_step_def)
  show "parent (sessions s') = parent (sessions s)" "children (sessions s') = children (sessions s)"
    by (rule link_views_cong; rule map_option_via[OF r]; erule sess_restD)+
qed


section \<open>Releasing a session\<close>

text \<open>A session that holds and waits for no agent and has no parent and no children can be freed once it is off its service's list.\<close>

lemma wf_gtask_free:
  assumes wf: "wf_services s" and a: "services s a = Some v" "x \<in> set (v_session_head v)" and y: "sessions s x = Some y"
    and svc: "services s' = (services s)(a \<mapsto> v')" "svc_key v' = svc_key (without_session x (s_session_id y) v)"
    and same: "g_service_head s' = g_service_head s" "g_service_index_map s' = g_service_index_map s" "g_cur_index s' = g_cur_index s"
    and ids: "\<And>z. map_option s_session_id (sessions s' z) = map_option s_session_id (sessions s z)"
    and other: "wf_agents s'" "wf_tasks s'" "wf_links (sessions s')"
    and idle: "locked_by (sessions s') x = []" "waits_for (sessions s') x = None" "children (sessions s') x = []" "parent (sessions s') x = None"
  shows "wf_gtask (free_session x s')"
proof -
  have w: "wf_svcs (g_service_head s) (services s) (sessions s') (g_service_index_map s) (g_cur_index s)"
    using wf wf_svcs_sess_cong[of "sessions s'" "sessions s", OF ids] by (simp add: wf_services_def)
  then have sw: "service_wf (sessions s') v" using a(1) by (auto simp: wf_svcs_def)
  have len: "length (v_session_bitmap v) = 1" using sw by (simp add: service_wf_def)
  have sid: "sid (sessions s') x = unat (s_session_id y)" using ids[of x] y by (cases "sessions s' x") (auto simp: sid_def)
  then have i: "1 \<le> unat (s_session_id y)" "unat (s_session_id y) \<le> 8" using sw a(2) by (auto simp: service_wf_def)
  note k = svc_keyD[OF svc(2)]
  have "service_wf ((sessions s')(x := None)) v'"
    using len session_bit_wbits(2)[OF len i] sid k by (intro service_wf_remove[OF sw a(2)]) simp_all
  then have "wf_svcs (g_service_head s) ((services s)(a \<mapsto> v')) ((sessions s')(x := None)) (g_service_index_map s) (g_cur_index s)"
    using k sw a(2) by (intro wf_svcs_sessions[OF w a(1)]) (auto simp: service_wf_def)
  then have "wf_services (free_session x s')" using svc(1) same by (simp add: wf_services_def free_session_def)
  moreover have "wf_agents (free_session x s')"
    using idle(1,2) by (intro wf_agents_session_views[OF other(1)]) (simp_all add: free_session_def fun_upd_idem)
  moreover have "wf_tasks (free_session x s')" using other(2) by (simp add: wf_tasks_def free_session_def)
  moreover have "wf_links (sessions (free_session x s'))"
    using other(3) idle(3,4) by (simp add: free_session_def wf_links_def fun_upd_idem)
  ultimately show ?thesis by (simp add: wf_gtask_def)
qed

text \<open>Of the sessions that stay, the numbers and the parent are kept, and their lists of children lose at most the closed session.\<close>

definition sess_ident :: "session_struct \<Rightarrow> u32 \<times> u32 \<times> u32 \<times> u32" where
  "sess_ident y = (s_session_id y, s_task_id y, s_ta2ta_from_taskid y, s_ta2ta_level y)"

definition closed :: "addr \<Rightarrow> gtask \<Rightarrow> gtask \<Rightarrow> bool" where
  "closed x s s' \<longleftrightarrow> wf_gtask s' \<and> sessions s' x = None \<and>
    (\<forall>z. z \<noteq> x \<longrightarrow> map_option sess_ident (sessions s' z) = map_option sess_ident (sessions s z)) \<and>
    (\<forall>z. z \<noteq> x \<longrightarrow> parent (sessions s') z = parent (sessions s) z) \<and>
    (\<forall>p. p \<noteq> x \<longrightarrow> children (sessions s') p = remove1 x (children (sessions s) p))"

lemma sess_ident_nolink: "sess_nolink y' = sess_nolink y \<Longrightarrow> sess_ident y' = sess_ident y"
  by (frule sess_nolinkD(1), frule sess_nolinkD(2), frule sess_nolinkD(3), frule sess_nolinkD(4)) (simp add: sess_ident_def)

lemma sess_ident_key: "sess_key y' = sess_key y \<Longrightarrow> sess_ident y' = sess_ident y"
  by (simp add: sess_ident_def sess_key_def)

lemma sess_ident_rest:
  assumes "sess_rest y' = sess_rest y"
  shows "sess_ident y' = sess_ident y"
proof -
  have "s_ta2ta_level y' = s_ta2ta_level y" using arg_cong[OF assms, of s_ta2ta_level] by (simp add: sess_rest_def)
  then show ?thesis using sess_restD[OF assms] by (simp add: sess_ident_def)
qed

lemma link_step_ident:
  assumes "link_step s s'"
  shows "map_option sess_ident (sessions s' z) = map_option sess_ident (sessions s z)"
  by (rule map_option_via[OF link_stepD(13)[OF assms]]) (rule sess_ident_nolink)

lemma lock_step_ident:
  assumes "lock_step s s'"
  shows "map_option sess_ident (sessions s' z) = map_option sess_ident (sessions s z)"
  using assms by (intro map_option_via[of sess_rest, OF _ sess_ident_rest]) (auto simp: lock_step_def)

lemma keep_ident:
  assumes "keep s s'"
  shows "map_option sess_ident (sessions s' z) = map_option sess_ident (sessions s z)"
  by (rule keep_via[OF assms]) (rule sess_ident_key)

text \<open>Taking a session off the lists of other objects: those of its parent, of the agents it holds and of the agent it waits for.\<close>

definition detached :: "addr \<Rightarrow> gtask \<Rightarrow> gtask \<Rightarrow> bool" where
  "detached x s s' \<longleftrightarrow> services s' = services s \<and> g_service_head s' = g_service_head s \<and> g_service_index_map s' = g_service_index_map s \<and>
    g_cur_index s' = g_cur_index s \<and> (wf_tasks s \<longrightarrow> wf_tasks s') \<and> wf_agents s' \<and> wf_links (sessions s') \<and>
    (\<forall>z. map_option sess_ident (sessions s' z) = map_option sess_ident (sessions s z)) \<and>
    locked_by (sessions s') x = [] \<and> waits_for (sessions s') x = None \<and>
    parent (sessions s') = (parent (sessions s))(x := None) \<and> children (sessions s') = (\<lambda>p. remove1 x (children (sessions s) p))"

lemma leave_queue_okay:
  assumes "wf_agents s" "sessions s x = Some y"
  shows "okay (if s_waiting_agent y \<noteq> None then unlink_waiting x s else Some s) (\<lambda>s'. lock_step s s' \<and> wf_agents s' \<and>
    locked_by (sessions s') = locked_by (sessions s) \<and> waits_for (sessions s') x = None)"
proof (cases "s_waiting_agent y")
  case None
  then show ?thesis using assms by (simp add: lock_views_Some)
next
  case (Some c)
  then show ?thesis using okay_conseq[OF unlink_waiting_okay[OF assms Some]] by (simp add: left_queue_def)
qed

lemma detach_okay:
  assumes wf: "wf_links (sessions s)" "wf_agents s" "linked s" and x: "sessions s x = Some y"
  shows "okay (do {
      s \<leftarrow> unlink_child x s;
      s \<leftarrow> tee_unlock_agents E (Some x) s;
      let s = s\<lparr>g_cur_service := bs, g_cur_session := bx\<rparr>;
      y \<leftarrow> sessions s x;
      if s_waiting_agent y \<noteq> None then unlink_waiting x s else Some s
    }) (\<lambda>s'. detached x s s' \<and> g_cur_service s' = bs \<and> g_cur_session s' = bx)"
proof -
  obtain s1 where s1: "unlink_child x s = Some s1" "unlinked x s s1" using unlink_child_okay[OF wf(1) x] by (auto simp: okay_iff)
  have l1: "link_step s s1" using s1(2) by (simp add: unlinked_def)
  obtain y1 where y1: "sessions s1 x = Some y1" using map_option_SomeD[OF link_stepD(13)[OF l1, of x] x] by blast
  have alive: "sessions s1 z = None \<longleftrightarrow> sessions s z = None" for z using link_stepD(13)[OF l1, of z] by (metis map_option_is_None)
  then have "linked s1" using wf(3) by (simp add: linked_def link_stepD[OF l1])
  then obtain s2 where s2: "tee_unlock_agents E (Some x) s1 = Some s2" "released_all x s1 s2"
    using tee_unlock_agents_okay[OF _ link_step_wf_agents[OF l1 wf(2)] y1, of E] by (auto simp: okay_iff)
  have l2: "lock_step s1 s2" "wf_agents s2" "locked_by (sessions s2) x = []" using s2(2) by (simp_all add: released_all_def)
  define s3 where "s3 = s2\<lparr>g_cur_service := bs, g_cur_session := bx\<rparr>"
  have w3: "wf_agents s3" using l2(2) by (simp add: s3_def wf_agents_def)
  obtain y3 where "sessions s2 x = Some y3" by (rule lock_step_session[OF l2(1) y1])
  then have y3: "sessions s3 x = Some y3" by (simp add: s3_def)
  obtain s4 where s4: "(if s_waiting_agent y3 \<noteq> None then unlink_waiting x s3 else Some s3) = Some s4" and l4: "lock_step s3 s4"
      and w4: "wf_agents s4" "locked_by (sessions s4) = locked_by (sessions s3)" "waits_for (sessions s4) x = None"
    using leave_queue_okay[OF w3 y3] by (auto simp: okay_iff)
  have id: "map_option sess_ident (sessions s4 z) = map_option sess_ident (sessions s z)" for z
    using link_step_ident[OF l1, of z] lock_step_ident[OF l2(1), of z] lock_step_ident[OF l4, of z] by (simp add: s3_def)
  have links: "parent (sessions s4) = parent (sessions s1)" "children (sessions s4) = children (sessions s1)"
    using lock_step_links[OF l2(1)] lock_step_links[OF l4] by (simp_all add: s3_def)
  have "wf_links (sessions s1)" using s1(2) by (simp add: unlinked_def)
  then have "wf_links (sessions s4)" by (simp add: wf_links_def links)
  then have "detached x s s4"
    unfolding detached_def
    using id links s1(2) l2 w4 lock_stepD[OF l4] lock_stepD[OF l2(1)] link_stepD[OF l1]
    by (simp add: unlinked_def s3_def wf_tasks_def)
  moreover have "g_cur_service s4 = bs" "g_cur_session s4 = bx" using lock_stepD(3,4)[OF l4] by (simp_all add: s3_def)
  ultimately show ?thesis using s1(1) s2(1) y3 s4 by (cases "s_waiting_agent y3") (simp_all add: s3_def Let_def)
qed

lemma linked_fewer:
  assumes "linked s" "services s a = Some v" "services s' = (services s)(a \<mapsto> w)" "set (v_session_head w) \<subseteq> set (v_session_head v)"
    "g_service_head s' = g_service_head s" "\<And>z. sessions s' z = None \<longleftrightarrow> sessions s z = None"
  shows "linked s'"
  using assms unfolding linked_def by fastforce

lemma without_session_eq:
  "(clr_session_bit i (v\<lparr>v_session_count := v_session_count v - 1\<rparr>))\<lparr>v_session_head := remove1 x (v_session_head v)\<rparr> = without_session x i v"
  by (rule service_struct.equality) (simp_all add: without_session_def clr_session_bit_def Let_def)

lemma closed_free:
  assumes wf: "wf_gtask s" and a: "services s a = Some v" "x \<in> set (v_session_head v)" and y: "sessions s x = Some y"
    and ch: "set (children (sessions s) x) \<subseteq> {x}" and k: "keep (s\<lparr>services := S, g_cur_service := bs, g_cur_session := bx\<rparr>) s1"
    and d: "detached x (s1\<lparr>services := (services s)(a \<mapsto> without_session x (s_session_id y) v)\<rparr>) s2"
  shows "closed x s (free_session x s2)"
proof -
  note kD = keep_parts[OF k, simplified] keep_ident[OF k, simplified] and dD = d[unfolded detached_def, simplified]
  have "wf_tasks (s1\<lparr>services := S\<rparr>)" for S using wf_gtaskD(3)[OF wf] keep_parts(3)[OF k] by (simp add: wf_tasks_def)
  then have tk: "wf_tasks s2" using dD by blast
  have id: "map_option sess_ident (sessions s2 z) = map_option sess_ident (sessions s z)" for z using dD kD(8) by simp
  have ids: "map_option s_session_id (sessions s2 z) = map_option s_session_id (sessions s z)" for z
    by (rule map_option_via[OF id]) (simp add: sess_ident_def)
  have links: "parent (sessions s2) = (parent (sessions s))(x := None)" "children (sessions s2) = (\<lambda>p. remove1 x (children (sessions s) p))"
    using dD kD(4,5) by simp_all
  have "distinct (children (sessions s) x)" using wf_gtaskD(4)[OF wf] by (simp add: wf_links_def)
  then have "set (children (sessions s2) x) = {}" using ch links(2) by auto
  moreover have "g_service_head s2 = g_service_head s" "g_service_index_map s2 = g_service_index_map s" "g_cur_index s2 = g_cur_index s"
    using dD k by (simp_all add: keep_def)
  ultimately have "wf_gtask (free_session x s2)"
    using dD links(1) tk by (intro wf_gtask_free[OF wf_gtaskD(1)[OF wf] a y _ refl _ _ _ ids]) simp_all
  moreover have "parent (sessions (free_session x s2)) z = parent (sessions s) z" if "z \<noteq> x" for z
    using links(1) that by (simp add: free_session_def)
  moreover have "children (sessions (free_session x s2)) p = remove1 x (children (sessions s) p)" if "p \<noteq> x" for p
    using links(2) that by (simp add: free_session_def)
  ultimately show ?thesis using id by (simp add: closed_def free_session_def)
qed

lemma release_session_okay:
  assumes tf: "timer_fires E" and wf: "wf_gtask s" and a: "services s a = Some v" "x \<in> set (v_session_head v)"
    and y: "sessions s x = Some y" and ch: "set (children (sessions s) x) \<subseteq> {x}"
  shows "okay (release_session E (Some a) (Some x) s) (\<lambda>(r, s'). closed x s s' \<and>
    services s' = (services s)(a \<mapsto> without_session x (s_session_id y) v) \<and> g_service_head s' = g_service_head s \<and>
    g_cur_service s' = g_cur_service s \<and> g_cur_session s' = g_cur_session s)"
proof -
  let ?i = "s_session_id y" and ?u = "without_session x (s_session_id y) v"
  obtain s1 where s1: "task_adapt_unregister_ta E (Some (v_uuid v)) (s_task_id y) s = Some s1" "quiet s s1"
    using task_adapt_quiet(2)[OF wf_gtaskD(3)[OF wf], of E "Some (v_uuid v)" "s_task_id y"] by (auto simp: okay_iff)
  define s2 where "s2 = s1\<lparr>services := (services s)(a \<mapsto> v\<lparr>v_session_count := v_session_count v - 1\<rparr>),
    g_cur_service := Some a, g_cur_session := Some x\<rparr>"
  have "cur_service_ok s2" by (simp add: cur_service_ok_def s2_def)
  then obtain r s3 where s3: "sre_task_delete_ex E (s_task_id y) (v_is_service_dead v) (set_session_context_bit (v_index v) ?i) s2 = Some (r, s3)"
      "quiet s2 s3"
    using sre_task_delete_ex_okay[OF tf, of s2 "s_task_id y" "v_is_service_dead v" "set_session_context_bit (v_index v) ?i"] by (auto simp: okay_iff)
  let ?s4 = "release_pam_node (s_pam_node y) s3"
  have k4: "keep s2 ?s4" using keep_quiet[OF s3(2)] by simp
  have y2: "sessions s2 x = Some y" using y by (simp add: s2_def quietD[OF s1(2)])
  obtain y4 where y4: "sessions ?s4 x = Some y4" by (rule keep_sessionD[OF k4 y2])
  obtain s5 where s5: "task_del_mem_region E x (v_is_service_dead v) ?s4 = Some s5" "keep ?s4 s5" "services s5 = services ?s4"
    using task_del_mem_region_keep[OF y4, of E "v_is_service_dead v"] by (auto simp: okay_iff)
  have k5: "keep s2 s5" using k4 s5(2) by (rule keep_trans)
  have "keep (s\<lparr>services := services s2, g_cur_service := Some a, g_cur_session := Some x\<rparr>) s2"
    using s1(2) by (auto simp: keep_def s2_def quietD)
  then have k: "keep (s\<lparr>services := services s2, g_cur_service := Some a, g_cur_session := Some x\<rparr>) s5" using k5 by (rule keep_trans)
  have v5: "services s5 = (services s)(a \<mapsto> v\<lparr>v_session_count := v_session_count v - 1\<rparr>)"
    using s5(3) quietD[OF s3(2)] by (simp add: s2_def)
  define s7 where "s7 = s5\<lparr>services := (services s)(a \<mapsto> ?u)\<rparr>"
  define s6 where "s6 = s5\<lparr>services := (services s)(a \<mapsto> clr_session_bit ?i (v\<lparr>v_session_count := v_session_count v - 1\<rparr>))\<rparr>"
  have s7: "upd_service a (clr_session_bit ?i) s5 = Some s6" "unlink_session a x s6 = Some s7"
    using a v5 by (simp_all add: unlink_session_def upd_service_def s6_def s7_def without_session_eq)
  have "wf_links (sessions s7)" "wf_agents s7"
    using wf_gtaskD[OF wf] keep_parts(2,4,5)[OF k] by (simp_all add: s7_def wf_links_def wf_agents_def)
  moreover have "linked s7"
    by (rule linked_fewer[OF wf_services_linked[OF wf_gtaskD(1)[OF wf]] a(1), of _ ?u])
      (use keepD(1)[OF k] keep_alive(1)[OF k] in \<open>auto simp: s7_def dest: subsetD[OF set_remove1_subset]\<close>)
  moreover obtain y5 where "sessions s7 x = Some y5" using keep_sessionD[OF k5 y2] by (auto simp: s7_def)
  ultimately have d: "okay (do {
      s \<leftarrow> unlink_child x s7;
      s \<leftarrow> tee_unlock_agents E (Some x) s;
      let s = s\<lparr>g_cur_service := bs, g_cur_session := bx\<rparr>;
      y \<leftarrow> sessions s x;
      if s_waiting_agent y \<noteq> None then unlink_waiting x s else Some s
    }) (\<lambda>s'. detached x s7 s' \<and> g_cur_service s' = bs \<and> g_cur_session s' = bx)" for bs bx
    by (rule detach_okay)
  obtain b1 b2 y6 s8 where e: "unlink_child x s7 = Some b1" "tee_unlock_agents E (Some x) b1 = Some b2" "sessions b2 x = Some y6"
      "(if s_waiting_agent y6 \<noteq> None then unlink_waiting x (b2\<lparr>g_cur_service := g_cur_service s, g_cur_session := g_cur_session s\<rparr>)
        else Some (b2\<lparr>g_cur_service := g_cur_service s, g_cur_session := g_cur_session s\<rparr>)) = Some s8"
      and s8: "detached x s7 s8" "g_cur_service s8 = g_cur_service s" "g_cur_session s8 = g_cur_session s"
    using d[where bs = "g_cur_service s" and bx = "g_cur_session s"] by (auto simp: okay_iff bind_eq_Some_conv Let_def)
  have "release_session E (Some a) (Some x) s = Some (r, free_session x s8)"
    using s1(1) a y s3(1) s5(1) s7(1,2) e
    by (cases "s_waiting_agent y6") (simp_all add: release_session_def upd_service_def Let_def quietD[OF s1(2)] flip: s2_def)
  moreover have "closed x s (free_session x s8)" using s8(1) by (intro closed_free[OF wf a y ch k]) (simp add: s7_def)
  moreover have "g_service_head s8 = g_service_head s" "services s8 = (services s)(a \<mapsto> ?u)"
    using s8(1) keepD(1)[OF k] by (simp_all add: detached_def s7_def)
  ultimately show ?thesis using s8 by (simp add: free_session_def)
qed

end
