(* ===== verification/Session_Close.thy ===== *)
theory Session_Close
  imports Session_Inv
begin

text \<open>
  Closing sessions: a close ends, removes the session together with the sessions that it opened in other applications, and keeps
  the invariant of the global task.
\<close>

section \<open>Closing one session\<close>

text \<open>The session \<open>x\<close> on the list of the service \<open>a\<close> is gone; the service may be gone with its last session.\<close>

definition closed_in :: "addr \<Rightarrow> addr \<Rightarrow> gtask \<Rightarrow> gtask \<Rightarrow> bool" where
  "closed_in a x s s' \<longleftrightarrow> closed x s s' \<and> (\<forall>b. b \<noteq> a \<longrightarrow> services s' b = services s b) \<and>
    g_cur_service s' = g_cur_service s \<and> g_cur_session s' = g_cur_session s \<and>
    (\<exists>v. services s a = Some v \<and> (case services s' a of None \<Rightarrow> v_session_head v = [x]
      | Some v' \<Rightarrow> v_session_head v' = remove1 x (v_session_head v) \<and> v_is_service_dead v' = v_is_service_dead v))"

lemma release_service_gtask:
  assumes wf: "wf_gtask s" and a: "services s a = Some v" "v_session_head v = []"
  shows "okay (process_release_service E (Some a) r s) (\<lambda>s'. wf_gtask s' \<and> sessions s' = sessions s \<and>
    services s' = (services s)(a := None) \<and> g_cur_service s' = g_cur_service s \<and> g_cur_session s' = g_cur_session s)"
proof -
  note w = wf_gtaskD[OF wf]
  obtain h where e: "process_release_service E (Some a) r s =
    Some (s\<lparr>services := (services s)(a := None), g_service_head := remove1 a (g_service_head s),
      g_service_index_map := the (clear_bitmap (Some (g_service_index_map s)) SERVICE_INDEX_MAX (v_index v)), history := h\<rparr>)"
    by (rule process_release_service_eq[OF a(1) w(3)])
  show ?thesis
    using process_release_service_wf[OF w(1) a w(3), of E r] w(2,4) by (simp add: e wf_gtask_def wf_agents_def)
qed

lemma recycle_built_in:
  assumes wf: "wf_gtask s" and a: "services s a = Some v"
  shows "okay (do { s \<leftarrow> upd_service a (\<lambda>v. v\<lparr>v_init_build := 0\<rparr>) s; recycle_srvc_thread E (Some a) s })
    (\<lambda>s'. keep s s' \<and> sessions s' = sessions s \<and> (\<exists>v'. services s' = (services s)(a \<mapsto> v') \<and> svc_key v' = svc_key v))"
proof -
  define s1 where "s1 = s\<lparr>services := (services s)(a \<mapsto> v\<lparr>v_init_build := 0\<rparr>)\<rparr>"
  have "wf_tasks s1" using wf_gtaskD(3)[OF wf] by (simp add: s1_def wf_tasks_def)
  moreover have "services s1 a = Some (v\<lparr>v_init_build := 0\<rparr>)" by (simp add: s1_def)
  ultimately obtain h where e: "recycle_srvc_thread E (Some a) s1 =
      Some (s1\<lparr>services := (services s1)(a \<mapsto> v\<lparr>v_init_build := 0, v_service_thread := 0\<rparr>), history := h\<rparr>)"
    using recycle_srvc_thread_eq[of s1 a "v\<lparr>v_init_build := 0\<rparr>" E] by auto
  have "upd_service a (\<lambda>v. v\<lparr>v_init_build := 0\<rparr>) s = Some s1" using a by (simp add: upd_service_def s1_def)
  moreover have k: "svc_key (v\<lparr>v_init_build := 0, v_service_thread := 0\<rparr>) = svc_key v" by (simp add: svc_key_def v_uuid_def)
  ultimately show ?thesis using e a by (auto simp: s1_def keep_def)
qed

lemma closed_keep:
  assumes "closed x s s1" "keep s1 s2"
  shows "closed x s s2"
  using assms(1) wf_gtask_keep[OF assms(2)] keep_alive(1)[OF assms(2)] keep_ident[OF assms(2)] keep_parts(4,5)[OF assms(2)]
  by (simp add: closed_def)

lemma closed_sessions:
  assumes "closed x s s1" "wf_gtask s2" "sessions s2 = sessions s1"
  shows "closed x s s2"
  using assms by (simp add: closed_def)

lemma closed_in_keep:
  assumes c: "closed_in a x s s1" and w: "services s1 a = Some w" and k: "keep s1 s2" and v': "services s2 = (services s1)(a \<mapsto> v')" "svc_key v' = svc_key w"
  shows "closed_in a x s s2"
  using c closed_keep[OF _ k, of x s] keepD(4,5)[OF k] v'(1) svc_keyD[OF v'(2)] w by (auto simp: closed_in_def)

lemma process_close_session_entry_okay:
  assumes tf: "timer_fires E" and wf: "wf_gtask s" and a: "services s a = Some v" "x \<in> set (v_session_head v)"
    and y: "sessions s x = Some y" and ch: "set (children (sessions s) x) \<subseteq> {x}"
  shows "okay (process_close_session_entry E (Some a) (Some x) s) (\<lambda>((ret, service, session), s').
    ret = TEE_SUCCESS \<and> session = None \<and> closed_in a x s s' \<and> service = (if services s' a = None then None else Some a))"
proof -
  define w where "w = without_session x (s_session_id y) v"
  obtain r s1 where e: "release_session E (Some a) (Some x) s = Some (r, s1)" and c: "closed x s s1"
      and sv: "services s1 = (services s)(a \<mapsto> w)"
      and cur: "g_cur_service s1 = g_cur_service s" "g_cur_session s1 = g_cur_session s"
    using release_session_okay[OF tf wf a y ch] by (auto simp: okay_iff w_def)
  have wf1: "wf_gtask s1" using c by (simp add: closed_def)
  have w1: "services s1 a = Some w" using sv by simp
  have stay: "closed_in a x s s1" using c cur sv a(1) by (simp add: closed_in_def w_def)
  have rec: "okay (do { s \<leftarrow> upd_service a (\<lambda>v. v\<lparr>v_init_build := 0\<rparr>) s1; recycle_srvc_thread E (Some a) s })
    (\<lambda>s'. closed_in a x s s' \<and> services s' a \<noteq> None)"
    by (rule okay_conseq[OF recycle_built_in[OF wf1 w1]]) (auto intro: closed_in_keep[OF stay w1])
  have rel: "okay (process_release_service E (Some a) TA_REGION_RELEASE s1) (\<lambda>s'. closed_in a x s s' \<and> services s' a = None)"
    if "v_session_count w = 0"
  proof -
    have "v_session_head w = []" using that session_count_0[OF wf_servicesD[OF wf_gtaskD(1)[OF wf1] w1]] by simp
    then have "v_session_head v = [x]" using a(2) by (cases "v_session_head v") (auto simp: w_def split: if_splits)
    with \<open>v_session_head w = []\<close> show ?thesis
      using okay_conseq[OF release_service_gtask[OF wf1 w1, of E TA_REGION_RELEASE]] c cur sv a(1) closed_sessions[OF c]
      by (simp add: closed_in_def)
  qed
  show ?thesis
    using e w1 stay rec rel
    by (auto simp: process_close_session_entry_def okay_bind elim!: okay_conseq)
qed


section \<open>Sessions opened by sessions\<close>

definition placed :: "gtask \<Rightarrow> addr \<Rightarrow> bool \<Rightarrow> addr \<Rightarrow> bool" where
  "placed s a dead z \<longleftrightarrow> (\<exists>v. services s a = Some v \<and> z \<in> set (v_session_head v) \<and> v_is_service_dead v = dead)"

text \<open>
  A session that another session opened is a child of it, is recognised by the task that it was opened from, has a higher level and
  belongs to a service that is alive.  Only sessions that the normal world opened have children.
\<close>

definition wf_family :: "gtask \<Rightarrow> bool" where
  "wf_family s \<longleftrightarrow> (\<forall>z p. parent (sessions s) z = Some p \<longrightarrow> (\<exists>a. placed s a False z) \<and>
      (\<exists>y q. sessions s z = Some y \<and> sessions s p = Some q \<and> s_ta2ta_from_taskid y = s_task_id q \<and> s_ta2ta_level q = 0 \<and> s_ta2ta_level y = 1)) \<and>
    (\<forall>z y p q. sessions s z = Some y \<longrightarrow> sessions s p = Some q \<longrightarrow> s_ta2ta_from_taskid y = s_task_id q \<longrightarrow> parent (sessions s) z = Some p)"

lemma wf_family_parent:
  assumes "wf_family s" "parent (sessions s) z = Some p"
  obtains a y q where "placed s a False z" "sessions s z = Some y" "sessions s p = Some q" "s_ta2ta_from_taskid y = s_task_id q"
    "s_ta2ta_level q = 0" "s_ta2ta_level y = 1"
  using assms unfolding wf_family_def by blast

lemma wf_family_from:
  assumes "wf_family s" "sessions s z = Some y" "sessions s p = Some q" "s_ta2ta_from_taskid y = s_task_id q"
  shows "parent (sessions s) z = Some p"
  using assms unfolding wf_family_def by blast

lemma children_iff:
  assumes "wf_gtask s"
  shows "x \<in> set (children (sessions s) p) \<longleftrightarrow> parent (sessions s) x = Some p"
  using wf_gtaskD(4)[OF assms] by (simp add: wf_links_def)

lemma sess_ident_iff:
  "sess_ident y = sess_ident z \<longleftrightarrow> s_session_id y = s_session_id z \<and> s_task_id y = s_task_id z \<and>
    s_ta2ta_from_taskid y = s_ta2ta_from_taskid z \<and> s_ta2ta_level y = s_ta2ta_level z"
  by (simp add: sess_ident_def)

lemma closed_in_placed:
  assumes wf: "wf_gtask s" and c: "closed_in a x s s'" and z: "z \<noteq> x"
  shows "placed s' b d z = placed s b d z"
proof (cases "b = a")
  case True
  obtain v where v: "services s a = Some v" using c by (auto simp: closed_in_def)
  show ?thesis using c v z True by (cases "services s' a") (auto simp: closed_in_def placed_def)
next
  case False
  then show ?thesis using c by (simp add: closed_in_def placed_def)
qed

lemma closed_in_session:
  assumes "closed_in a x s s'" "z \<noteq> x"
  shows "map_option sess_ident (sessions s' z) = map_option sess_ident (sessions s z)" "parent (sessions s') z = parent (sessions s) z"
  using assms by (simp_all add: closed_in_def closed_def)

lemma closed_in_family:
  assumes wf: "wf_gtask s" "wf_family s" and c: "closed_in a x s s'" and ch: "children (sessions s) x = []"
  shows "wf_family s'"
proof -
  have gone: "sessions s' x = None" using c by (simp add: closed_in_def closed_def)
  then have px: "parent (sessions s') x = None" by (simp add: parent_def)
  have prev: "\<exists>y. sessions s z = Some y \<and> sess_ident y = sess_ident y'" if "sessions s' z = Some y'" for z y'
    using that gone closed_in_session(1)[OF c, of z] by (cases "z = x"; cases "sessions s z") auto
  have 1: "(\<exists>b. placed s' b False z) \<and> (\<exists>y q. sessions s' z = Some y \<and> sessions s' p = Some q \<and>
      s_ta2ta_from_taskid y = s_task_id q \<and> s_ta2ta_level q = 0 \<and> s_ta2ta_level y = 1)" if p: "parent (sessions s') z = Some p" for z p
  proof -
    have z: "z \<noteq> x" using p px by auto
    then have p: "parent (sessions s) z = Some p" using p closed_in_session(2)[OF c] by simp
    then have "p \<noteq> x" using children_iff[OF wf(1), of z p] ch by auto
    obtain b y q where "placed s b False z" and yq: "sessions s z = Some y" "sessions s p = Some q" and l: "s_ta2ta_from_taskid y = s_task_id q"
        "s_ta2ta_level q = 0" "s_ta2ta_level y = 1"
      by (rule wf_family_parent[OF wf(2) p])
    moreover obtain y' where "sessions s' z = Some y'" "sess_ident y' = sess_ident y"
      using map_option_SomeD[OF closed_in_session(1)[OF c z] yq(1)] by blast
    moreover obtain q' where "sessions s' p = Some q'" "sess_ident q' = sess_ident q"
      using map_option_SomeD[OF closed_in_session(1)[OF c \<open>p \<noteq> x\<close>] yq(2)] by blast
    ultimately show ?thesis using closed_in_placed[OF wf(1) c z] by (auto simp: sess_ident_iff)
  qed
  have 2: "parent (sessions s') z = Some p"
    if y': "sessions s' z = Some y'" and q': "sessions s' p = Some q'" and e: "s_ta2ta_from_taskid y' = s_task_id q'" for z y' p q'
  proof -
    obtain y q where "sessions s z = Some y" "sess_ident y = sess_ident y'" "sessions s p = Some q" "sess_ident q = sess_ident q'"
      using prev[OF y'] prev[OF q'] by blast
    then have "parent (sessions s) z = Some p" using wf_family_from[OF wf(2), of z y p q] e by (simp add: sess_ident_iff)
    moreover have "z \<noteq> x" using y' gone by auto
    ultimately show ?thesis using closed_in_session(2)[OF c] by simp
  qed
  show ?thesis unfolding wf_family_def using 1 2 by blast
qed


section \<open>Closing the sessions of a task\<close>

definition targets :: "gtask \<Rightarrow> u32 \<Rightarrow> addr \<Rightarrow> addr \<Rightarrow> bool" where
  "targets s t a x \<longleftrightarrow> placed s a False x \<and> (\<exists>y. sessions s x = Some y \<and> s_ta2ta_from_taskid y = t)"

definition live_service :: "gtask \<Rightarrow> addr \<Rightarrow> bool" where
  "live_service s a \<longleftrightarrow> (\<exists>v. services s a = Some v \<and> \<not> v_is_service_dead v)"

definition found :: "gtask \<Rightarrow> u32 \<Rightarrow> addr list \<Rightarrow> bool \<Rightarrow> bool \<times> (addr \<times> addr) option \<Rightarrow> bool" where
  "found s t as live = (\<lambda>(l, r). case r of
      None \<Rightarrow> l = (live \<or> (\<exists>a \<in> set as. live_service s a)) \<and> (\<forall>a \<in> set as. \<forall>x. \<not> targets s t a x)
    | Some (a, x) \<Rightarrow> a \<in> set as \<and> targets s t a x)"

lemma find_target_okay:
  assumes "\<forall>a \<in> set as. \<exists>v. services s a = Some v \<and> (\<forall>x \<in> set (v_session_head v). sessions s x \<noteq> None)"
  shows "okay (find_target s t live as) (found s t as live)"
  using assms
proof (induction as arbitrary: live)
  case Nil
  then show ?case by (simp add: found_def)
next
  case (Cons a as)
  obtain v where v: "services s a = Some v" "\<forall>x \<in> set (v_session_head v). sessions s x \<noteq> None" using Cons.prems by auto
  have IH: "okay (find_target s t l as) (found s t as l)" for l using Cons by simp
  show ?case
  proof (cases "v_is_service_dead v")
    case True
    then have "\<not> targets s t a x" "\<not> live_service s a" for x using v by (simp_all add: targets_def placed_def live_service_def)
    then have "found s t (a # as) live r" if "found s t as live r" for r using that by (auto simp: found_def split: option.splits)
    then show ?thesis using True v okay_conseq[OF IH[of live]] by simp
  next
    case False
    then have live: "live_service s a" using v by (simp add: live_service_def)
    show ?thesis
    proof (rule find_entry_cases[of "v_session_head v" "sessions s" "\<lambda>y. s_ta2ta_from_taskid y = t"])
      show "\<And>x. x \<in> set (v_session_head v) \<Longrightarrow> sessions s x \<noteq> None" using v(2) by blast
    next
      assume e: "find_entry (sessions s) (\<lambda>y. s_ta2ta_from_taskid y = t) (v_session_head v) = Some None"
        and n: "\<And>x y. x \<in> set (v_session_head v) \<Longrightarrow> sessions s x = Some y \<Longrightarrow> s_ta2ta_from_taskid y \<noteq> t"
      have "\<not> targets s t a x" for x using v n by (auto simp: targets_def placed_def)
      then have "found s t (a # as) live r" if "found s t as True r" for r using that live by (auto simp: found_def split: option.splits)
      then show ?thesis using False v e okay_conseq[OF IH[of True]] by simp
    next
      fix x y assume "find_entry (sessions s) (\<lambda>y. s_ta2ta_from_taskid y = t) (v_session_head v) = Some (Some x)"
        "x \<in> set (v_session_head v)" "sessions s x = Some y" "s_ta2ta_from_taskid y = t"
      then show ?thesis using False v by (simp add: found_def targets_def placed_def)
    qed
  qed
qed

lemma live_head:
  assumes "wf_gtask s" "live_service s a"
  shows "a \<in> set (g_service_head s)"
  using assms wf_gtaskD(1)[OF assms(1)] by (auto simp: live_service_def wf_services_def wf_svcs_def)

text \<open>What a pass over all services finds, given that some service is alive.\<close>

lemma find_target_cases:
  assumes wf: "wf_gtask s" and k: "live_service s k"
  obtains "find_target s t False (g_service_head s) = Some (True, None)" "\<And>a x. \<not> targets s t a x"
  | a x l where "find_target s t False (g_service_head s) = Some (l, Some (a, x))" "targets s t a x"
proof -
  obtain l r where e: "find_target s t False (g_service_head s) = Some (l, r)" and f: "found s t (g_service_head s) False (l, r)"
    using find_target_okay[of "g_service_head s" s t False] wf_gtaskD(5)[OF wf] by (auto simp: okay_iff linked_def)
  have "a \<in> set (g_service_head s)" if "targets s t a x" for a x
    using that by (intro live_head[OF wf]) (auto simp: targets_def placed_def live_service_def)
  then show thesis using that e f live_head[OF wf k] k by (cases r) (auto simp: found_def)
qed

lemma wf_session:
  assumes "wf_gtask s" "services s a = Some v" "x \<in> set (v_session_head v)"
  obtains y where "sessions s x = Some y"
  using wf_servicesD[OF wf_gtaskD(1)[OF assms(1)] assms(2)] assms(3) that by (fastforce simp: service_wf_def)

lemma targets_child:
  assumes "wf_gtask s" "wf_family s" "sessions s p = Some q" "targets s (s_task_id q) a x"
  shows "x \<in> set (children (sessions s) p)"
  using assms wf_family_from[OF assms(2) _ assms(3)] by (auto simp: targets_def children_iff)

lemma child_targets:
  assumes "wf_gtask s" "wf_family s" "sessions s p = Some q" "x \<in> set (children (sessions s) p)"
  obtains a where "targets s (s_task_id q) a x" "s_ta2ta_level q = 0" "children (sessions s) x = []"
proof -
  have p: "parent (sessions s) x = Some p" using assms(4) children_iff[OF assms(1)] by simp
  obtain a y q' where x: "placed s a False x" "sessions s x = Some y" "sessions s p = Some q'" "s_ta2ta_from_taskid y = s_task_id q'"
      "s_ta2ta_level q' = 0" "s_ta2ta_level y = 1"
    by (rule wf_family_parent[OF assms(2) p])
  have "parent (sessions s) z \<noteq> Some x" for z
  proof
    assume "parent (sessions s) z = Some x"
    then show False using x by (rule_tac wf_family_parent[OF assms(2)]) auto
  qed
  then have "children (sessions s) x = []" using children_iff[OF assms(1), of _ x] by (metis list.set_intros(1) neq_Nil_conv)
  then show thesis using x assms(3) by (intro that[of a]) (auto simp: targets_def)
qed

lemma close_targets_none:
  assumes "wf_gtask s" "wf_family s" "live_service s k" "sessions s p = Some q" "children (sessions s) p = []"
  shows "process_close_ta2ta_target_sessions E (s_task_id q) level need s = Some s"
proof (rule find_target_cases[OF assms(1,3), of "s_task_id q"])
  assume "find_target s (s_task_id q) False (g_service_head s) = Some (True, None)"
  then show ?thesis by (subst process_close_ta2ta_target_sessions.simps) simp
next
  fix a x assume "targets s (s_task_id q) a x"
  from targets_child[OF assms(1,2,4) this] show ?thesis using assms(5) by simp
qed

definition closed_children :: "addr \<Rightarrow> gtask \<Rightarrow> gtask \<Rightarrow> bool" where
  "closed_children p s s' \<longleftrightarrow> wf_gtask s' \<and> wf_family s' \<and> children (sessions s') p = [] \<and>
    g_cur_service s' = g_cur_service s \<and> g_cur_session s' = g_cur_session s \<and>
    (\<forall>z. if z \<in> set (children (sessions s) p) then sessions s' z = None
      else map_option sess_ident (sessions s' z) = map_option sess_ident (sessions s z) \<and> (\<forall>a d. placed s' a d z = placed s a d z))"

lemma closed_children_step:
  assumes wf: "wf_gtask s" and cl: "closed_in a x s s1" and xc: "x \<in> set (children (sessions s) p)" and px: "p \<noteq> x"
    and cc: "closed_children p s1 s'"
  shows "closed_children p s s'"
proof -
  have "distinct (children (sessions s) p)" using wf_gtaskD(4)[OF wf] by (simp add: wf_links_def)
  moreover have "children (sessions s1) p = remove1 x (children (sessions s) p)" "sessions s1 x = None"
    using cl px by (simp_all add: closed_in_def closed_def)
  ultimately have ch: "set (children (sessions s1) p) = set (children (sessions s) p) - {x}" and gone: "sessions s1 x = None" by simp_all
  have z: "if z \<in> set (children (sessions s1) p) then sessions s' z = None
      else map_option sess_ident (sessions s' z) = map_option sess_ident (sessions s1 z) \<and> (\<forall>a d. placed s' a d z = placed s1 a d z)" for z
    using cc by (simp add: closed_children_def)
  have "if z \<in> set (children (sessions s) p) then sessions s' z = None
      else map_option sess_ident (sessions s' z) = map_option sess_ident (sessions s z) \<and> (\<forall>a d. placed s' a d z = placed s a d z)" for z
  proof (cases "z = x")
    case True
    then show ?thesis using z[of x] ch gone xc by simp
  next
    case False
    then show ?thesis using z[of z] ch closed_in_session(1)[OF cl False] closed_in_placed[OF wf cl False] by (simp split: if_splits)
  qed
  then show ?thesis using cc cl by (simp add: closed_children_def closed_in_def)
qed

lemma close_targets_okay:
  assumes tf: "timer_fires E"
  shows "wf_gtask s \<Longrightarrow> wf_family s \<Longrightarrow> sessions s p = Some q \<Longrightarrow> placed s k False p \<Longrightarrow> level = s_ta2ta_level q \<Longrightarrow>
    okay (process_close_ta2ta_target_sessions E (s_task_id q) level need s) (closed_children p s)"
proof (induction "length (children (sessions s) p)" arbitrary: s q need)
  case 0
  then have "live_service s k" by (auto simp: placed_def live_service_def)
  then show ?case using 0 close_targets_none[of s k p q E level need] by (simp add: closed_children_def)
next
  case (Suc n)
  note wf = Suc.prems(1,2) and q = Suc.prems(3) and k = Suc.prems(4)
  have kl: "live_service s k" using k by (auto simp: placed_def live_service_def)
  obtain c where "c \<in> set (children (sessions s) p)" using Suc.hyps(2) by (cases "children (sessions s) p") auto
  then obtain b where c: "targets s (s_task_id q) b c" and l0: "s_ta2ta_level q = 0" by (rule child_targets[OF wf q])
  obtain a x l where e: "find_target s (s_task_id q) False (g_service_head s) = Some (l, Some (a, x))" and tg: "targets s (s_task_id q) a x"
    using c by (rule_tac find_target_cases[OF wf(1) kl, of "s_task_id q"]) auto
  have xc: "x \<in> set (children (sessions s) p)" by (rule targets_child[OF wf q tg])
  then have none: "children (sessions s) x = []" by (rule child_targets[OF wf q])
  have px: "p \<noteq> x" using xc none by auto
  obtain v y where a: "services s a = Some v" "x \<in> set (v_session_head v)" and y: "sessions s x = Some y"
    using tg by (auto simp: targets_def placed_def)
  have nest: "process_close_ta2ta_target_sessions E (s_task_id y) 1 False s = Some s"
    by (rule close_targets_none[OF wf kl y none])
  obtain r s1 where s1: "process_close_session_entry E (Some a) (Some x) s = Some (r, s1)" and cl: "closed_in a x s s1"
    using process_close_session_entry_okay[OF tf wf(1) a y] none by (auto simp: okay_iff)
  have ch: "children (sessions s1) p = remove1 x (children (sessions s) p)" using cl px by (simp add: closed_in_def closed_def)
  obtain q1 where q1: "sessions s1 p = Some q1" "sess_ident q1 = sess_ident q"
    using map_option_SomeD[OF closed_in_session(1)[OF cl px] q] by blast
  have wf1: "wf_gtask s1" using cl by (simp add: closed_in_def closed_def)
  have IH: "okay (process_close_ta2ta_target_sessions E (s_task_id q) level True s1) (closed_children p s1)"
    using Suc.hyps(1)[of s1 q1 True] Suc.hyps(2) xc ch wf1 closed_in_family[OF wf cl none] q1 k closed_in_placed[OF wf(1) cl px] Suc.prems(5)
    by (simp add: length_remove1 sess_ident_iff)
  show ?case
    using okay_conseq[OF IH closed_children_step[OF wf(1) cl xc px]] e y nest s1 l0 Suc.prems(5) by (subst process_close_ta2ta_target_sessions.simps) simp
qed


section \<open>Closing the current session\<close>

lemma process_close_session_okay:
  assumes tf: "timer_fires E" and wf: "wf_gtask s" "wf_family s" and cur: "g_cur_service s = Some k" "g_cur_session s = Some p"
    and k: "placed s k False p"
  shows "okay (process_close_session E s) (\<lambda>(r, s'). r = TEE_SUCCESS \<and> wf_gtask s' \<and> wf_family s' \<and> g_cur_session s' = None \<and>
    g_cur_service s' = (if services s' k = None then None else Some k) \<and>
    (\<forall>z. if z = p \<or> z \<in> set (children (sessions s) p) then sessions s' z = None
      else map_option sess_ident (sessions s' z) = map_option sess_ident (sessions s z) \<and> (\<forall>a d. placed s' a d z = placed s a d z)))"
proof -
  obtain v where v: "services s k = Some v" "p \<in> set (v_session_head v)" using k by (auto simp: placed_def)
  obtain q where q: "sessions s p = Some q" by (rule wf_session[OF wf(1) v])
  obtain s1 where e1: "process_close_ta2ta_target_sessions E (s_task_id q) (s_ta2ta_level q) False s = Some s1" and c1: "closed_children p s s1"
    using close_targets_okay[OF tf wf q k refl, of False] by (auto simp: okay_iff)
  have pc: "p \<notin> set (children (sessions s) p)"
  proof
    assume p: "p \<in> set (children (sessions s) p)"
    then have "children (sessions s) p = []" by (rule child_targets[OF wf q])
    then show False using p by simp
  qed
  have wf1: "wf_gtask s1" "wf_family s1" and none: "children (sessions s1) p = []"
    and z1: "\<And>z. if z \<in> set (children (sessions s) p) then sessions s1 z = None
      else map_option sess_ident (sessions s1 z) = map_option sess_ident (sessions s z) \<and> (\<forall>a d. placed s1 a d z = placed s a d z)"
    and cur1: "g_cur_service s1 = Some k" "g_cur_session s1 = Some p"
    using c1 cur by (simp_all add: closed_children_def)
  have "placed s1 k False p" "map_option sess_ident (sessions s1 p) = map_option sess_ident (sessions s p)" using z1[of p] pc k by simp_all
  then obtain w y where w: "services s1 k = Some w" "p \<in> set (v_session_head w)" and y: "sessions s1 p = Some y"
    using q by (auto simp: placed_def)
  obtain sv s2 where e2: "process_close_session_entry E (Some k) (Some p) s1 = Some ((TEE_SUCCESS, sv, None), s2)" and c2: "closed_in k p s1 s2"
      and sv: "sv = (if services s2 k = None then None else Some k)"
    using process_close_session_entry_okay[OF tf wf1(1) w y] none by (auto simp: okay_iff)
  have wf2: "wf_gtask s2" "wf_family s2" using c2 closed_in_family[OF wf1 c2 none] by (simp_all add: closed_in_def closed_def)
  have z2: "if z = p \<or> z \<in> set (children (sessions s) p) then sessions s2 z = None
      else map_option sess_ident (sessions s2 z) = map_option sess_ident (sessions s z) \<and> (\<forall>a d. placed s2 a d z = placed s a d z)" for z
  proof (cases "z = p")
    case True
    then show ?thesis using c2 by (simp add: closed_in_def closed_def)
  next
    case False
    then show ?thesis using z1[of z] closed_in_session(1)[OF c2 False] closed_in_placed[OF wf1(1) c2 False] by (simp split: if_splits)
  qed
  define s3 where "s3 = s2\<lparr>g_cur_service := sv, g_cur_session := None\<rparr>"
  have "wf_gtask s3" "wf_family s3" "\<And>a d z. placed s3 a d z = placed s2 a d z"
    using wf2 by (simp_all add: s3_def wf_gtask_def wf_family_def wf_services_def wf_agents_def wf_tasks_def placed_def)
  moreover have "process_close_session E s = Some (TEE_SUCCESS, s3)" using cur q e1 e2 cur1 by (simp add: process_close_session_def s3_def)
  moreover have "sessions s3 = sessions s2" "services s3 = services s2" "g_cur_service s3 = sv" "g_cur_session s3 = None" by (simp_all add: s3_def)
  ultimately show ?thesis using z2 sv by simp
qed


section \<open>Properties\<close>

text \<open>
  C24: Closing the current session ends and keeps the global task well-formed.  It removes exactly the session and the sessions
  that it opened in other applications, leaves all others on their services with their numbers, and leaves no
  pointer to a freed session or service behind as the current one.
\<close>

theorem process_close_session_correct:
  assumes "timer_fires E" "wf_gtask s" "wf_family s" "g_cur_service s = Some k" "g_cur_session s = Some p" "placed s k False p"
  shows "\<exists>s'. process_close_session E s = Some (TEE_SUCCESS, s') \<and> wf_gtask s' \<and> wf_family s' \<and> g_cur_session s' = None \<and>
    g_cur_service s' = (if services s' k = None then None else Some k) \<and>
    (\<forall>z. if z = p \<or> z \<in> set (children (sessions s) p) then sessions s' z = None
      else map_option sess_ident (sessions s' z) = map_option sess_ident (sessions s z) \<and> (\<forall>a d. placed s' a d z = placed s a d z))"
  using process_close_session_okay[OF assms] by (auto simp: okay_iff)

text \<open>A session with one child; the child waits for an agent that its parent has locked.\<close>

definition demo_parent :: session_struct where
  "demo_parent = demo_holder\<lparr>s_child_ta_sess_head := [6]\<rparr>"

definition demo_child :: session_struct where
  "demo_child = demo_waiter\<lparr>s_ta2ta_from_taskid := 7, s_ta2ta_level := 1, s_child_ta_sess_list := Some 5\<rparr>"

definition demo_family :: gtask where
  "demo_family = demo_locks\<lparr>sessions := [5 \<mapsto> demo_parent, 6 \<mapsto> demo_child]\<rparr>"

lemmas demo_family_defs = demo_family_def demo_parent_def demo_child_def demo_holder_def demo_waiter_def demo_session_def

lemma demo_family_placed: "placed demo_family 0 False 5" "placed demo_family 0 False 6"
  using demo_gtask_service by (auto simp: placed_def demo_family_def demo_locks_def demo_open_def)

lemma demo_family_views:
  "parent (sessions demo_family) z = (if z = 6 then Some 5 else None)" "children (sessions demo_family) z = (if z = 5 then [6] else [])"
  by (simp_all add: parent_def children_def demo_family_defs)

lemma wf_demo_family: "wf_gtask demo_family" "wf_family demo_family"
proof -
  have "wf_svcs hd sv (sessions demo_family) bm cur = wf_svcs hd sv (sessions demo_locks) bm cur" for hd sv bm cur
    by (rule wf_svcs_sess_cong) (simp add: demo_family_def demo_parent_def demo_child_def)
  then have "wf_services demo_family" using wf_demo_locks(1) by (simp add: wf_services_def) (simp add: demo_family_def)
  moreover have "wf_locks ag (sessions demo_family) = wf_locks ag (sessions demo_locks)" for ag
    by (rule wf_locks_sess_cong) (simp_all add: demo_family_def demo_parent_def demo_child_def)
  then have "wf_agents demo_family" using wf_demo_locks(2) by (simp add: wf_agents_def) (simp add: demo_family_def)
  moreover have "wf_tasks demo_family" using wf_demo_tasks by (simp add: wf_tasks_def demo_family_def)
  moreover have "wf_links (sessions demo_family)" by (auto simp: wf_links_def demo_family_views)
  ultimately show "wf_gtask demo_family" by (simp add: wf_gtask_def)
  show "wf_family demo_family"
    using demo_family_placed(2) by (auto simp: wf_family_def demo_family_views) (auto simp: demo_family_defs split: if_splits)
qed

theorem process_close_session_correct_witness:
  "\<exists>s'. process_close_session calm_env demo_family = Some (TEE_SUCCESS, s') \<and> wf_gtask s' \<and> sessions s' 5 = None \<and> sessions s' 6 = None"
proof -
  obtain s' where "process_close_session calm_env demo_family = Some (TEE_SUCCESS, s')" "wf_gtask s'"
      "\<forall>z. if z = 5 \<or> z \<in> set (children (sessions demo_family) 5) then sessions s' z = None
      else map_option sess_ident (sessions s' z) = map_option sess_ident (sessions demo_family z) \<and> (\<forall>a d. placed s' a d z = placed demo_family a d z)"
    using process_close_session_correct[OF timer_fires_calm wf_demo_family _ _ demo_family_placed(1)]
    by (auto simp: demo_family_def demo_locks_def)
  then show ?thesis by (auto simp: demo_family_views dest: spec[of _ 5] spec[of _ 6])
qed

end
