(* ===== verification/Session_Create.thy ===== *)
theory Session_Create
  imports Session_Close
begin

text \<open>
  The steps of opening a session: adding it to its service, linking it to the session that asked for it, and giving it back
  when a later step fails.

  Between adding a session to the list of its service and counting it, the global task is well-formed but for the count.
\<close>

section \<open>States that lack one count\<close>

definition full :: "addr \<Rightarrow> gtask \<Rightarrow> gtask" where
  "full a s = s\<lparr>services := (services s)(a := map_option (\<lambda>v. v\<lparr>v_session_count := v_session_count v + 1\<rparr>) (services s a))\<rparr>"

lemma full_sel [simp]:
  "sessions (full a s) = sessions s" "g_cur_service (full a s) = g_cur_service s" "g_cur_session (full a s) = g_cur_session s"
  "g_service_head (full a s) = g_service_head s" "tasks (full a s) = tasks s" "g_task_list_head (full a s) = g_task_list_head s"
  "g_task_list_num (full a s) = g_task_list_num s" "agents (full a s) = agents s" "b \<noteq> a \<Longrightarrow> services (full a s) b = services s b"
  "services (full a s) a = map_option (\<lambda>v. v\<lparr>v_session_count := v_session_count v + 1\<rparr>) (services s a)"
  by (simp_all add: full_def)

lemma full_keep:
  assumes "keep s s'"
  shows "keep (full a s) (full a s')"
proof -
  have "map_option svc_key (services (full a s') b) = map_option svc_key (services (full a s) b)" for b
    using keepD(6)[OF assms, of b] by (cases "b = a"; cases "services s b"; cases "services s' b") (auto simp: svc_key_def v_uuid_def)
  then show ?thesis using assms by (simp add: keep_def full_def del: fun_upd_apply)
qed

lemma full_parts:
  assumes "wf_gtask (full a s)"
  shows "wf_agents s" "wf_tasks s" "wf_links (sessions s)" "linked s"
proof -
  note w = wf_gtaskD[OF assms]
  show "wf_agents s" "wf_tasks s" "wf_links (sessions s)" using w by (simp_all add: full_def wf_agents_def wf_tasks_def)
  show "linked s"
    unfolding linked_def
  proof
    fix b assume b: "b \<in> set (g_service_head s)"
    then obtain v where "services (full a s) b = Some v" "\<forall>x \<in> set (v_session_head v). sessions s x \<noteq> None"
      using w(5) by (fastforce simp: linked_def)
    then show "\<exists>v. services s b = Some v \<and> (\<forall>x \<in> set (v_session_head v). sessions s x \<noteq> None)"
      by (cases "b = a"; cases "services s b") auto
  qed
qed


section \<open>Giving back a service\<close>

text \<open>The sessions are kept; the service may be released when it has none.\<close>

definition settled :: "addr \<Rightarrow> gtask \<Rightarrow> gtask \<Rightarrow> bool" where
  "settled a s s' \<longleftrightarrow> wf_gtask s' \<and> sessions s' = sessions s \<and> (\<forall>b. b \<noteq> a \<longrightarrow> services s' b = services s b) \<and> g_cur_session s' = g_cur_session s \<and>
    (\<exists>v. services s a = Some v \<and> (case services s' a of None \<Rightarrow> v_session_head v = [] \<and> g_cur_service s' = None
      | Some v' \<Rightarrow> svc_key v' = svc_key v \<and> g_cur_service s' = g_cur_service s))"

lemma decr_ref_cnt_okay:
  assumes "services s a = Some v"
  obtains v' where "decr_ref_cnt (Some a) s = Some (s\<lparr>services := (services s)(a \<mapsto> v')\<rparr>)" "svc_key v' = svc_key v"
  using assms that[of "if v_ref_cnt v \<le> 0 then v else v\<lparr>v_ref_cnt := v_ref_cnt v - 1\<rparr>"]
  by (simp add: decr_ref_cnt_def svc_key_def v_uuid_def)

lemma release_cur_service_okay:
  assumes wf: "wf_gtask s" and a: "g_cur_service s = Some a" "services s a = Some v" and count: "v_session_count v = 0"
  shows "okay (release_cur_service E s) (settled a s)"
proof -
  have empty: "v_session_head v = []" using count session_count_0[OF wf_servicesD[OF wf_gtaskD(1)[OF wf] a(2)]] by simp
  have "wf_gtask (s'\<lparr>g_cur_service := None\<rparr>)" if "wf_gtask s'" for s'
    using that by (simp add: wf_gtask_def wf_services_def wf_agents_def wf_tasks_def)
  then have "okay (process_release_service E (Some a) TA_REGION_RELEASE s) (\<lambda>s'. settled a s (s'\<lparr>g_cur_service := None\<rparr>))"
    using a(2) empty by (intro okay_conseq[OF release_service_gtask[OF wf a(2) empty]]) (auto simp: settled_def)
  then show ?thesis using a(1) by (simp add: release_cur_service_def okay_bind)
qed

lemma settled_refl: "wf_gtask s \<Longrightarrow> services s a = Some v \<Longrightarrow> settled a s s"
  by (simp add: settled_def)

lemma settled_trans_key:
  assumes s1: "s1 = s\<lparr>services := (services s)(a \<mapsto> v')\<rparr>" and v: "services s a = Some v" "svc_key v' = svc_key v" and s2: "settled a s1 s2"
  shows "settled a s s2"
  using s2 v svc_keyD(3)[OF v(2)] by (auto simp: settled_def s1 split: option.splits)

lemma release_srvc_gc_okay:
  assumes wf: "wf_gtask s" and a: "g_cur_service s = Some a" "services s a = Some v"
  shows "okay (release_srvc_gc E h r s) (settled a s)"
proof (cases "build_in E (v_uuid v)")
  case True
  then show ?thesis using a settled_refl[OF wf a(2)] by (simp add: release_srvc_gc_def)
next
  case False
  obtain v' where d: "(if h then decr_ref_cnt (Some a) s else Some s) = Some (s\<lparr>services := (services s)(a \<mapsto> v')\<rparr>)" "svc_key v' = svc_key v"
    using a(2) decr_ref_cnt_okay[OF a(2)] that[of v] by (cases h) (auto simp: fun_upd_idem)
  define s1 where "s1 = s\<lparr>services := (services s)(a \<mapsto> v')\<rparr>"
  have wf1: "wf_gtask s1" unfolding s1_def by (rule wf_gtask_keep[OF keep_service[OF keep_refl a(2) d(2)] wf])
  have a1: "g_cur_service s1 = Some a" "services s1 a = Some v'" using a by (simp_all add: s1_def)
  have "settled a s s1" by (rule settled_trans_key[OF s1_def a(2) d(2) settled_refl[OF wf1 a1(2)]])
  moreover have "okay (release_cur_service E s1) (settled a s)" if "v_session_count v' = 0"
    by (rule okay_conseq[OF release_cur_service_okay[OF wf1 a1 that]]) (rule settled_trans_key[OF s1_def a(2) d(2)])
  ultimately show ?thesis using False a d(1)[folded s1_def] a1(2) by (simp add: release_srvc_gc_def)
qed


section \<open>Undoing an open\<close>

lemma unlinked_detached:
  assumes u: "unlinked x s s'" and wf: "wf_agents s" and idle: "locked_by (sessions s) x = []" "waits_for (sessions s) x = None"
  shows "detached x s s'"
proof -
  have l: "link_step s s'" using u by (simp add: unlinked_def)
  have v: "map_option s_locked_agents (sessions s' x) = map_option s_locked_agents (sessions s x)"
    "map_option s_waiting_agent (sessions s' x) = map_option s_waiting_agent (sessions s x)"
    by (rule map_option_via[OF link_stepD(13)[OF l]]; erule sess_nolinkD)+
  have "locked_by (sessions s') x = []" "waits_for (sessions s') x = None"
    using idle v by (cases "sessions s x"; cases "sessions s' x"; simp add: locked_by_def waits_for_def)+
  then show ?thesis
    using u link_stepD(1-4,8-10)[OF l] link_step_wf_agents[OF l wf] link_step_ident[OF l] by (simp add: detached_def unlinked_def wf_tasks_def)
qed

text \<open>The session \<open>x\<close> is freed, then its service may be.\<close>

definition undone :: "addr \<Rightarrow> addr \<Rightarrow> gtask \<Rightarrow> gtask \<Rightarrow> bool" where
  "undone a x s s' \<longleftrightarrow> closed x s s' \<and> (\<forall>b. b \<noteq> a \<longrightarrow> services s' b = services s b) \<and> g_cur_session s' = None \<and>
    (\<exists>v. services s a = Some v \<and> (case services s' a of None \<Rightarrow> v_session_head v = [x] \<and> g_cur_service s' = None
      | Some v' \<Rightarrow> v_session_head v' = remove1 x (v_session_head v) \<and> v_is_service_dead v' = v_is_service_dead v \<and>
          g_cur_service s' = Some a))"

lemma create_task_fail_gc_okay:
  assumes wf: "wf_gtask (full a s)" and cur: "g_cur_service s = Some a" "g_cur_session s = Some x"
    and v: "services s a = Some v" "x \<in> set (v_session_head v)" and y: "sessions s x = Some y"
    and idle: "locked_by (sessions s) x = []" "waits_for (sessions s) x = None" "set (children (sessions s) x) \<subseteq> {x}"
  shows "okay (create_task_fail_gc E h r s) (undone a x (full a s))"
proof -
  let ?f = "full a s" and ?i = "s_session_id y"
  define u where "u = v\<lparr>v_session_count := v_session_count v + 1\<rparr>"
  define w where "w = without_session x ?i u"
  have fa: "services ?f a = Some u" "x \<in> set (v_session_head u)" "sessions ?f x = Some y" using v y by (simp_all add: u_def)
  define s1 where "s1 = s\<lparr>services := (services s)(a \<mapsto> clr_session_bit ?i v)\<rparr>"
  define s2 where "s2 = release_pam_node (s_pam_node y) s1"
  have k: "keep s1 s2" by (simp add: s2_def)
  then have k2: "keep (?f\<lparr>services := services s1, g_cur_service := g_cur_service ?f, g_cur_session := g_cur_session ?f\<rparr>) s2"
    by (simp add: full_def s1_def)
  have "u\<lparr>v_session_count := v_session_count u - 1\<rparr> = v" by (simp add: u_def)
  then have w_eq: "w = (clr_session_bit ?i v)\<lparr>v_session_head := remove1 x (v_session_head v)\<rparr>"
    using without_session_eq[where i = ?i and v = u and x = x] by (simp add: w_def u_def)
  define s3 where "s3 = s2\<lparr>services := (services ?f)(a \<mapsto> w)\<rparr>"
  have "services s2 = services s1" by (simp add: s2_def)
  then have s3: "unlink_session a x s2 = Some s3"
    using v by (simp add: unlink_session_def upd_service_def s3_def s1_def w_eq full_def)
  have p3: "wf_links (sessions s3)" "wf_agents s3" "locked_by (sessions s3) x = []" "waits_for (sessions s3) x = None"
    using keep_parts(2,4-7)[OF k] full_parts(1,3)[OF wf] idle(1,2) by (simp_all add: s3_def s1_def wf_links_def wf_agents_def)
  obtain y3 where y3: "sessions s3 x = Some y3" using keep_sessionD[OF k, of x y] y by (auto simp: s3_def s1_def)
  obtain s4 where s4: "unlink_child x s3 = Some s4" "unlinked x s3 s4"
    using unlink_child_okay[OF p3(1) y3] by (auto simp: okay_iff)
  have d: "detached x s3 s4" by (rule unlinked_detached[OF s4(2) p3(2-4)])
  have c: "closed x ?f (free_session x s4)"
    using d by (intro closed_free[OF wf fa _ k2]) (use idle(3) in \<open>simp_all add: s3_def w_def\<close>)
  define s5 where "s5 = (free_session x s4)\<lparr>g_cur_session := None\<rparr>"
  have s5: "services s5 = (services ?f)(a \<mapsto> w)" "sessions s5 = sessions (free_session x s4)" "g_cur_session s5 = None" "g_cur_service s5 = Some a"
    using d link_stepD(11)[of s3 s4] s4(2) keepD(4)[OF k] cur(1)
    by (simp_all add: s5_def free_session_def detached_def s3_def unlinked_def s1_def)
  have wf5: "wf_gtask s5" using c by (simp add: closed_def s5_def wf_gtask_def wf_services_def wf_agents_def wf_tasks_def)
  have "create_task_fail_gc E h r s = release_srvc_gc E h r s5"
    using cur v y s3 s4(1) by (simp add: create_task_fail_gc_def upd_service_def s5_def flip: s1_def s2_def)
  moreover have "undone a x ?f s'" if "settled a s5 s'" for s'
  proof -
    have "closed x ?f s'" using c that by (simp add: closed_def settled_def s5(2))
    moreover have "v_session_head u = [x]" if "remove1 x (v_session_head u) = []"
      using that fa(2) by (cases "v_session_head u") (auto split: if_splits)
    ultimately show ?thesis
      using that s5 fa(1) svc_keyD(3,6)[of _ w] unfolding undone_def settled_def by (auto simp: w_def split: option.splits)
  qed
  ultimately show ?thesis using okay_conseq[OF release_srvc_gc_okay[OF wf5 s5(4), of w E h r]] s5(1) by simp
qed


section \<open>Adding a session\<close>

text \<open>The number of a new session is the least positive one that no session of the service has.\<close>

definition least_free :: "gtask \<Rightarrow> addr \<Rightarrow> nat \<Rightarrow> bool" where
  "least_free s a n \<longleftrightarrow> (\<exists>v. services s a = Some v \<and> 1 \<le> n \<and> n \<le> 8 \<and> (\<forall>z \<in> set (v_session_head v). sid (sessions s) z \<noteq> n) \<and>
    (\<forall>m. 1 \<le> m \<and> m < n \<longrightarrow> (\<exists>z \<in> set (v_session_head v). sid (sessions s) z = m)))"

text \<open>
  \<open>x\<close> is a new session at the end of the list of the service \<open>a\<close>, a child of \<open>P\<close>, with the numbers \<open>j\<close>; it holds and waits for nothing.
\<close>

definition created :: "addr \<Rightarrow> addr \<Rightarrow> ptr \<Rightarrow> u32 \<times> u32 \<times> u32 \<times> u32 \<Rightarrow> gtask \<Rightarrow> gtask \<Rightarrow> bool" where
  "created a x P j s s' \<longleftrightarrow> wf_gtask s' \<and> sessions s x = None \<and> (\<exists>y. sessions s' x = Some y \<and> sess_ident y = j) \<and> least_free s a (unat (fst j)) \<and>
    (\<forall>z. z \<noteq> x \<longrightarrow> map_option sess_ident (sessions s' z) = map_option sess_ident (sessions s z)) \<and>
    (\<forall>b. b \<noteq> a \<longrightarrow> map_option svc_key (services s' b) = map_option svc_key (services s b)) \<and>
    (\<exists>v v'. services s a = Some v \<and> services s' a = Some v' \<and> v_session_head v' = v_session_head v @ [x] \<and> v_index v' = v_index v \<and>
      v_uuid v' = v_uuid v \<and> v_is_service_dead v' = v_is_service_dead v) \<and>
    locked_by (sessions s') x = [] \<and> waits_for (sessions s') x = None \<and> parent (sessions s') = (parent (sessions s))(x := P) \<and>
    children (sessions s') = (\<lambda>p. if P = Some p then children (sessions s) p @ [x] else children (sessions s) p) \<and>
    g_service_head s' = g_service_head s \<and> g_cur_service s' = Some a \<and> g_cur_session s' = Some x"

lemma created_keep:
  assumes c: "created a x P j s s1" and k: "keep s1 s2"
  shows "created a x P j s s2"
proof -
  obtain v v' where v: "services s a = Some v" "services s1 a = Some v'" "v_session_head v' = v_session_head v @ [x]" "v_index v' = v_index v"
      "v_uuid v' = v_uuid v" "v_is_service_dead v' = v_is_service_dead v"
    using c by (auto simp: created_def)
  obtain w where w: "services s2 a = Some w" "svc_key w = svc_key v'" by (rule keep_serviceD[OF k v(2)])
  have "\<exists>v v'. services s a = Some v \<and> services s2 a = Some v' \<and> v_session_head v' = v_session_head v @ [x] \<and> v_index v' = v_index v \<and>
      v_uuid v' = v_uuid v \<and> v_is_service_dead v' = v_is_service_dead v"
    using v w(1) svc_keyD[OF w(2)] by auto
  moreover have "\<exists>y. sessions s2 x = Some y \<and> sess_ident y = j"
    using c map_option_SomeD[OF keep_ident[OF k, of x]] by (fastforce simp: created_def)
  ultimately show ?thesis
    using c wf_gtask_keep[OF k] keep_ident[OF k] keepD(1,4-6)[OF k] keep_parts(4-7)[OF k] by (simp add: created_def)
qed

lemma get_session_id_cases:
  assumes "length (v_session_bitmap v) = 1"
  obtains "get_session_id v = -1"
  | i where "get_session_id v = int (Suc i)" "i < 8" "i \<notin> wbits (v_session_bitmap v)" "\<And>m. m < i \<Longrightarrow> m \<in> wbits (v_session_bitmap v)"
proof -
  obtain w where w: "v_session_bitmap v = [w]" using assms by (cases "v_session_bitmap v") auto
  have "get_session_id_from [w] [k..<8] = -1 \<or> (\<exists>i. get_session_id_from [w] [k..<8] = int (Suc i) \<and> k \<le> i \<and> i < 8 \<and> \<not> bit w i \<and> (\<forall>m. k \<le> m \<and> m < i \<longrightarrow> bit w m))"
    if "k \<le> 8" for k
    using that
  proof (induction k rule: inc_induct)
    case (step k)
    show ?case
    proof (cases "bit w k")
      case True
      have "bit w m" if "k \<le> m" "m < i" "\<forall>m. Suc k \<le> m \<and> m < i \<longrightarrow> bit w m" for m i
        using that True by (cases "m = k") auto
      then show ?thesis using step True by (auto simp: upt_conv_Cons)
    next
      case False
      then show ?thesis using step by (auto simp: upt_conv_Cons intro!: exI[of _ k])
    qed
  qed simp
  from this[of 0] show thesis
    using that by (auto simp: get_session_id_def w wbits_def)
qed

lemma not_in_use_views:
  assumes wf: "wf_gtask s" and x: "sessions s x = None"
  shows "locked_by (sessions s) x = []" "waits_for (sessions s) x = None" "parent (sessions s) x = None" "children (sessions s) x = []"
    "services s a = Some v \<Longrightarrow> x \<notin> set (v_session_head v)"
  using x wf_session[OF wf, of a v x] by (auto simp: locked_by_def waits_for_def parent_def children_def)

text \<open>The state after \<open>add_new_session_into_list\<close>, but for the count.\<close>

definition with_session :: "addr \<Rightarrow> addr \<Rightarrow> session_struct \<Rightarrow> service_struct \<Rightarrow> gtask \<Rightarrow> gtask" where
  "with_session a x y v s = s\<lparr>sessions := (sessions s)(x \<mapsto> y),
    services := (services s)(a \<mapsto> (set_session_bit (s_session_id y) v)\<lparr>v_session_head := v_session_head v @ [x]\<rparr>), g_cur_session := Some x\<rparr>"

lemma with_session_created:
  assumes wf: "wf_gtask s" and a: "g_cur_service s = Some a" "services s a = Some v" and x: "sessions s x = None"
    and i: "i < 8" "i \<notin> wbits (v_session_bitmap v)" "\<And>m. m < i \<Longrightarrow> m \<in> wbits (v_session_bitmap v)"
    and y: "s_session_id y = of_nat (Suc i)" "s_locked_agents y = []" "s_waiting_agent y = None" "s_child_ta_sess_head y = []"
      "s_child_ta_sess_list y = None"
  shows "created a x None (sess_ident y) s (full a (with_session a x y v s))"
proof -
  let ?s = "full a (with_session a x y v s)"
  note w = wf_gtaskD[OF wf] and new = not_in_use_views[OF wf x]
  have sw: "service_wf (sessions s) v" by (rule wf_servicesD[OF w(1) a(2)])
  then have len: "length (v_session_bitmap v) = 1" by (simp add: service_wf_def)
  have ui: "unat (s_session_id y) = Suc i" using i(1) y(1) by (simp add: unat_of_nat_u32 flip: of_nat_Suc)
  define v' where "v' = (set_session_bit (s_session_id y) v)\<lparr>v_session_head := v_session_head v @ [x], v_session_count := v_session_count v + 1\<rparr>"
  have v': "services ?s = (services s)(a \<mapsto> v')" by (simp add: full_def with_session_def v'_def fun_eq_iff)
  have key: "v_index v' = v_index v" "v_uuid v' = v_uuid v" "v_is_service_dead v' = v_is_service_dead v" "v_session_head v' = v_session_head v @ [x]"
    by (simp_all add: v'_def v_uuid_def set_session_bit_def Let_def)
  have "service_wf ((sessions s)(x \<mapsto> y)) v'"
    using len session_bit_wbits(1)[OF len, of "s_session_id y"] ui i(1) by (intro service_wf_add[OF sw x i(1,2) y(1)]) (simp_all add: v'_def)
  then have "wf_svcs (g_service_head s) ((services s)(a \<mapsto> v')) ((sessions s)(x \<mapsto> y)) (g_service_index_map s) (g_cur_index s)"
    using key x new(5)[OF a(2)] by (intro wf_svcs_sessions[OF w(1)[unfolded wf_services_def] a(2)]) auto
  then have "wf_services ?s" by (simp add: wf_services_def v') (simp add: full_def with_session_def)
  moreover have "wf_agents ?s"
    using new(1,2) y(2,3) by (intro wf_agents_session_views[OF w(2)]) (simp_all add: full_def with_session_def fun_upd_idem)
  moreover have "wf_tasks ?s" using w(3) by (simp add: full_def with_session_def wf_tasks_def)
  moreover have links: "parent (sessions ?s) = parent (sessions s)" "children (sessions ?s) = children (sessions s)"
    using new(3,4) y(4,5) by (simp_all add: with_session_def fun_upd_idem)
  moreover have "wf_links (sessions ?s)" using w(4) unfolding wf_links_def links by blast
  ultimately have "wf_gtask ?s" by (simp only: wf_gtask_def)
  moreover have "least_free s a (unat (s_session_id y))"
  proof -
    have b: "m \<in> wbits (v_session_bitmap v) \<longleftrightarrow> (\<exists>z \<in> set (v_session_head v). sid (sessions s) z = Suc m)" for m
      using sw by (simp add: service_wf_def)
    have "\<exists>z \<in> set (v_session_head v). sid (sessions s) z = m" if "1 \<le> m" "m < Suc i" for m
      using that i(3)[of "m - 1"] b[of "m - 1"] by simp
    then show ?thesis using i b[of i] a(2) by (auto simp: least_free_def ui)
  qed
  ultimately show ?thesis
    unfolding created_def using v' key a x y(2,3) links new(3) by (auto simp: with_session_def sess_ident_def fun_upd_idem)
qed

lemma add_new_session_okay:
  assumes wf: "wf_gtask s" and a: "g_cur_service s = Some a" "services s a = Some v"
  shows "okay (add_new_session_into_list E l s) (\<lambda>((r, new), s'). case new of None \<Rightarrow> is_err_ret r \<and> quiet s s'
    | Some (x, i) \<Rightarrow> r = TEE_SUCCESS \<and> created a x None (i, 0, 0, l) s (full a s'))"
proof -
  have len: "length (v_session_bitmap v) = 1" using wf_servicesD[OF wf_gtaskD(1)[OF wf] a(2)] by (simp add: service_wf_def)
  let ?s = "notify Tee_malloc s"
  show ?thesis
  proof (rule get_session_id_cases[OF len])
    assume "get_session_id v = -1"
    then show ?thesis using a by (simp add: add_new_session_into_list_def is_err_ret_def)
  next
    fix i assume i: "get_session_id v = int (Suc i)" "i < 8" "i \<notin> wbits (v_session_bitmap v)" "\<And>m. m < i \<Longrightarrow> m \<in> wbits (v_session_bitmap v)"
    show ?thesis
    proof (rule TEE_Malloc_cases[of E s])
      assume "TEE_Malloc E s = (None, ?s)"
      then show ?thesis using a i(1) by (simp add: add_new_session_into_list_def is_err_ret_def)
    next
      fix x assume m: "TEE_Malloc E s = (Some x, ?s)" "\<not> in_use s x"
      then have x: "sessions ?s x = None" by (simp add: in_use_def)
      have wf': "wf_gtask ?s" using wf by (rule wf_gtask_keep[rotated]) simp
      show ?thesis
      proof (cases "join_session_task_name (v_name v) (of_nat (Suc i))")
        case None
        then show ?thesis using a i(1) m(1) by (simp add: add_new_session_into_list_def is_err_ret_def)
      next
        case (Some name)
        define y where "y = zero_session\<lparr>s_agent_pending := False, s_ta2ta_level := l, s_session_id := of_nat (Suc i), s_name := name,
                  s_locked_agents := [], s_map_mem := [], s_session_status := TA_STATUS_NORMAL, s_child_ta_sess_head := [],
                  s_child_ta_sess_list := None\<rparr>"
        have "add_new_session_into_list E l s = Some ((TEE_SUCCESS, Some (x, of_nat (Suc i))), with_session a x y v ?s)"
          using a i(1) m(1) Some by (simp add: add_new_session_into_list_def y_def with_session_def upd_service_def Let_def)
        moreover have "created a x None (sess_ident y) ?s (full a (with_session a x y v ?s))"
          using a x i(2-4) by (intro with_session_created[OF wf']) (simp_all add: y_def zero_session_def)
        moreover have "sess_ident y = (of_nat (Suc i), 0, 0, l)" by (simp add: y_def zero_session_def sess_ident_def)
        moreover have "created a x None j ?s t \<longleftrightarrow> created a x None j s t" for j t by (simp add: created_def least_free_def)
        ultimately show ?thesis by simp
      qed
    qed
  qed
qed


section \<open>Creating a session\<close>

definition ta2ta_parent :: "u32 \<Rightarrow> u32 \<Rightarrow> gtask \<Rightarrow> ptr" where
  "ta2ta_parent cmd_type caller s = (if cmd_type = CMD_TYPE_NS_TO_SECURE then None
    else case find_task s caller of Some (Some (_, p)) \<Rightarrow> Some p | _ \<Rightarrow> None)"

definition adopted :: "addr \<Rightarrow> ptr \<Rightarrow> gtask \<Rightarrow> gtask \<Rightarrow> bool" where
  "adopted x P s s' \<longleftrightarrow> link_step s s' \<and> wf_links (sessions s') \<and> parent (sessions s') = (parent (sessions s))(x := P) \<and>
    children (sessions s') = (\<lambda>p. if P = Some p then children (sessions s) p @ [x] else children (sessions s) p)"

lemma link_child_okay:
  assumes wf: "wf_links (sessions s)" and x: "sessions s x = Some y" "parent (sessions s) x = None" and p: "sessions s p = Some q"
  shows "okay (link_child x p s) (adopted x (Some p) s)"
proof -
  have l: "s_child_ta_sess_list y = None" using x by (simp add: link_views_Some)
  define s1 where "s1 = s\<lparr>sessions := (sessions s)(x \<mapsto> y\<lparr>s_child_ta_sess_list := Some p\<rparr>)\<rparr>"
  obtain q1 where q1: "sessions s1 p = Some q1" "sess_nolink q1 = sess_nolink q" "s_child_ta_sess_head q1 = s_child_ta_sess_head q"
      "p \<noteq> x \<Longrightarrow> q1 = q" "p = x \<Longrightarrow> s_child_ta_sess_list q1 = Some p"
    using x p that by (cases "p = x") (auto simp: s1_def sess_nolink_def)
  define s2 where "s2 = s1\<lparr>sessions := (sessions s1)(p \<mapsto> q1\<lparr>s_child_ta_sess_head := s_child_ta_sess_head q1 @ [x]\<rparr>)\<rparr>"
  have e: "link_child x p s = Some s2" using x(1) l q1(1) by (simp add: link_child_def upd_session_def s1_def s2_def)
  have pa: "parent (sessions s2) = (parent (sessions s))(x := Some p)"
    using q1 p x by (auto simp: s2_def s1_def fun_eq_iff link_views_Some)
  have ch: "children (sessions s2) = (\<lambda>r. if Some p = Some r then children (sessions s) r @ [x] else children (sessions s) r)"
    using q1 p x by (auto simp: s2_def s1_def fun_eq_iff link_views_Some)
  have "map_option sess_nolink (sessions s2 z) = map_option sess_nolink (sessions s z)" for z
    using p x(1) q1(2) by (auto simp: s2_def s1_def sess_nolink_def)
  then have "link_step s s2" unfolding link_step_def s2_def s1_def by (intro exI[of _ "sessions s2"]) (simp add: s2_def s1_def)
  moreover have "wf_links (sessions s2)" using wf x(2) unfolding wf_links_def ch pa by (auto simp: distinct_append)
  ultimately show ?thesis using e pa ch by (simp add: adopted_def)
qed

lemma add_session_to_ta2ta_list_okay:
  assumes wf: "wf_links (sessions s)" "linked s" and x: "sessions s x = Some y" "parent (sessions s) x = None"
  shows "okay (add_session_to_ta2ta_list cmd_type caller x s) (adopted x (ta2ta_parent cmd_type caller s) s)"
proof -
  have none: "adopted x None s s" using wf(1) x(2) by (auto simp: adopted_def link_step_def fun_upd_idem intro: exI[of _ "sessions s"])
  show ?thesis
    using wf(2)
  proof (cases s rule: find_task_linked[where t = caller])
    case none
    then show ?thesis using \<open>adopted x None s s\<close> by (simp add: add_session_to_ta2ta_list_def ta2ta_parent_def)
  next
    case (some a p v q)
    then show ?thesis using \<open>adopted x None s s\<close> link_child_okay[OF wf(1) x some(4)] by (simp add: add_session_to_ta2ta_list_def ta2ta_parent_def)
  qed
qed

lemma link_step_wf:
  assumes l: "link_step s s'" and wf: "wf_gtask s" "wf_links (sessions s')"
  shows "wf_gtask s'"
proof -
  have ids: "map_option s_session_id (sessions s' z) = map_option s_session_id (sessions s z)" for z
    by (rule map_option_via[OF link_stepD(13)[OF l]]) (rule sess_nolinkD(1))
  have "wf_services s'"
    using wf_gtaskD(1)[OF wf(1)] wf_svcs_sess_cong[of "sessions s'" "sessions s", OF ids] link_stepD[OF l] by (simp add: wf_services_def)
  moreover have "wf_tasks s'" using wf_gtaskD(3)[OF wf(1)] link_stepD(8-10)[OF l] by (simp add: wf_tasks_def)
  ultimately show ?thesis using link_step_wf_agents[OF l wf_gtaskD(2)[OF wf(1)]] wf(2) by (simp add: wf_gtask_def)
qed

lemma adopted_full: "adopted x P s s' \<Longrightarrow> adopted x P (full a s) (full a s')"
  by (auto simp: adopted_def link_step_def full_def intro!: exI[of _ "sessions s'"])

lemma created_adopt:
  assumes c: "created a x None j s s1" and ad: "adopted x P s1 s2"
  shows "created a x P j s s2"
proof -
  have l: "link_step s1 s2" and wl: "wf_links (sessions s2)" using ad by (simp_all add: adopted_def)
  have links: "children (sessions s1) = children (sessions s)" "parent (sessions s1) = (parent (sessions s))(x := None)"
    using c by (simp_all add: created_def)
  have v: "map_option s_locked_agents (sessions s2 x) = map_option s_locked_agents (sessions s1 x)"
    "map_option s_waiting_agent (sessions s2 x) = map_option s_waiting_agent (sessions s1 x)"
    by (rule map_option_via[OF link_stepD(13)[OF l]]; erule sess_nolinkD)+
  have "locked_by (sessions s2) x = []" "waits_for (sessions s2) x = None"
    using c v by (cases "sessions s1 x"; cases "sessions s2 x"; simp add: created_def locked_by_def waits_for_def)+
  moreover have "children (sessions s2) = (\<lambda>p. if P = Some p then children (sessions s) p @ [x] else children (sessions s) p)"
    "parent (sessions s2) = (parent (sessions s))(x := P)"
    using ad unfolding adopted_def links by simp_all
  moreover have "\<exists>y. sessions s2 x = Some y \<and> sess_ident y = j"
    using c map_option_SomeD[OF link_step_ident[OF l, of x]] by (fastforce simp: created_def)
  ultimately show ?thesis
    using c link_step_wf[OF l _ wl] link_step_ident[OF l] link_stepD(1,2,11,12)[OF l] by (simp add: created_def)
qed

text \<open>Writing the other fields of the new session.\<close>

lemma created_upd:
  assumes c: "created a x P j s s1" and y: "sessions s1 x = Some y"
    and y': "s_session_id y' = s_session_id y" "s_locked_agents y' = s_locked_agents y" "s_waiting_agent y' = s_waiting_agent y"
      "s_child_ta_sess_head y' = s_child_ta_sess_head y" "s_child_ta_sess_list y' = s_child_ta_sess_list y"
  shows "created a x P (sess_ident y') s (s1\<lparr>sessions := (sessions s1)(x \<mapsto> y')\<rparr>)"
proof -
  let ?s = "s1\<lparr>sessions := (sessions s1)(x \<mapsto> y')\<rparr>"
  have wf: "wf_gtask s1" using c by (simp add: created_def)
  have j: "fst j = s_session_id y" using c y by (auto simp: created_def sess_ident_def)
  have ids: "map_option s_session_id (((sessions s1)(x \<mapsto> y')) z) = map_option s_session_id (sessions s1 z)" for z using y y'(1) by simp
  have "wf_services ?s"
    using wf_gtaskD(1)[OF wf] wf_svcs_sess_cong[of "(sessions s1)(x \<mapsto> y')" "sessions s1", OF ids] by (simp add: wf_services_def)
  moreover have locks: "locked_by (sessions ?s) = locked_by (sessions s1)" "waits_for (sessions ?s) = waits_for (sessions s1)"
    using y y' by (simp_all add: lock_views_Some fun_upd_idem)
  moreover have links: "parent (sessions ?s) = parent (sessions s1)" "children (sessions ?s) = children (sessions s1)"
    using y y' by (simp_all add: link_views_Some fun_upd_idem)
  moreover have "wf_agents ?s" by (rule wf_agents_session_views[OF wf_gtaskD(2)[OF wf] _ _ _ locks]) simp_all
  moreover have "wf_tasks ?s" using wf_gtaskD(3)[OF wf] by (simp add: wf_tasks_def)
  moreover have "wf_links (sessions ?s)" using wf_gtaskD(4)[OF wf] unfolding wf_links_def links by blast
  ultimately have "wf_gtask ?s" by (simp only: wf_gtask_def)
  moreover have "fst (sess_ident y') = fst j" using y'(1) j by (simp add: sess_ident_def)
  ultimately show ?thesis using c locks links unfolding created_def by simp
qed

lemma full_upd_session: "full a (s\<lparr>sessions := ss\<rparr>) = (full a s)\<lparr>sessions := ss\<rparr>"
  by (simp add: full_def)


section \<open>The task of the caller\<close>

lemma find_task_in_same:
  assumes "\<And>b. b \<in> set as \<Longrightarrow> \<exists>v v'. services s b = Some v \<and> services s' b = Some v' \<and> v_is_service_dead v' = v_is_service_dead v \<and>
    find_entry (sessions s') (\<lambda>y. s_task_id y = t) (v_session_head v') = find_entry (sessions s) (\<lambda>y. s_task_id y = t) (v_session_head v)"
  shows "find_task_in s' t d as = find_task_in s t d as"
  using assms
proof (induction as)
  case (Cons b as)
  obtain v v' where "services s b = Some v" "services s' b = Some v'" "v_is_service_dead v' = v_is_service_dead v"
    "find_entry (sessions s') (\<lambda>y. s_task_id y = t) (v_session_head v') = find_entry (sessions s) (\<lambda>y. s_task_id y = t) (v_session_head v)"
    using Cons.prems[of b] by auto
  then show ?case using Cons by (simp split: option.splits)
qed simp

lemma find_entry_map_cong:
  assumes "\<And>z. z \<in> set zs \<Longrightarrow> map_option f (h' z) = map_option f (h z)" and "\<And>y. P y = Q (f y)"
  shows "find_entry h' P zs = find_entry h P zs"
  using assms(1)
proof (induction zs)
  case (Cons z zs)
  then show ?case using assms(2) Cons.prems[of z] by (cases "h z"; cases "h' z") auto
qed simp

lemma find_entry_snoc:
  "(\<And>z. z \<in> set zs \<Longrightarrow> h z \<noteq> None) \<Longrightarrow> h x = Some y \<Longrightarrow> \<not> P y \<Longrightarrow> find_entry h P (zs @ [x]) = find_entry h P zs"
  by (induction zs) (auto split: option.splits)

lemma find_task_full: "linked s \<Longrightarrow> find_task (full a s) t = find_task s t"
  unfolding find_task_def do_find_task_def full_sel by (rule find_task_in_same) (auto simp: linked_def full_def)

lemma created_find_task:
  assumes wf: "wf_gtask s" and c: "created a x P j s s'" and t: "fst (snd j) \<noteq> t"
  shows "find_task s' t = find_task s t"
proof -
  obtain v v' where v: "services s a = Some v" "services s' a = Some v'" "v_session_head v' = v_session_head v @ [x]"
      "v_is_service_dead v' = v_is_service_dead v"
    using c by (auto simp: created_def)
  have alive: "z \<noteq> x" "map_option sess_ident (sessions s' z) = map_option sess_ident (sessions s z)" "sessions s' z \<noteq> None"
    if z: "services s b = Some w" "z \<in> set (v_session_head w)" for b w z
  proof -
    obtain y where y: "sessions s z = Some y" by (rule wf_session[OF wf z])
    then show "z \<noteq> x" using c by (auto simp: created_def)
    then show "map_option sess_ident (sessions s' z) = map_option sess_ident (sessions s z)" using c by (simp add: created_def)
    then show "sessions s' z \<noteq> None" using y by auto
  qed
  have same: "find_entry (sessions s') (\<lambda>y. s_task_id y = t) (v_session_head w) = find_entry (sessions s) (\<lambda>y. s_task_id y = t) (v_session_head w)"
    if "services s b = Some w" for b w
    by (rule find_entry_map_cong[where f = sess_ident and Q = "\<lambda>j. fst (snd j) = t"]) (use alive(2)[OF that] in \<open>simp_all add: sess_ident_def\<close>)
  obtain y where y: "sessions s' x = Some y" "sess_ident y = j" using c by (auto simp: created_def)
  have last: "find_entry (sessions s') (\<lambda>y. s_task_id y = t) (v_session_head v @ [x]) = find_entry (sessions s') (\<lambda>y. s_task_id y = t) (v_session_head v)"
    using alive(3)[OF v(1)] y t by (intro find_entry_snoc) (auto simp: sess_ident_def)
  have "\<exists>w w'. services s b = Some w \<and> services s' b = Some w' \<and> v_is_service_dead w' = v_is_service_dead w \<and>
    find_entry (sessions s') (\<lambda>y. s_task_id y = t) (v_session_head w') = find_entry (sessions s) (\<lambda>y. s_task_id y = t) (v_session_head w)"
    if b: "b \<in> set (g_service_head s)" for b
  proof (cases "b = a")
    case True
    then show ?thesis using v last same[OF v(1)] by simp
  next
    case False
    obtain w where w: "services s b = Some w" using b wf_gtaskD(5)[OF wf] by (auto simp: linked_def)
    have "map_option svc_key (services s' b) = map_option svc_key (services s b)" using c False by (simp add: created_def)
    then obtain w' where "services s' b = Some w'" "svc_key w' = svc_key w" using map_option_SomeD[OF _ w] by blast
    then show ?thesis using w same[OF w] svc_keyD(3,6)[of w' w] by simp
  qed
  then have "find_task_in s' t False (g_service_head s) = find_task_in s t False (g_service_head s)" by (rule find_task_in_same)
  moreover have "g_service_head s' = g_service_head s" using c by (simp add: created_def)
  ultimately show ?thesis by (simp add: find_task_def do_find_task_def)
qed


section \<open>Failed opens\<close>

definition unopened :: "addr \<Rightarrow> gtask \<Rightarrow> gtask \<Rightarrow> bool" where
  "unopened a s s' \<longleftrightarrow> wf_gtask s' \<and> (\<forall>z. map_option sess_ident (sessions s' z) = map_option sess_ident (sessions s z)) \<and>
    parent (sessions s') = parent (sessions s) \<and> children (sessions s') = children (sessions s) \<and>
    (\<forall>b. b \<noteq> a \<longrightarrow> map_option svc_key (services s' b) = map_option svc_key (services s b)) \<and> g_cur_session s' = None \<and>
    (\<exists>v. services s a = Some v \<and> (case services s' a of None \<Rightarrow> v_session_head v = [] \<and> g_cur_service s' = None
      | Some v' \<Rightarrow> v_session_head v' = v_session_head v \<and> v_is_service_dead v' = v_is_service_dead v \<and> g_cur_service s' = Some a))"

lemma settled_unopened:
  assumes q: "quiet s s1" and st: "settled a s1 s'" and cur: "g_cur_service s = Some a" "g_cur_session s = None"
  shows "unopened a s s'"
proof -
  have q1: "sessions s1 = sessions s" "services s1 = services s" "g_cur_service s1 = Some a" "g_cur_session s1 = None"
    using cur by (simp_all add: quietD[OF q])
  obtain v where v: "services s a = Some v" "case services s' a of None \<Rightarrow> v_session_head v = [] \<and> g_cur_service s' = None
      | Some v' \<Rightarrow> svc_key v' = svc_key v \<and> g_cur_service s' = Some a"
    using st unfolding settled_def q1 by blast
  have "case services s' a of None \<Rightarrow> v_session_head v = [] \<and> g_cur_service s' = None
      | Some v' \<Rightarrow> v_session_head v' = v_session_head v \<and> v_is_service_dead v' = v_is_service_dead v \<and> g_cur_service s' = Some a"
    using v(2) by (cases "services s' a") (simp_all add: svc_key_def)
  then show ?thesis using st q1 v(1) by (simp add: unopened_def settled_def)
qed

lemma undone_unopened:
  assumes wf: "wf_gtask s" and c: "created a x P j s t" and u: "undone a x t s'"
  shows "unopened a s s'"
proof -
  have x: "sessions s x = None" using c by (simp add: created_def)
  note new = not_in_use_views[OF wf x]
  have cl: "closed x t s'" "sessions s' x = None" using u by (simp_all add: undone_def closed_def)
  have gone: "parent (sessions s') x = None" "children (sessions s') x = []" using cl(2) by (simp_all add: parent_def children_def)
  have z: "map_option sess_ident (sessions s' z) = map_option sess_ident (sessions s z) \<and> parent (sessions s') z = parent (sessions s) z \<and>
      children (sessions s') z = children (sessions s) z" for z
  proof (cases "z = x")
    case True
    then show ?thesis using x cl(2) new(3,4) gone by simp
  next
    case False
    have "x \<notin> set (children (sessions s) z)" using new(3) children_iff[OF wf, of x z] by simp
    then have "remove1 x (children (sessions t) z) = children (sessions s) z"
      using c by (simp add: created_def remove1_append remove1_idem)
    then show ?thesis using c cl(1) False by (simp add: created_def closed_def)
  qed
  obtain v v' where v: "services s a = Some v" "services t a = Some v'" "v_session_head v' = v_session_head v @ [x]"
      "v_is_service_dead v' = v_is_service_dead v"
    using c by (auto simp: created_def)
  have h: "remove1 x (v_session_head v') = v_session_head v" using new(5)[OF v(1)] v(3) by (simp add: remove1_append)
  have "case services s' a of None \<Rightarrow> v_session_head v = [] \<and> g_cur_service s' = None
      | Some w \<Rightarrow> v_session_head w = v_session_head v \<and> v_is_service_dead w = v_is_service_dead v \<and> g_cur_service s' = Some a"
    using u v h by (cases "services s' a") (auto simp: undone_def)
  moreover have "parent (sessions s') = parent (sessions s)" "children (sessions s') = children (sessions s)" using z by auto
  moreover have "g_cur_session s' = None" "\<forall>b. b \<noteq> a \<longrightarrow> services s' b = services t b" "wf_gtask s'"
    using u by (simp_all add: undone_def closed_def)
  ultimately show ?thesis using z v(1) c by (simp add: unopened_def created_def)
qed

text \<open>A new session that holds nothing can be given back.\<close>

lemma create_task_fail_gc_unopened:
  assumes wf: "wf_gtask s" and c: "created a x P j s (full a t)"
  shows "okay (create_task_fail_gc E h r t) (unopened a s)"
proof -
  obtain v y where v: "services t a = Some v" "x \<in> set (v_session_head v)" and y: "sessions t x = Some y"
    using c by (auto simp: created_def)
  have "sessions s x = None" using c by (simp add: created_def)
  then have "children (sessions s) x = []" by (rule not_in_use_views(4)[OF wf])
  then have ch: "set (children (sessions t) x) \<subseteq> {x}" using c by (simp add: created_def)
  have "okay (create_task_fail_gc E h r t) (undone a x (full a t))"
    using c by (intro create_task_fail_gc_okay[OF _ _ _ v y _ _ ch]) (simp_all add: created_def)
  then show ?thesis by (rule okay_conseq) (rule undone_unopened[OF wf c])
qed

end
