(* ===== verification/Session_Open.thy ===== *)
theory Session_Open
  imports Session_Create
begin

text \<open>
  Opening sessions: an open ends and keeps the invariant of the global task; it adds one session with the least free number, or it
  gives back everything it took.
\<close>

section \<open>Opening\<close>

lemma get_ta2ta_level_total: "wf_gtask s \<Longrightarrow> \<exists>l. get_ta2ta_level cmd_type caller s = Some l"
  by (rule find_task_linked[OF wf_gtaskD(5), of s caller]) (auto simp: get_ta2ta_level_def)

text \<open>What a successful open adds; \<open>t\<close> is the new task.\<close>

definition opened :: "u32 \<Rightarrow> u32 \<Rightarrow> addr \<Rightarrow> addr \<Rightarrow> gtask \<Rightarrow> gtask \<Rightarrow> bool" where
  "opened cmd_type caller a x s s' \<longleftrightarrow> (\<exists>P i t l. created a x P (i, t, caller, l) s s' \<and> get_ta2ta_level cmd_type caller s = Some (Some l) \<and>
    (t \<noteq> caller \<longrightarrow> P = ta2ta_parent cmd_type caller s))"

lemma opened_keep: "opened ct caller a x s s1 \<Longrightarrow> keep s1 s2 \<Longrightarrow> opened ct caller a x s s2"
  unfolding opened_def by (blast intro: created_keep)

text \<open>The steps after the task was created.\<close>

lemma finish_create:
  assumes wf: "wf_gtask s" and c: "created a x None (i, t0, from0, l) s (full a s2)"
  shows "okay (do {
      s \<leftarrow> upd_session x (\<lambda>y. y\<lparr>s_task_id := t, s_ta2ta_from_taskid := caller\<rparr>) s2;
      s \<leftarrow> add_session_to_ta2ta_list cmd_type caller x s;
      s \<leftarrow> upd_session x (\<lambda>y. y\<lparr>s_wait_ta_back_msg := False\<rparr>) s;
      a \<leftarrow> g_cur_service s;
      v \<leftarrow> services s a;
      let cmd = set_session_context (v_index v) i cmd;
      s \<leftarrow> upd_service a (\<lambda>v. v\<lparr>v_session_count := v_session_count v + 1\<rparr>) s;
      Some ((ret, cmd), s)
    }) (\<lambda>((r, cmd'), s'). r = ret \<and> (\<exists>P. created a x P (i, t, caller, l) s s' \<and> (t \<noteq> caller \<longrightarrow> P = ta2ta_parent cmd_type caller s)) \<and>
      (\<exists>v. services s a = Some v \<and> cmd' = set_session_context (v_index v) i cmd))"
proof -
  let ?j = "(i, t, caller, l)"
  obtain y2 where y2: "sessions s2 x = Some y2" "sess_ident y2 = (i, t0, from0, l)" using c by (auto simp: created_def)
  define y3 where "y3 = y2\<lparr>s_task_id := t, s_ta2ta_from_taskid := caller\<rparr>"
  define s3 where "s3 = s2\<lparr>sessions := (sessions s2)(x \<mapsto> y3)\<rparr>"
  have "sess_ident y3 = ?j" using y2(2) by (simp add: y3_def sess_ident_def)
  then have c3: "created a x None ?j s (full a s3)"
    using created_upd[OF c, of y2 y3] y2(1) by (simp add: s3_def y3_def full_upd_session)
  have wf3: "wf_gtask (full a s3)" and px: "parent (sessions s3) x = None" and y3: "sessions s3 x = Some y3"
    using c3 by (simp_all add: created_def s3_def)
  note p3 = full_parts[OF wf3]
  define P where "P = ta2ta_parent cmd_type caller s3"
  obtain s4 where s4: "add_session_to_ta2ta_list cmd_type caller x s3 = Some s4" "adopted x P s3 s4"
    using add_session_to_ta2ta_list_okay[OF p3(3,4) y3 px] by (auto simp: okay_iff P_def)
  have c4: "created a x P ?j s (full a s4)" by (rule created_adopt[OF c3 adopted_full[OF s4(2)]])
  obtain y4 where y4: "sessions s4 x = Some y4" "sess_ident y4 = ?j" using c4 by (auto simp: created_def)
  define s5 where "s5 = s4\<lparr>sessions := (sessions s4)(x \<mapsto> y4\<lparr>s_wait_ta_back_msg := False\<rparr>)\<rparr>"
  have c5: "created a x P ?j s (full a s5)"
    using created_upd[OF c4, of y4 "y4\<lparr>s_wait_ta_back_msg := False\<rparr>"] y4 by (simp add: s5_def full_upd_session sess_ident_def)
  obtain v v5 where v5: "services s a = Some v" "services s5 a = Some v5" "v_index v5 = v_index v" "g_cur_service s5 = Some a"
    using c5 by (auto simp: created_def)
  have "t \<noteq> caller \<longrightarrow> P = ta2ta_parent cmd_type caller s"
    using created_find_task[OF wf c3, of caller] find_task_full[OF p3(4)] by (simp add: P_def ta2ta_parent_def)
  moreover have "upd_service a (\<lambda>v. v\<lparr>v_session_count := v_session_count v + 1\<rparr>) s5 = Some (full a s5)"
    using v5(2) by (simp add: upd_service_def full_def)
  ultimately show ?thesis
    using y2(1) s4(1) y4(1) c5 v5 by (auto simp: upd_session_def simp flip: y3_def s3_def s5_def)
qed

lemma created_ta_task_init:
  assumes "created a x P j s (full a s1)"
  obtains u v where "ta_task_init s1 = Some u" "services s1 a = Some v" "g_cur_service s1 = Some a"
  using assms that by (auto simp: created_def ta_task_init_def)

lemma create_session_okay:
  assumes tf: "timer_fires E" and wf: "wf_gtask s" and cur: "g_cur_service s = Some a" "g_cur_session s = None" and v: "services s a = Some v"
  shows "okay (create_session E msg0 cmd cmd_type caller h s) (\<lambda>((r, cmd'), s').
    if r = TEE_SUCCESS then \<exists>x. opened cmd_type caller a x s s' else is_err_ret r \<and> unopened a s s')"
proof -
  let ?Q = "\<lambda>((r, cmd'), s'). if r = TEE_SUCCESS then \<exists>x. opened cmd_type caller a x s s' else is_err_ret r \<and> unopened a s s'"
  have gc: "okay (do { s \<leftarrow> release_srvc_gc E h SUCC_RET s1; Some ((r, c), s) }) ?Q" if q: "quiet s s1" and r: "is_err_ret r" for s1 r c
  proof -
    have wf1: "wf_gtask s1" by (rule wf_gtask_keep[OF keep_quiet[OF q] wf])
    have "okay (release_srvc_gc E h SUCC_RET s1) (settled a s1)"
      by (rule release_srvc_gc_okay[OF wf1]) (use cur v in \<open>simp_all add: quietD[OF q]\<close>)
    then have "okay (release_srvc_gc E h SUCC_RET s1) (unopened a s)" by (rule okay_conseq) (rule settled_unopened[OF q _ cur])
    moreover have "r \<noteq> TEE_SUCCESS" using r by (auto simp: is_err_ret_def)
    ultimately show ?thesis using r by (simp add: okay_bind)
  qed
  obtain level where lv: "get_ta2ta_level cmd_type caller s = Some level" using get_ta2ta_level_total[OF wf] by blast
  show ?thesis
  proof (cases level)
    case None
    then show ?thesis using gc[of s TEE_ERROR_GENERIC cmd] lv by (simp add: create_session_def is_err_ret_def)
  next
    case (Some l)
    obtain ret new s1 where s1: "add_new_session_into_list E l s = Some ((ret, new), s1)" and n: "case new of None \<Rightarrow> is_err_ret ret \<and> quiet s s1
        | Some (x, i) \<Rightarrow> ret = TEE_SUCCESS \<and> created a x None (i, 0, 0, l) s (full a s1)"
      using add_new_session_okay[OF wf cur(1) v, of E l] by (auto simp: okay_iff)
    show ?thesis
    proof (cases new)
      case None
      then show ?thesis using gc[of s1 ret cmd] n lv Some s1 by (simp add: create_session_def)
    next
      case xi: (Some xi)
      obtain x i where x: "new = Some (x, i)" using xi by (cases xi) auto
      have c: "created a x None (i, 0, 0, l) s (full a s1)" and ret: "ret = TEE_SUCCESS" using n x by simp_all
      obtain u w where u: "ta_task_init s1 = Some u" and w: "services s1 a = Some w" "g_cur_service s1 = Some a" by (rule created_ta_task_init[OF c])
      have tk: "wf_tasks s1" using c by (intro full_parts(2)[of a]) (simp add: created_def)
      obtain sre t s2 where s2: "sre_task_create E msg0 (Some u) s1 = Some ((sre, t), s2)" "sets_thread a s1 s2" "sre = 0 \<longrightarrow> t \<noteq> None"
        using sre_task_create_okay[OF tf tk w(2,1), of msg0 u] by (auto simp: okay_iff split: if_splits)
      have c2: "created a x None (i, 0, 0, l) s (full a s2)" by (rule created_keep[OF c full_keep[OF keep_sets_thread[OF s2(2)]]])
      show ?thesis
      proof (cases "sre = 0")
        case False
        then show ?thesis
          using create_task_fail_gc_unopened[OF wf c2, of E h sre] lv Some s1 x u s2(1) by (simp add: create_session_def okay_bind is_err_ret_def)
      next
        case True
        then obtain tid where t: "t = Some tid" using s2(3) by auto
        have "okay (create_session E msg0 cmd cmd_type caller h s) (\<lambda>((r, cmd'), s'). r = TEE_SUCCESS \<and>
            (\<exists>P. created a x P (i, tid, caller, l) s s' \<and> (tid \<noteq> caller \<longrightarrow> P = ta2ta_parent cmd_type caller s)) \<and>
            (\<exists>v. services s a = Some v \<and> cmd' = set_session_context (v_index v) i cmd))"
          using finish_create[OF wf c2, of caller tid cmd_type cmd TEE_SUCCESS] lv Some s1 x u s2(1) True t ret by (simp add: create_session_def)
        then show ?thesis by (rule okay_conseq) (use lv Some in \<open>auto simp: opened_def\<close>)
      qed
    qed
  qed
qed

lemma is_session_valid_okay:
  assumes wf: "wf_gtask s" and a: "g_cur_service s = Some a" "services s a = Some v"
  shows "okay (is_session_valid E s) (\<lambda>(r, s'). (r = TEE_SUCCESS \<or> is_err_ret r) \<and> quiet s s')"
proof -
  have "is_system_service (Some a) s \<noteq> None"
    using find_task_by_uuid_total[OF wf_gtaskD(3)[OF wf], of "v_uuid v"] a(2) by (auto simp: is_system_service_def is_internal_task_by_uuid_def)
  then obtain b where "is_system_service (Some a) s = Some b" by blast
  then show ?thesis using a by (simp add: is_session_valid_def check_session_accessible_def ext_pair is_err_ret_def)
qed

text \<open>The entry call of the application failed: the count, the task, the session and perhaps the service go.\<close>

lemma open_session_fail_okay:
  assumes tf: "timer_fires E" and wf: "wf_gtask s" and c: "created a x P j s s1"
  shows "okay (do { (sre_ret, s) \<leftarrow> open_session_fail_gc E s1; s \<leftarrow> create_task_fail_gc E h sre_ret s; Some (r, s) })
    (\<lambda>(r', s'). r' = r \<and> unopened a s s')"
proof -
  have cur: "g_cur_service s1 = Some a" "g_cur_session s1 = Some x" and wf1: "wf_gtask s1" using c by (simp_all add: created_def)
  obtain w y where w: "services s1 a = Some w" "x \<in> set (v_session_head w)" and y: "sessions s1 x = Some y" using c by (auto simp: created_def)
  have "v_session_count w \<noteq> 0" using session_count_0[OF wf_servicesD[OF wf_gtaskD(1)[OF wf1] w(1)]] w(2) by auto
  then have pos: "v_session_count w > 0" by (simp add: word_neq_0_conv)
  define s2 where "s2 = s1\<lparr>services := (services s1)(a \<mapsto> w\<lparr>v_session_count := v_session_count w - 1\<rparr>)\<rparr>"
  have f2: "full a s2 = s1" using w(1) by (simp add: full_def s2_def fun_upd_idem)
  have "cur_service_ok s2" using cur by (simp add: cur_service_ok_def s2_def)
  then obtain sre s3 where s3: "sre_task_delete_ex E (s_task_id y) False (set_session_context_bit (v_index w) (s_session_id y)) s2 = Some (sre, s3)"
      "quiet s2 s3"
    using sre_task_delete_ex_okay[OF tf, of s2 "s_task_id y" False "set_session_context_bit (v_index w) (s_session_id y)"] by (auto simp: okay_iff)
  have c3: "created a x P j s (full a s3)" using created_keep[OF c[folded f2] full_keep[OF keep_quiet[OF s3(2)]]] .
  have "open_session_fail_gc E s1 = Some (sre, s3)"
    using cur w(1) y pos s3(1) by (simp add: open_session_fail_gc_def upd_service_def flip: s2_def) (simp add: s2_def)
  then show ?thesis using create_task_fail_gc_unopened[OF wf c3, of E h sre] by (simp add: okay_bind)
qed

lemma do_resc_release_work_okay:
  assumes "g_cur_service s = Some a" "services s a = Some v"
  shows "okay (do_resc_release_work E h s) (keep s)"
proof -
  obtain v' where d: "(if h then decr_ref_cnt (Some a) s else Some s) = Some (s\<lparr>services := (services s)(a \<mapsto> v')\<rparr>)" "svc_key v' = svc_key v"
    using assms(2) decr_ref_cnt_okay[OF assms(2)] that[of v] by (cases h) (auto simp: fun_upd_idem)
  have "keep s (s\<lparr>services := (services s)(a \<mapsto> v')\<rparr>)" by (rule keep_service[OF keep_refl assms(2) d(2)])
  then show ?thesis using assms d(1) by (cases h) (auto simp: do_resc_release_work_def check_and_release_ta_elf_def fun_upd_idem)
qed

text \<open>After the entry call.\<close>

lemma open_session_tail_okay:
  assumes tf: "timer_fires E" and wf: "wf_gtask s" and op: "opened cmd_type caller a x s s1"
    and info: "cmd_type = CMD_TYPE_SECURE_TO_SECURE \<longrightarrow> info \<noteq> None"
  shows "okay (if is_err_ret r then do {
        (sre_ret, s) \<leftarrow> open_session_fail_gc E s1;
        s \<leftarrow> create_task_fail_gc E h sre_ret s;
        Some ((r, c), s)
      } else do {
        handle \<leftarrow> (if cmd_type \<noteq> CMD_TYPE_SECURE_TO_SECURE then Some INVALID_SESSION_HANDLE else map_option ta2ta_handle info);
        s \<leftarrow> upd_session x (\<lambda>y. y\<lparr>s_ta2ta_handle := handle\<rparr>) s1;
        s \<leftarrow> do_resc_release_work E h s;
        Some ((r, c), s)
      }) (\<lambda>((r, cmd'), s'). if is_err_ret r then unopened a s s' else opened cmd_type caller a x s s')"
proof -
  obtain P i t l where c: "created a x P (i, t, caller, l) s s1" using op by (auto simp: opened_def)
  show ?thesis
  proof (cases "is_err_ret r")
    case True
    then show ?thesis using okay_conseq[OF open_session_fail_okay[OF tf wf c, of h "(r, c)"]] by auto
  next
    case False
    obtain y w where y: "sessions s1 x = Some y" and w: "services s1 a = Some w" "g_cur_service s1 = Some a" using c by (auto simp: created_def)
    obtain handle where e: "(if cmd_type \<noteq> CMD_TYPE_SECURE_TO_SECURE then Some INVALID_SESSION_HANDLE else map_option ta2ta_handle info) = Some handle"
      using info by (cases "cmd_type = CMD_TYPE_SECURE_TO_SECURE") auto
    define s2 where "s2 = s1\<lparr>sessions := (sessions s1)(x \<mapsto> y\<lparr>s_ta2ta_handle := handle\<rparr>)\<rparr>"
    have k: "keep s1 s2" unfolding s2_def by (rule keep_session[OF keep_refl y]) (simp add: sess_key_def)
    have "okay (do_resc_release_work E h s2) (opened cmd_type caller a x s)"
      by (rule okay_conseq[OF do_resc_release_work_okay[of s2 a w]])
        (use w k in \<open>auto simp: s2_def intro: opened_keep[OF op] keep_trans\<close>)
    then show ?thesis using False e y by (simp add: okay_bind upd_session_def flip: s2_def)
  qed
qed

lemma find_task_in_history: "find_task_in (s\<lparr>history := h\<rparr>) t d as = find_task_in s t d as"
  by (induction as) (auto split: option.splits)

lemma opened_quiet:
  assumes "quiet s s1"
  shows "opened cmd_type caller a x s1 s' = opened cmd_type caller a x s s'" "unopened a s1 s' = unopened a s s'"
proof -
  obtain h where s1: "s1 = s\<lparr>history := h\<rparr>" using assms by (auto simp: quiet_def)
  have f: "find_task s1 t = find_task s t" for t by (simp add: s1 find_task_def do_find_task_def find_task_in_history)
  have "get_ta2ta_level cmd_type caller s1 = get_ta2ta_level cmd_type caller s" "ta2ta_parent cmd_type caller s1 = ta2ta_parent cmd_type caller s"
    by (simp_all add: get_ta2ta_level_def ta2ta_parent_def f) (simp add: s1)
  moreover have same: "sessions s1 = sessions s" "services s1 = services s" "g_service_head s1 = g_service_head s" by (simp_all add: s1)
  moreover have "created a x P j s1 s' = created a x P j s s'" for P j unfolding created_def least_free_def same ..
  ultimately show "opened cmd_type caller a x s1 s' = opened cmd_type caller a x s s'" by (simp add: opened_def)
  show "unopened a s1 s' = unopened a s s'" by (simp add: unopened_def s1)
qed

lemma open_session_okay:
  assumes tf: "timer_fires E" and wf: "wf_gtask s" and cur: "g_cur_service s = Some a" "g_cur_session s = None" and v: "services s a = Some v"
    and info: "cmd_type = CMD_TYPE_SECURE_TO_SECURE \<longrightarrow> info \<noteq> None"
  shows "okay (open_session E msg0 (Some c) cmd_type caller info s) (\<lambda>((r, cmd'), s').
    if is_err_ret r then unopened a s s' else \<exists>x. opened cmd_type caller a x s s')"
proof -
  let ?Q = "\<lambda>((r, cmd'), s'). if is_err_ret r then unopened a s s' else \<exists>x. opened cmd_type caller a x s s'"
  obtain h where h: "check_handle_ref_cnt E cmd_type info s = Some h" using cur(1) v info
    by (cases "cmd_type = CMD_TYPE_SECURE_TO_SECURE") (auto simp: check_handle_ref_cnt_def)
  obtain ret s1 where s1: "is_session_valid E s = Some (ret, s1)" "quiet s s1" "ret = TEE_SUCCESS \<or> is_err_ret ret"
    using is_session_valid_okay[OF wf cur(1) v, of E] by (auto simp: okay_iff)
  have q: "g_cur_service s1 = Some a" "g_cur_session s1 = None" "services s1 a = Some v" "wf_gtask s1"
    using cur v wf_gtask_keep[OF keep_quiet[OF s1(2)] wf] by (simp_all add: quietD[OF s1(2)])
  show ?thesis
  proof (cases "ret = TEE_SUCCESS")
    case False
    have "okay (release_srvc_gc E h SUCC_RET s1) (unopened a s)"
      by (rule okay_conseq[OF release_srvc_gc_okay[OF q(4,1,3)]]) (rule settled_unopened[OF s1(2) _ cur])
    then show ?thesis using False cur(1) info h s1 q(2) by (auto simp: open_session_def create_task_fail_gc_def okay_bind)
  next
    case True
    obtain r2 c2 s2 where s2: "create_session E msg0 c cmd_type caller h s1 = Some ((r2, c2), s2)"
        "if r2 = TEE_SUCCESS then \<exists>x. opened cmd_type caller a x s1 s2 else is_err_ret r2 \<and> unopened a s1 s2"
      using create_session_okay[OF tf q(4,1,2,3), of msg0 c cmd_type caller h] by (auto simp: okay_iff)
    note qs = opened_quiet[OF s1(2)]
    show ?thesis
    proof (cases "r2 = TEE_SUCCESS")
      case False
      then show ?thesis using s2 qs True cur(1) info h s1(1) by (auto simp: open_session_def)
    next
      case ok: True
      then obtain x where o: "opened cmd_type caller a x s s2" using s2(2) qs by auto
      then obtain P i t l where c: "created a x P (i, t, caller, l) s s2" by (auto simp: opened_def)
      obtain y w where y: "sessions s2 x = Some y" and w: "services s2 a = Some w" and cur2: "g_cur_session s2 = Some x" "g_cur_service s2 = Some a"
          and wf2: "wf_gtask s2" and cok: "cur_ok s2"
        using c by (auto simp: created_def cur_ok_def)
      define s3 where "s3 = s2\<lparr>sessions := (sessions s2)(x \<mapsto> y\<lparr>s_cmd_type := cmd_type, s_cmd_in := c2\<rparr>)\<rparr>"
      have k3: "keep s2 s3" unfolding s3_def by (rule keep_session[OF keep_refl y]) (simp add: sess_key_def)
      obtain r4 s4 where s4: "async_call_ta_entry E (Some c2) cmd_type CALL_TA_OPEN_SESSION s3 = Some (r4, s4)" "keep s3 s4"
        using async_call_ta_entry_keep[OF wf_gtask_keep[OF k3 wf2] cur_ok_keep[OF k3 cok]] by (fastforce simp: okay_iff)
      have k4: "keep s2 s4" by (rule keep_trans[OF k3 s4(2)])
      have e: "open_session E msg0 (Some c) cmd_type caller info s = (if is_err_ret r4 then do {
            (sre_ret, s) \<leftarrow> open_session_fail_gc E s4;
            s \<leftarrow> create_task_fail_gc E h sre_ret s;
            Some ((r4, Some c2), s)
          } else do {
            handle \<leftarrow> (if cmd_type \<noteq> CMD_TYPE_SECURE_TO_SECURE then Some INVALID_SESSION_HANDLE else map_option ta2ta_handle info);
            s \<leftarrow> upd_session x (\<lambda>y. y\<lparr>s_ta2ta_handle := handle\<rparr>) s4;
            s \<leftarrow> do_resc_release_work E h s;
            Some ((r4, Some c2), s)
          })"
        using cur(1) info h s1(1) True s2(1) ok cur2(1) y s4(1) by (auto simp: open_session_def upd_session_def simp flip: s3_def)
      show ?thesis
        unfolding e by (rule okay_conseq[OF open_session_tail_okay[OF tf wf opened_keep[OF o k4] info]]) (auto split: if_splits)
    qed
  qed
qed


section \<open>Opening keeps families\<close>

lemma unopened_placed:
  assumes "unopened a s s'"
  shows "placed s' b d z = placed s b d z"
proof (cases "b = a")
  case True
  obtain v where v: "services s a = Some v" "case services s' a of None \<Rightarrow> v_session_head v = [] \<and> g_cur_service s' = None
      | Some v' \<Rightarrow> v_session_head v' = v_session_head v \<and> v_is_service_dead v' = v_is_service_dead v \<and> g_cur_service s' = Some a"
    using assms unfolding unopened_def by blast
  then show ?thesis using True by (cases "services s' a") (auto simp: placed_def)
next
  case False
  then have "map_option svc_key (services s' b) = map_option svc_key (services s b)" using assms by (simp add: unopened_def)
  then show ?thesis by (cases "services s b"; cases "services s' b") (auto simp: placed_def svc_key_def)
qed

lemma created_placed:
  assumes c: "created a x P j s s'" and p: "placed s b d z"
  shows "placed s' b d z"
proof (cases "b = a")
  case True
  then show ?thesis using c p by (auto simp: created_def placed_def)
next
  case False
  then have "map_option svc_key (services s' b) = map_option svc_key (services s b)" using c by (simp add: created_def)
  then show ?thesis using p by (cases "services s b"; cases "services s' b") (auto simp: placed_def svc_key_def)
qed

text \<open>The relations of \<open>wf_family\<close> depend only on the numbers, the parents and the places of sessions.\<close>

lemma wf_family_cong:
  assumes "wf_family s" "\<And>z. map_option sess_ident (sessions s' z) = map_option sess_ident (sessions s z)"
    "parent (sessions s') = parent (sessions s)" "\<And>b z. placed s b False z \<Longrightarrow> placed s' b False z"
  shows "wf_family s'"
proof -
  have prev: "\<exists>y. sessions s z = Some y \<and> sess_ident y = sess_ident y'" if "sessions s' z = Some y'" for z y'
    using assms(2)[of z] that by (cases "sessions s z") auto
  have "(\<exists>b. placed s' b False z) \<and> (\<exists>y q. sessions s' z = Some y \<and> sessions s' p = Some q \<and>
      s_ta2ta_from_taskid y = s_task_id q \<and> s_ta2ta_level q = 0 \<and> s_ta2ta_level y = 1)" if p: "parent (sessions s') z = Some p" for z p
  proof -
    obtain b y q where "placed s b False z" and y: "sessions s z = Some y" "sessions s p = Some q" and l: "s_ta2ta_from_taskid y = s_task_id q"
        "s_ta2ta_level q = 0" "s_ta2ta_level y = 1"
      using p assms(3) by (auto elim: wf_family_parent[OF assms(1)])
    moreover obtain y' q' where "sessions s' z = Some y'" "sess_ident y' = sess_ident y" "sessions s' p = Some q'" "sess_ident q' = sess_ident q"
      using map_option_SomeD[OF assms(2) y(1)] map_option_SomeD[OF assms(2) y(2)] by blast
    ultimately show ?thesis using assms(4) by (auto simp: sess_ident_iff)
  qed
  moreover have "parent (sessions s') z = Some p"
    if y': "sessions s' z = Some y'" "sessions s' p = Some q'" "s_ta2ta_from_taskid y' = s_task_id q'" for z y' p q'
    using prev[OF y'(1)] prev[OF y'(2)] wf_family_from[OF assms(1)] y'(3) assms(3) by (auto simp: sess_ident_iff)
  ultimately show ?thesis unfolding wf_family_def by blast
qed

definition task_ids_distinct :: "gtask \<Rightarrow> bool" where
  "task_ids_distinct s \<longleftrightarrow> (\<forall>x y z w. sessions s x = Some y \<longrightarrow> sessions s z = Some w \<longrightarrow> s_task_id y = s_task_id w \<longrightarrow> x = z)"

lemma task_ids_distinct_cong:
  assumes "task_ids_distinct s" "\<And>z. map_option sess_ident (sessions s' z) = map_option sess_ident (sessions s z)"
  shows "task_ids_distinct s'"
proof -
  have "\<exists>y. sessions s z = Some y \<and> s_task_id y = s_task_id y'" if "sessions s' z = Some y'" for z y'
    using assms(2)[of z] that by (cases "sessions s z") (auto simp: sess_ident_iff)
  then show ?thesis using assms(1) unfolding task_ids_distinct_def by metis
qed

text \<open>A task number that no session has or was opened from.\<close>

definition fresh_task :: "gtask \<Rightarrow> u32 \<Rightarrow> bool" where
  "fresh_task s t \<longleftrightarrow> (\<forall>z y. sessions s z = Some y \<longrightarrow> s_task_id y \<noteq> t \<and> s_ta2ta_from_taskid y \<noteq> t)"

lemma ta2ta_caller:
  assumes wf: "wf_gtask s" and l: "get_ta2ta_level cmd_type caller s = Some (Some l)" and ct: "cmd_type \<noteq> CMD_TYPE_NS_TO_SECURE"
  obtains p q where "ta2ta_parent cmd_type caller s = Some p" "sessions s p = Some q" "s_task_id q = caller" "s_ta2ta_level q = 0" "l = 1"
  using wf_gtaskD(1)[OF wf]
proof (cases s rule: find_task_cases[where t = caller])
  case none
  then show ?thesis using l ct by (simp add: get_ta2ta_level_def)
next
  case (some a p v q)
  have "s_ta2ta_level q < 1" "l = s_ta2ta_level q + 1" using some(1,5) l ct by (auto simp: get_ta2ta_level_def not_le split: if_splits)
  then show ?thesis using that[of p q] some(1,5,6) ct by (simp add: ta2ta_parent_def word_less_1)
qed

lemma created_session:
  assumes c: "created a x P j s s'" and z: "z \<noteq> x"
  shows "sessions s z = Some y \<Longrightarrow> \<exists>y'. sessions s' z = Some y' \<and> sess_ident y' = sess_ident y"
    "sessions s' z = Some y' \<Longrightarrow> \<exists>y. sessions s z = Some y \<and> sess_ident y = sess_ident y'"
  using c z by (cases "sessions s z"; cases "sessions s' z"; auto simp: created_def dest: spec[of _ z])+

lemma created_family:
  assumes wf: "wf_gtask s" "wf_family s" "task_ids_distinct s" and c: "created a x P (i, t, caller, l) s s'"
    and P: "case P of None \<Rightarrow> fresh_task s caller
      | Some p \<Rightarrow> placed s' a False x \<and> l = 1 \<and> (\<exists>q. sessions s p = Some q \<and> s_task_id q = caller \<and> s_ta2ta_level q = 0)"
    and new: "fresh_task s t" "t \<noteq> caller"
  shows "wf_family s'" "task_ids_distinct s'"
proof -
  have x: "sessions s x = None" using c by (simp add: created_def)
  obtain y where y: "sessions s' x = Some y" "sess_ident y = (i, t, caller, l)" using c by (auto simp: created_def)
  have pa: "parent (sessions s') = (parent (sessions s))(x := P)" using c by (simp add: created_def)
  have old: "\<exists>w. sessions s z = Some w \<and> sess_ident w = sess_ident w'" if "sessions s' z = Some w'" "z \<noteq> x" for z w'
    using created_session(2)[OF c that(2,1)] .
  have 1: "(\<exists>b. placed s' b False z) \<and> (\<exists>y q. sessions s' z = Some y \<and> sessions s' p = Some q \<and>
      s_ta2ta_from_taskid y = s_task_id q \<and> s_ta2ta_level q = 0 \<and> s_ta2ta_level y = 1)" if p: "parent (sessions s') z = Some p" for z p
  proof (cases "z = x")
    case True
    then have "P = Some p" using p pa by simp
    then obtain q where q: "placed s' a False x" "l = 1" "sessions s p = Some q" "s_task_id q = caller" "s_ta2ta_level q = 0" using P by auto
    then have "p \<noteq> x" using x by auto
    then obtain q' where "sessions s' p = Some q'" "sess_ident q' = sess_ident q" using created_session(1)[OF c _ q(3)] by blast
    then show ?thesis using True y q by (auto simp: sess_ident_iff sess_ident_def)
  next
    case False
    then have "parent (sessions s) z = Some p" using p pa by simp
    then obtain b w q where w: "placed s b False z" "sessions s z = Some w" "sessions s p = Some q" "s_ta2ta_from_taskid w = s_task_id q"
        "s_ta2ta_level q = 0" "s_ta2ta_level w = 1"
      by (rule wf_family_parent[OF wf(2)])
    then have "p \<noteq> x" using x by auto
    then show ?thesis
      using created_session(1)[OF c False w(2)] created_session(1)[OF c _ w(3)] created_placed[OF c w(1)] w by (auto simp: sess_ident_iff)
  qed
  have 2: "parent (sessions s') z = Some p"
    if w: "sessions s' z = Some w'" "sessions s' p = Some q'" "s_ta2ta_from_taskid w' = s_task_id q'" for z w' p q'
  proof (cases "p = x")
    case True
    then have "s_task_id q' = t" using w(2) y by (simp add: sess_ident_def)
    then show ?thesis using w y new old[OF w(1)] True by (cases "z = x") (auto simp: fresh_task_def sess_ident_iff sess_ident_def)
  next
    case False
    obtain q where q: "sessions s p = Some q" "sess_ident q = sess_ident q'" using old[OF w(2) False] by blast
    show ?thesis
    proof (cases "z = x")
      case True
      then have "s_task_id q = caller" using w y q by (auto simp: sess_ident_def)
      then have "P = Some p" using P q(1) wf(3) by (cases P) (auto simp: fresh_task_def task_ids_distinct_def)
      then show ?thesis using True pa by simp
    next
      case zx: False
      then show ?thesis using old[OF w(1) zx] q wf_family_from[OF wf(2) _ q(1)] w(3) pa by (auto simp: sess_ident_iff)
    qed
  qed
  show "wf_family s'" unfolding wf_family_def using 1 2 by blast
  have "u = z" if w: "sessions s' u = Some w'" "sessions s' z = Some q'" "s_task_id w' = s_task_id q'" for u z w' q'
    using old[OF w(1)] old[OF w(2)] w y new(1) wf(3)
    by (cases "u = x"; cases "z = x") (fastforce simp: fresh_task_def task_ids_distinct_def sess_ident_iff sess_ident_def)+
  then show "task_ids_distinct s'" unfolding task_ids_distinct_def by blast
qed

lemma open_keeps_family:
  assumes wf: "timer_fires E" "wf_gtask s" "wf_family s" "task_ids_distinct s"
    and cur: "g_cur_service s = Some a" "g_cur_session s = None" "services s a = Some v" "\<not> v_is_service_dead v"
    and info: "cmd_type = CMD_TYPE_SECURE_TO_SECURE \<longrightarrow> info \<noteq> None"
    and res: "open_session E msg0 (Some c) cmd_type caller info s = Some ((r, c'), s')"
    and ns: "cmd_type = CMD_TYPE_NS_TO_SECURE \<longrightarrow> fresh_task s caller"
    and new: "\<forall>x y. g_cur_session s' = Some x \<and> sessions s' x = Some y \<longrightarrow> fresh_task s (s_task_id y) \<and> s_task_id y \<noteq> caller"
  shows "wf_family s' \<and> task_ids_distinct s'"
proof (cases "is_err_ret r")
  case True
  then have u: "unopened a s s'" using open_session_okay[OF wf(1,2) cur(1-3) info, of msg0 c caller] res by simp
  then have ids: "map_option sess_ident (sessions s' z) = map_option sess_ident (sessions s z)" for z by (simp add: unopened_def)
  have "wf_family s'" by (rule wf_family_cong[OF wf(3) ids]) (use u unopened_placed[OF u] in \<open>simp_all add: unopened_def\<close>)
  then show ?thesis using task_ids_distinct_cong[OF wf(4) ids] by simp
next
  case False
  then obtain x where "opened cmd_type caller a x s s'" using open_session_okay[OF wf(1,2) cur(1-3) info, of msg0 c caller] res by auto
  then obtain P i t l where cr: "created a x P (i, t, caller, l) s s'" and lv: "get_ta2ta_level cmd_type caller s = Some (Some l)"
      and P: "t \<noteq> caller \<longrightarrow> P = ta2ta_parent cmd_type caller s"
    by (auto simp: opened_def)
  obtain y where y: "g_cur_session s' = Some x \<and> sessions s' x = Some y" "sess_ident y = (i, t, caller, l)" using cr unfolding created_def by blast
  then have t: "fresh_task s t" "t \<noteq> caller" using new[rule_format, OF y(1)] by (simp_all add: sess_ident_def)
  have pl: "placed s' a False x" using cr cur(3,4) by (auto simp: created_def placed_def)
  have "case P of None \<Rightarrow> fresh_task s caller
      | Some p \<Rightarrow> placed s' a False x \<and> l = 1 \<and> (\<exists>q. sessions s p = Some q \<and> s_task_id q = caller \<and> s_ta2ta_level q = 0)"
  proof (cases "cmd_type = CMD_TYPE_NS_TO_SECURE")
    case True
    then show ?thesis using P t(2) ns by (simp add: ta2ta_parent_def)
  next
    case ct: False
    then show ?thesis using P t(2) pl by (rule_tac ta2ta_caller[OF wf(2) lv ct]) simp
  qed
  from created_family[OF wf(2-4) cr this t] show ?thesis by simp
qed


section \<open>Properties\<close>

text \<open>
  C25: Opening a session on the current service ends and keeps the global task well-formed.  When it does not report an error, exactly one
  session was added, which is the current one, at the end of the list of the service and with the least free number.  When it
  reports an error, all sessions are as before, no session is current, and the service is released only if it has no sessions.
\<close>

theorem open_session_correct:
  assumes "timer_fires E" "wf_gtask s" "g_cur_service s = Some a" "g_cur_session s = None" "services s a = Some v"
    "cmd_type = CMD_TYPE_SECURE_TO_SECURE \<longrightarrow> info \<noteq> None"
  shows "\<exists>r c' s'. open_session E msg0 (Some c) cmd_type caller info s = Some ((r, c'), s') \<and> wf_gtask s' \<and>
    (if is_err_ret r then unopened a s s'
     else \<exists>x y. sessions s x = None \<and> g_cur_service s' = Some a \<and> g_cur_session s' = Some x \<and> sessions s' x = Some y \<and>
       least_free s a (unat (s_session_id y)) \<and> s_ta2ta_from_taskid y = caller \<and>
       (\<exists>v'. services s' a = Some v' \<and> v_session_head v' = v_session_head v @ [x]) \<and>
       (\<forall>z. z \<noteq> x \<longrightarrow> map_option sess_ident (sessions s' z) = map_option sess_ident (sessions s z)))"
proof -
  obtain r c' s' where e: "open_session E msg0 (Some c) cmd_type caller info s = Some ((r, c'), s')"
      and o: "if is_err_ret r then unopened a s s' else \<exists>x. opened cmd_type caller a x s s'"
    using open_session_okay[OF assms, of msg0 c caller] by (auto simp: okay_iff)
  show ?thesis
  proof (cases "is_err_ret r")
    case True
    then show ?thesis using e o by (auto simp: unopened_def)
  next
    case False
    then obtain x P i t l where "created a x P (i, t, caller, l) s s'" using o by (auto simp: opened_def)
    then show ?thesis using e False assms(5) by (auto simp: created_def sess_ident_def)
  qed
qed

text \<open>A service whose process runs; the system acknowledges the first request and then the timer fires.\<close>

definition lucky_env :: env where
  "lucky_env = calm_env\<lparr>env_val := \<lambda>_ _. 42, env_recv := \<lambda>h. case h of Ipc_msg_q_recv # _ \<Rightarrow> (0, 3, 9) | _ \<Rightarrow> (0, 0, 42)\<rparr>"

definition demo_ready :: gtask where
  "demo_ready = demo_gtask\<lparr>services := (services demo_gtask)(0 \<mapsto> (the (services demo_gtask 0))\<lparr>v_service_thread := 42\<rparr>), g_cur_service := Some 0,
    g_cur_session := None\<rparr>"

lemma timer_fires_lucky: "timer_fires lucky_env"
  unfolding timer_fires_def by (rule allI, rule exI[of _ 1]) (simp add: lucky_env_def calm_env_def)

lemma demo_ready_open:
  "map_option (\<lambda>((r, c), s). (r, g_cur_session s, map_option s_session_id (sessions s 2), map_option s_task_id (sessions s 2)))
    (open_session lucky_env 0 (Some zero_cmd) CMD_TYPE_NS_TO_SECURE 3 None demo_ready) = Some (TEE_SUCCESS, Some 2, Some 1, Some 42)"
  by code_simp

lemma wf_demo_ready: "wf_gtask demo_ready" "wf_family demo_ready" "task_ids_distinct demo_ready"
proof -
  obtain v where v: "services demo_gtask = [0 \<mapsto> v]" "sessions demo_gtask = (\<lambda>_. None)" "agents demo_gtask = (\<lambda>_. None)"
      "g_agent_head demo_gtask = []" "g_agent_cnt demo_gtask = 0"
    using demo_gtask_service by auto
  have "wf_services (demo_gtask\<lparr>services := (services demo_gtask)(0 \<mapsto> v\<lparr>v_service_thread := 42\<rparr>)\<rparr>)"
    by (rule keep_parts(1)[OF keep_service[OF keep_refl] wf_demo_gtask, of _ v]) (use v in \<open>simp_all add: svc_key_def v_uuid_def\<close>)
  then have "wf_services demo_ready" using v(1) by (simp add: wf_services_def demo_ready_def)
  moreover have "wf_agents demo_ready"
    using v(2-5) by (simp add: demo_ready_def wf_agents_def wf_locks_def wf_agent_list_def wf_lock_views_def holder_def waiters_def locked_by_def waits_for_def)
  moreover have "wf_tasks demo_ready" using wf_tasks_demo_gtask by (simp add: demo_ready_def wf_tasks_def)
  moreover have "wf_links (sessions demo_ready)" using v(2) by (simp add: demo_ready_def wf_links_def parent_def children_def)
  ultimately show "wf_gtask demo_ready" by (simp add: wf_gtask_def)
  show "wf_family demo_ready" "task_ids_distinct demo_ready" using v(2) by (simp_all add: demo_ready_def wf_family_def task_ids_distinct_def parent_def)
qed

lemma demo_ready_cur: "g_cur_service demo_ready = Some 0" "g_cur_session demo_ready = None" "sessions demo_ready = (\<lambda>_. None)"
  "\<exists>v. services demo_ready 0 = Some v \<and> \<not> v_is_service_dead v"
  using demo_gtask_service by (auto simp: demo_ready_def)

theorem open_session_correct_witness:
  "\<exists>c' s'. open_session lucky_env 0 (Some zero_cmd) CMD_TYPE_NS_TO_SECURE 3 None demo_ready = Some ((TEE_SUCCESS, c'), s') \<and> wf_gtask s' \<and>
    g_cur_session s' = Some 2 \<and> sessions s' 2 \<noteq> None"
proof -
  obtain v where v: "services demo_ready 0 = Some v" using demo_ready_cur(4) by blast
  obtain r c' s' where "open_session lucky_env 0 (Some zero_cmd) CMD_TYPE_NS_TO_SECURE 3 None demo_ready = Some ((r, c'), s')" "wf_gtask s'"
    using open_session_correct[OF timer_fires_lucky wf_demo_ready(1) demo_ready_cur(1,2) v, of CMD_TYPE_NS_TO_SECURE None 0 zero_cmd 3] by auto
  then show ?thesis using demo_ready_open by auto
qed






end
