(* ===== verification/C_Bytes.thy ===== *)
theory C_Bytes
  imports Tee_Defs
begin

text \<open>
  The parts of the C library that the parsers of configuration data use, on byte arrays.  An object in
  memory is the list of its bytes and a pointer into it is an offset; reading a byte outside the object
  is \<open>None\<close>.  Strings are modelled by their bytes before the first NUL, \<open>strtoull\<close> follows the C
  standard (white space, sign, optional prefix \<open>0x\<close>, longest digit sequence, range error), and \<open>strtok\<close> is
  one step of \<open>strtok_r\<close> with one separator.
\<close>

section \<open>Reading memory\<close>

definition rd :: "u8 list \<Rightarrow> nat \<Rightarrow> u8 option" where
  "rd m i = (if i < length m then Some (m ! i) else None)"

definition rd_bytes :: "u8 list \<Rightarrow> nat \<Rightarrow> nat \<Rightarrow> u8 list option" where
  "rd_bytes m off n = (if off + n \<le> length m then Some (take n (drop off m)) else None)"

lemma okay_rd [simp]: "okay (rd m i) Q \<longleftrightarrow> i < length m \<and> Q (m ! i)"
  by (simp add: rd_def)

lemma okay_rd_bytes [simp]: "okay (rd_bytes m off n) Q \<longleftrightarrow> off + n \<le> length m \<and> Q (take n (drop off m))"
  by (simp add: rd_bytes_def)

lemma rd_append [simp]: "rd (xs @ ys) (length xs + i) = rd ys i"
  by (simp add: rd_def nth_append)

lemma rd_bytes_append: "length bs = n \<Longrightarrow> off = length xs \<Longrightarrow> rd_bytes (xs @ bs @ ys) off n = Some bs"
  by (simp add: rd_bytes_def)

text \<open>\<open>strlen\<close> of the string that starts at an offset: undefined when the object has no NUL from there on.\<close>

definition c_strlen :: "u8 list \<Rightarrow> nat \<Rightarrow> nat option" where
  "c_strlen m off =
    (let n = length (takeWhile (\<lambda>b. b \<noteq> 0) (drop off m)) in if off + n < length m then Some n else None)"

definition c_str :: "u8 list \<Rightarrow> u8 list" where
  "c_str bs = takeWhile (\<lambda>b. b \<noteq> 0) bs"

lemma c_str_append_0: "0 \<notin> set bs \<Longrightarrow> c_str (bs @ 0 # xs) = bs"
  by (induction bs) (auto simp: c_str_def)

lemma c_str_id: "0 \<notin> set bs \<Longrightarrow> c_str bs = bs"
  by (induction bs) (auto simp: c_str_def)


section \<open>Numbers in strings\<close>

definition is_space :: "u8 \<Rightarrow> bool" where
  "is_space c \<longleftrightarrow> c = 32 \<or> (9 \<le> c \<and> c \<le> 13)"

definition digit_val :: "u8 \<Rightarrow> nat option" where
  "digit_val c =
    (if 48 \<le> c \<and> c \<le> 57 then Some (unat c - 48)
     else if 97 \<le> c \<and> c \<le> 102 then Some (unat c - 87)
     else if 65 \<le> c \<and> c \<le> 70 then Some (unat c - 55)
     else None)"

definition is_digit :: "nat \<Rightarrow> u8 \<Rightarrow> bool" where
  "is_digit base c = (case digit_val c of None \<Rightarrow> False | Some v \<Rightarrow> v < base)"

definition digits_val :: "nat \<Rightarrow> u8 list \<Rightarrow> nat" where
  "digits_val base ds = foldl (\<lambda>v c. v * base + (case digit_val c of None \<Rightarrow> 0 | Some d \<Rightarrow> d)) 0 ds"

definition strip_sign :: "u8 list \<Rightarrow> bool \<times> u8 list" where
  "strip_sign cs = (case cs of [] \<Rightarrow> (False, [])
    | c # cs' \<Rightarrow> if c = 45 then (True, cs') else if c = 43 then (False, cs') else (False, cs))"

definition strip_prefix :: "nat \<Rightarrow> u8 list \<Rightarrow> u8 list" where
  "strip_prefix base cs = (case cs of a # x # d # ds \<Rightarrow>
      if base = 16 \<and> a = 48 \<and> (x = 120 \<or> x = 88) \<and> is_digit 16 d then d # ds else cs
    | _ \<Rightarrow> cs)"

text \<open>\<open>strtoull\<close> on a string: the value, how many characters were consumed, and whether it set \<open>errno\<close>.\<close>

definition strtoull :: "u8 list \<Rightarrow> nat \<Rightarrow> u64 \<times> nat \<times> bool" where
  "strtoull cs base =
    (let (neg, cs') = strip_sign (dropWhile is_space cs);
         cs'' = strip_prefix base cs';
         ds = takeWhile (is_digit base) cs'';
         v = digits_val base ds
     in if ds = [] then (0, 0, False)
        else if v \<ge> 2 ^ 64 then (- 1, length cs - length cs'' + length ds, True)
        else (if neg then - of_nat v else of_nat v, length cs - length cs'' + length ds, False))"

text \<open>A number written with a fixed count of digits, as the tools that produce the data write it.\<close>

definition dig :: "nat \<Rightarrow> u8" where
  "dig n = of_nat (if n < 10 then 48 + n else 87 + n)"

primrec digits :: "nat \<Rightarrow> nat \<Rightarrow> nat \<Rightarrow> u8 list" where
  "digits base 0 n = []"
| "digits base (Suc k) n = digits base k (n div base) @ [dig (n mod base)]"

lemma length_digits [simp]: "length (digits base k n) = k"
  by (induction k arbitrary: n) simp_all

lemma digits_eq_Nil [simp]: "digits base k n = [] \<longleftrightarrow> k = 0"
  using length_digits[of base k n] by (metis length_0_conv)

lemma unat_dig: "n < 16 \<Longrightarrow> unat (dig n) = (if n < 10 then 48 + n else 87 + n)"
  by (simp add: dig_def unsigned_of_nat take_bit_nat_eq_self)

lemma digit_val_dig [simp]: "n < 16 \<Longrightarrow> digit_val (dig n) = Some n"
  by (simp add: digit_val_def word_le_nat_alt unat_dig)

lemma dig_facts:
  assumes "n < 16"
  shows "dig n \<noteq> 0" "dig n \<noteq> 45" "dig n \<noteq> 43" "dig n \<noteq> 120" "dig n \<noteq> 88" "\<not> is_space (dig n)" "dig n \<noteq> 44" "dig n \<noteq> 59"
    "dig n \<noteq> 124"
  using assms by (simp_all add: is_space_def word_unat_eq_iff word_le_nat_alt unat_dig)

lemma set_digits: "0 < base \<Longrightarrow> c \<in> set (digits base k n) \<Longrightarrow> \<exists>d<base. c = dig d"
  by (induction k arbitrary: n) (auto intro: mod_less_divisor)

lemma digits_val_snoc: "digits_val base (ds @ [c]) = digits_val base ds * base + (case digit_val c of None \<Rightarrow> 0 | Some d \<Rightarrow> d)"
  by (simp add: digits_val_def)

lemma digits_val_digits:
  assumes "0 < base" "base \<le> 16"
  shows "digits_val base (digits base k n) = n mod base ^ k"
proof (induction k arbitrary: n)
  case (Suc k)
  have "n mod base < 16" using assms mod_less_divisor[of base n] by linarith
  then show ?case
    using Suc[of "n div base"] mod_mult2_eq[of n base "base ^ k"]
    by (simp add: digits_val_snoc mult.commute)
qed (simp add: digits_val_def)

lemma digits_are_digits:
  assumes "0 < base" "base \<le> 16" "c \<in> set (digits base k n)"
  shows "is_digit base c" "c \<noteq> 0" "\<not> is_space c" "c \<noteq> 45" "c \<noteq> 43" "c \<noteq> 120" "c \<noteq> 88" "c \<noteq> 44" "c \<noteq> 59" "c \<noteq> 124"
proof -
  obtain d where d: "d < base" "c = dig d" using set_digits[OF assms(1,3)] by auto
  then have "d < 16" using assms(2) by simp
  then show "is_digit base c" "c \<noteq> 0" "\<not> is_space c" "c \<noteq> 45" "c \<noteq> 43" "c \<noteq> 120" "c \<noteq> 88" "c \<noteq> 44" "c \<noteq> 59" "c \<noteq> 124"
    using d dig_facts[of d] by (simp_all add: is_digit_def)
qed

lemma strip_sign_id: "\<forall>c \<in> set cs. c \<noteq> 45 \<and> c \<noteq> 43 \<Longrightarrow> strip_sign cs = (False, cs)"
  by (cases cs) (auto simp: strip_sign_def)

lemma strip_prefix_id: "\<forall>c \<in> set cs. c \<noteq> 120 \<and> c \<noteq> 88 \<Longrightarrow> strip_prefix base cs = cs"
  by (auto simp: strip_prefix_def split: list.splits)

lemma strtoull_digits:
  assumes b: "0 < base" "base \<le> 16" and k: "0 < k" and n: "n < base ^ k" "n < 2 ^ 64"
  shows "strtoull (digits base k n) base = (of_nat n, k, False)"
proof -
  let ?ds = "digits base k n"
  note f = digits_are_digits[OF b]
  have 1: "dropWhile is_space ?ds = ?ds" using f(3)[of _ k n] by (cases ?ds) auto
  have 2: "strip_sign ?ds = (False, ?ds)" using f by (intro strip_sign_id) auto
  have 3: "strip_prefix base ?ds = ?ds" using f by (intro strip_prefix_id) auto
  have 4: "takeWhile (is_digit base) ?ds = ?ds" using f(1) by (auto simp: takeWhile_eq_all_conv)
  have "?ds \<noteq> []" using k length_digits[of base k n] by (metis less_numeral_extra(3) list.size(3))
  then show ?thesis
    using n by (simp add: strtoull_def 1 2 3 4 digits_val_digits[OF b])
qed

lemma strtoull_0x_digits:
  assumes k: "0 < k" and n: "n < 16 ^ k" "n < 2 ^ 64"
  shows "strtoull (48 # 120 # digits 16 k n) 16 = (of_nat n, k + 2, False)"
proof -
  let ?ds = "digits 16 k n"
  note f = digits_are_digits[of 16, simplified]
  have ne: "?ds \<noteq> []" using k length_digits[of 16 k n] by (metis less_numeral_extra(3) list.size(3))
  then obtain d ds where ds: "?ds = d # ds" by (cases ?ds) auto
  have "is_digit 16 d" using f(1)[of d k n] ds by simp
  then have 1: "strip_prefix 16 (48 # 120 # ?ds) = ?ds" by (simp add: strip_prefix_def ds)
  have 2: "dropWhile is_space (48 # 120 # ?ds) = 48 # 120 # ?ds" by (simp add: is_space_def)
  have 3: "strip_sign (48 # 120 # ?ds) = (False, 48 # 120 # ?ds)" by (simp add: strip_sign_def)
  have 4: "takeWhile (is_digit 16) ?ds = ?ds" using f(1) by (auto simp: takeWhile_eq_all_conv)
  show ?thesis
    unfolding strtoull_def 2 3 using n k by (simp add: 1 4 ne digits_val_digits Let_def)
qed


section \<open>Tokens\<close>

definition strtok :: "u8 \<Rightarrow> u8 list \<Rightarrow> (u8 list \<times> u8 list) option" where
  "strtok d cs =
    (let cs' = dropWhile (\<lambda>c. c = d) cs
     in if cs' = [] then None else Some (takeWhile (\<lambda>c. c \<noteq> d) cs', drop 1 (dropWhile (\<lambda>c. c \<noteq> d) cs')))"

lemma strtok_shorter: "strtok d cs = Some (t, rest) \<Longrightarrow> length rest < length cs"
proof -
  assume a: "strtok d cs = Some (t, rest)"
  let ?cs = "dropWhile (\<lambda>c. c = d) cs"
  have ne: "?cs \<noteq> []" and r: "rest = drop 1 (dropWhile (\<lambda>c. c \<noteq> d) ?cs)"
    using a by (auto simp: strtok_def Let_def split: if_splits)
  have "length (dropWhile (\<lambda>c. c \<noteq> d) ?cs) \<le> length ?cs" by (rule length_dropWhile_le)
  moreover have "length ?cs \<le> length cs" by (rule length_dropWhile_le)
  moreover have "0 < length ?cs" using ne by simp
  moreover have "length rest = length (dropWhile (\<lambda>c. c \<noteq> d) ?cs) - 1" using r by (simp only: length_drop)
  ultimately show ?thesis by linarith
qed

lemma strtok_last: "t \<noteq> [] \<Longrightarrow> d \<notin> set t \<Longrightarrow> strtok d t = Some (t, [])"
proof -
  assume t: "t \<noteq> []" "d \<notin> set t"
  then have 1: "dropWhile (\<lambda>c. c = d) t = t" by (cases t) auto
  have 2: "takeWhile (\<lambda>c. c \<noteq> d) t = t" "dropWhile (\<lambda>c. c \<noteq> d) t = []" using t(2) by (auto simp: takeWhile_eq_all_conv dropWhile_eq_Nil_conv)
  show ?thesis using t(1) by (simp only: strtok_def 1 2 Let_def drop_Nil if_False)
qed

lemma strtok_next: "t \<noteq> [] \<Longrightarrow> d \<notin> set t \<Longrightarrow> strtok d (t @ d # rest) = Some (t, rest)"
proof -
  assume t: "t \<noteq> []" "d \<notin> set t"
  then have 1: "dropWhile (\<lambda>c. c = d) (t @ d # rest) = t @ d # rest" by (cases t) auto
  have 2: "takeWhile (\<lambda>c. c \<noteq> d) (t @ d # rest) = t" "dropWhile (\<lambda>c. c \<noteq> d) (t @ d # rest) = d # rest"
    using t(2) by (induction t) auto
  show ?thesis using t(1) by (simp add: strtok_def 1 2 Let_def)
qed


section \<open>Segments\<close>

text \<open>\<open>seg xs i ys\<close>: the list \<open>ys\<close> stands in \<open>xs\<close> from position \<open>i\<close> on.\<close>

definition seg :: "'a list \<Rightarrow> nat \<Rightarrow> 'a list \<Rightarrow> bool" where
  "seg xs i ys \<longleftrightarrow> take (length ys) (drop i xs) = ys"

lemma seg_Nil [simp]: "seg xs i []"
  by (simp add: seg_def)

lemma seg_Cons: "seg xs i (y # ys) \<longleftrightarrow> i < length xs \<and> xs ! i = y \<and> seg xs (Suc i) ys"
proof (cases "i < length xs")
  case True
  then show ?thesis by (simp add: seg_def Cons_nth_drop_Suc[symmetric])
qed (simp add: seg_def)

lemma seg_append: "seg xs i (ys @ zs) \<longleftrightarrow> seg xs i ys \<and> seg xs (i + length ys) zs"
  by (induction ys arbitrary: i) (auto simp: seg_Cons)

lemma seg_self: "seg (pre @ xs @ post) (length pre) xs"
  by (simp add: seg_def)

lemma seg_start: "seg (xs @ post) 0 xs"
  by (simp add: seg_def)

lemma seg_le: "seg m a bs \<Longrightarrow> bs \<noteq> [] \<Longrightarrow> a + length bs \<le> length m"
proof -
  assume s: "seg m a bs" and ne: "bs \<noteq> []"
  have "length bs = min (length bs) (length m - a)"
    using s unfolding seg_def by (metis length_drop length_take min.commute)
  moreover have "0 < length bs" using ne by simp
  ultimately show "a + length bs \<le> length m" by linarith
qed

lemma seg_rd_bytes: "seg m a bs \<Longrightarrow> bs \<noteq> [] \<Longrightarrow> rd_bytes m a (length bs) = Some bs"
  using seg_le[of m a bs] by (simp add: rd_bytes_def seg_def)

lemma seg_rd: "seg m a (b # bs) \<Longrightarrow> rd m a = Some b"
  by (simp add: seg_Cons rd_def)

lemma seg_appendI: "seg m a bs \<Longrightarrow> seg (m @ xs) a bs"
  by (induction bs arbitrary: a) (auto simp: seg_Cons nth_append)


section \<open>UUIDs as text\<close>

text \<open>The text form of a UUID, as \<open>%08x-%04x-%04x-%02x%02x-%02x%02x%02x%02x%02x%02x\<close> prints it.\<close>

definition wf_uuid :: "TEE_UUID \<Rightarrow> bool" where
  "wf_uuid u \<longleftrightarrow> length (clockSeqAndNode u) = 8"

definition uuid_str :: "TEE_UUID \<Rightarrow> u8 list" where
  "uuid_str u = (let d = (\<lambda>i. digits 16 2 (unat (clockSeqAndNode u ! i))) in
    digits 16 8 (unat (timeLow u)) @ [45] @ digits 16 4 (unat (timeMid u)) @ [45] @ digits 16 4 (unat (timeHiAndVersion u)) @
    [45] @ d 0 @ d 1 @ [45] @ d 2 @ d 3 @ d 4 @ d 5 @ d 6 @ d 7)"

lemma length_uuid_str [simp]: "length (uuid_str u) = 36"
  by (simp add: uuid_str_def Let_def)

lemma uuid_str_not_Nil [simp]: "uuid_str u \<noteq> []"
  using length_uuid_str[of u] by (metis list.size(3) zero_neq_numeral)

lemma uuid_str_not_0: "0 \<notin> set (uuid_str u)"
proof -
  have "0 \<notin> set (digits 16 k n)" for k n
    using digits_are_digits(2)[of 16 0 k n] by auto
  then show ?thesis by (simp add: uuid_str_def Let_def)
qed

text \<open>The places of the numbers in the text.\<close>

lemma seg_uuid_str:
  assumes "seg m a (uuid_str u)"
  shows "seg m a (digits 16 8 (unat (timeLow u)))" "seg m (a + 8) [45]"
    "seg m (a + 9) (digits 16 4 (unat (timeMid u)))" "seg m (a + 13) [45]"
    "seg m (a + 14) (digits 16 4 (unat (timeHiAndVersion u)))" "seg m (a + 18) [45]"
    "seg m (a + 19) (digits 16 2 (unat (clockSeqAndNode u ! 0)))"
    "seg m (a + 21) (digits 16 2 (unat (clockSeqAndNode u ! 1)))" "seg m (a + 23) [45]"
    "seg m (a + 24) (digits 16 2 (unat (clockSeqAndNode u ! 2)))"
    "seg m (a + 26) (digits 16 2 (unat (clockSeqAndNode u ! 3)))"
    "seg m (a + 28) (digits 16 2 (unat (clockSeqAndNode u ! 4)))"
    "seg m (a + 30) (digits 16 2 (unat (clockSeqAndNode u ! 5)))"
    "seg m (a + 32) (digits 16 2 (unat (clockSeqAndNode u ! 6)))"
    "seg m (a + 34) (digits 16 2 (unat (clockSeqAndNode u ! 7)))"
  using assms unfolding uuid_str_def Let_def seg_append length_append length_digits list.size
  by (simp_all only: One_nat_def[symmetric] add_0 add.assoc arith_simps one_plus_numeral numeral_plus_one simp_thms)

lemma list_of_8: "length xs = 8 \<Longrightarrow> xs = [xs ! 0, xs ! 1, xs ! 2, xs ! 3, xs ! 4, xs ! 5, xs ! 6, xs ! 7]"
  by (rule nth_equalityI) (auto simp: nth_Cons' less_Suc_eq numeral_eq_Suc)

end
