(* ===== verification/Dyn_Conf.thy ===== *)
theory Dyn_Conf
  imports C_Bytes
begin

text \<open>
  The dynamic configuration reader, \<open>lib/syslib/libdynconfmgr/src/dyn_conf_dispatch_inf.c\<close>.  A configuration
  is a text of nested elements, each a tag of three decimal digits, a type of one digit, a length of four
  hexadecimal digits and a value; the value of an element of type class is again a text of elements.
  \<open>parse_dyn_conf\<close> turns the text into a queue of nodes in preorder, and the builders of the permission
  service and of the drivers walk the queue with \<open>handle_conf_node_to_obj\<close>.

  The queue, an intrusive list in C, is the sequence of its nodes; a position is an index, and the index
  behind the last node is the list head, which is not a node: reading it as one, as the C code does when a
  walk runs off the queue, is undefined.  The \<open>value\<close> of a node is an offset into the buffer that the text
  was copied to.  All sizes stay below \<open>MAX_IMAGE_LEN\<close>, so that no sum of sizes and offsets wraps in 32 bits
  and they are natural numbers here.  An object pointer and its size are one typed argument: each caller in
  the sources passes the size of the type that the callee compares it with.  \<open>mal\<close> tells for each call of
  \<open>malloc\<close>, in order, whether it returns memory.
\<close>

section \<open>Definitions\<close>

abbreviation (input) MAX_IMAGE_LEN :: nat where "MAX_IMAGE_LEN \<equiv> 0x800000"
abbreviation (input) DYN_CONF_TAG_LEN :: nat where "DYN_CONF_TAG_LEN \<equiv> 3"
abbreviation (input) DYN_CONF_TYPE_LEN :: nat where "DYN_CONF_TYPE_LEN \<equiv> 1"
abbreviation (input) DYN_CONF_LEN_LEN :: nat where "DYN_CONF_LEN_LEN \<equiv> 4"
abbreviation (input) BASE_OF_TEN :: nat where "BASE_OF_TEN \<equiv> 10"
abbreviation (input) BASE_OF_HEX :: nat where "BASE_OF_HEX \<equiv> 16"
abbreviation (input) LEN_OF_HEX_TRIM :: nat where "LEN_OF_HEX_TRIM \<equiv> 2"
abbreviation (input) MAX_UINT64_LEN :: nat where "MAX_UINT64_LEN \<equiv> 20"
abbreviation (input) MAX_UINT32_LEN :: nat where "MAX_UINT32_LEN \<equiv> 10"
abbreviation (input) MAX_UINT64_HEX_LEN :: nat where "MAX_UINT64_HEX_LEN \<equiv> 16"
abbreviation (input) MAX_UUID_SIZE :: nat where "MAX_UUID_SIZE \<equiv> 36"
abbreviation (input) TYPE_CLASS :: u32 where "TYPE_CLASS \<equiv> 0"

record conf_node_t =
  n_tag :: u32
  n_type :: u32
  n_size :: nat
  n_value :: nat

record conf_queue_t =
  queue :: "conf_node_t list"
  mallocs :: nat

definition malloc :: "(nat \<Rightarrow> bool) \<Rightarrow> conf_queue_t \<Rightarrow> bool \<times> conf_queue_t" where
  "malloc mal cq = (mal (mallocs cq), cq\<lparr>mallocs := Suc (mallocs cq)\<rparr>)"

text \<open>The ring of the queue: the nodes \<open>0, 1, \<dots>\<close> and then the head.\<close>

definition node_at :: "conf_node_t list \<Rightarrow> nat \<Rightarrow> conf_node_t option" where
  "node_at q pos = (if pos < length q then Some (q ! pos) else None)"

definition get_next :: "conf_node_t list \<Rightarrow> nat \<Rightarrow> nat" where
  "get_next q pos = (if pos < length q then Suc pos else 0)"

type_synonym 'o handler_conf_to_obj = "nat \<Rightarrow> conf_node_t \<Rightarrow> 'o \<Rightarrow> (u32 \<times> nat \<times> 'o) option"

definition node_invalid :: "conf_node_t \<Rightarrow> bool" where
  "node_invalid node \<longleftrightarrow> n_size node \<ge> MAX_IMAGE_LEN \<or> n_size node = 0"

definition call_handle :: "'o handler_conf_to_obj option \<Rightarrow> 'o handler_conf_to_obj" where
  "call_handle handle pos node obj = (case handle of None \<Rightarrow> Some (TEE_SUCCESS, pos, obj) | Some h \<Rightarrow> h pos node obj)"

lemma call_handle_simps [simp]:
  "call_handle None pos node obj = Some (TEE_SUCCESS, pos, obj)"
  "call_handle (Some h) pos node obj = h pos node obj"
  by (simp_all add: call_handle_def)

partial_function (option) conf_loop ::
  "conf_node_t list \<Rightarrow> 'o handler_conf_to_obj option \<Rightarrow> nat \<Rightarrow> nat \<Rightarrow> nat \<Rightarrow> 'o \<Rightarrow> (u32 \<times> nat \<times> 'o) option" where
  "conf_loop q handle total_size tmp_size pos obj = do {
     node \<leftarrow> node_at q pos;
     if node_invalid node then Some (TEE_ERROR_BAD_PARAMETERS, pos, obj)
     else do {
       (ret, pos, obj) \<leftarrow> call_handle handle pos node obj;
       if ret \<noteq> TEE_SUCCESS then Some (ret, pos, obj)
       else let tmp_size = tmp_size + (DYN_CONF_TAG_LEN + DYN_CONF_TYPE_LEN + DYN_CONF_LEN_LEN + n_size node)
         in if tmp_size \<ge> total_size then Some (TEE_SUCCESS, pos, obj)
            else conf_loop q handle total_size tmp_size (get_next q pos) obj
     }
   }"

definition handle_conf_node_to_obj ::
  "conf_node_t list \<Rightarrow> 'o handler_conf_to_obj option \<Rightarrow> nat \<Rightarrow> 'o \<Rightarrow> (u32 \<times> nat \<times> 'o) option" where
  "handle_conf_node_to_obj q handle pos obj = do {
     node \<leftarrow> node_at q pos;
     if node_invalid node then Some (TEE_ERROR_BAD_PARAMETERS, pos, obj)
     else conf_loop q handle (n_size node) 0 (get_next q pos) obj
   }"

text \<open>\<open>trans_str_to_int\<close>: the result code and the number, which an early error leaves alone.\<close>

definition trans_str_to_int :: "u8 list \<Rightarrow> nat \<Rightarrow> nat \<Rightarrow> nat \<Rightarrow> u64 \<Rightarrow> (u32 \<times> u64) option" where
  "trans_str_to_int m buff len base num =
    (if len = 0 \<or> (base \<noteq> BASE_OF_HEX \<and> base \<noteq> BASE_OF_TEN) then Some (TEE_ERROR_BAD_PARAMETERS, num)
     else if base = BASE_OF_HEX \<and> len > MAX_UINT64_HEX_LEN + LEN_OF_HEX_TRIM then Some (TEE_ERROR_BAD_PARAMETERS, num)
     else if base = BASE_OF_TEN \<and> len > MAX_UINT64_LEN then Some (TEE_ERROR_BAD_PARAMETERS, num)
     else if len > MAX_UINT64_HEX_LEN + LEN_OF_HEX_TRIM then Some (TEE_ERROR_GENERIC, num)
     else do {
       tmp_buff \<leftarrow> rd_bytes m buff len;
       let str = c_str tmp_buff;
       let (v, used, err) = strtoull str base;
       if err \<or> used = 0 \<or> used \<noteq> length str then Some (TEE_ERROR_GENERIC, v)
       else Some (TEE_SUCCESS, v)
     })"

text \<open>\<open>buff\<close> is the NUL-terminated array of the four length digits; the result array has room for \<open>0x\<close> and these.\<close>

definition get_conf_len :: "u8 list \<Rightarrow> nat option" where
  "get_conf_len buff = do {
     let str = 48 # 120 # c_str buff;
     let len_buff = take (DYN_CONF_LEN_LEN + LEN_OF_HEX_TRIM) (str @ replicate (DYN_CONF_LEN_LEN + LEN_OF_HEX_TRIM) 0) @ [0];
     (ret, num) \<leftarrow> trans_str_to_int len_buff 0 (DYN_CONF_LEN_LEN + LEN_OF_HEX_TRIM) BASE_OF_HEX 0;
     if ret \<noteq> TEE_SUCCESS then Some 0
     else if unat num > MAX_IMAGE_LEN then Some 0
     else Some (unat num)
   }"

definition push_conf_queue ::
  "(nat \<Rightarrow> bool) \<Rightarrow> conf_queue_t \<Rightarrow> u32 \<Rightarrow> u32 \<Rightarrow> nat \<Rightarrow> nat \<Rightarrow> u32 \<times> conf_queue_t" where
  "push_conf_queue mal conf_queue tag type sz value =
    (let (ok, conf_queue) = malloc mal conf_queue
     in if \<not> ok then (TEE_ERROR_GENERIC, conf_queue)
        else (TEE_SUCCESS, conf_queue\<lparr>queue := queue conf_queue @
          [\<lparr>n_tag = tag, n_type = type, n_size = sz, n_value = value\<rparr>]\<rparr>))"

text \<open>
  The header of one element at \<open>index\<close>: its tag, type and length and the index behind it, or the error that
  the loop returns.  Tags and types are bounded by \<open>0xffffffff\<close> before they are cut to 32 bits.
\<close>

definition parse_header :: "u8 list \<Rightarrow> nat \<Rightarrow> nat \<Rightarrow> nat \<Rightarrow> (u32 + u64 \<times> u64 \<times> nat \<times> nat) option" where
  "parse_header m start sz index = do {
     tag_buff \<leftarrow> rd_bytes m (start + index) DYN_CONF_TAG_LEN;
     (ret, tag) \<leftarrow> trans_str_to_int (tag_buff @ [0]) 0 DYN_CONF_TAG_LEN BASE_OF_TEN 0;
     if ret \<noteq> TEE_SUCCESS \<or> tag > 0xffffffff then Some (Inl TEE_ERROR_GENERIC)
     else let index = index + DYN_CONF_TAG_LEN in
       if index \<ge> sz then Some (Inl TEE_ERROR_GENERIC)
       else do {
         type_buff \<leftarrow> rd_bytes m (start + index) DYN_CONF_TYPE_LEN;
         (ret, type) \<leftarrow> trans_str_to_int (type_buff @ [0]) 0 DYN_CONF_TYPE_LEN BASE_OF_TEN 0;
         if ret \<noteq> TEE_SUCCESS \<or> type > 0xffffffff then Some (Inl TEE_ERROR_GENERIC)
         else let index = index + DYN_CONF_TYPE_LEN in
           if index \<ge> sz then Some (Inl TEE_ERROR_GENERIC)
           else do {
             len_buff \<leftarrow> rd_bytes m (start + index) DYN_CONF_LEN_LEN;
             len \<leftarrow> get_conf_len (len_buff @ [0]);
             if len = 0 \<or> len \<ge> MAX_IMAGE_LEN \<or> index + len + DYN_CONF_LEN_LEN > sz
             then Some (Inl TEE_ERROR_BAD_PARAMETERS)
             else Some (Inr (tag, type, len, index + DYN_CONF_LEN_LEN))
           }
       }
   }"

partial_function (option) parse_dyn_conf ::
  "(nat \<Rightarrow> bool) \<Rightarrow> u8 list \<Rightarrow> nat \<Rightarrow> nat \<Rightarrow> nat \<Rightarrow> conf_queue_t \<Rightarrow> (u32 \<times> conf_queue_t) option" where
  "parse_dyn_conf mal m start sz index conf_queue =
    (if index < sz \<and> sz > DYN_CONF_TAG_LEN + DYN_CONF_TYPE_LEN + DYN_CONF_LEN_LEN then do {
       hdr \<leftarrow> parse_header m start sz index;
       case hdr of Inl ret \<Rightarrow> Some (ret, conf_queue)
       | Inr (tag, type, len, index) \<Rightarrow>
         let (ret, conf_queue) = push_conf_queue mal conf_queue (ucast tag) (ucast type) len (start + index)
         in if ret \<noteq> TEE_SUCCESS then Some (TEE_ERROR_GENERIC, conf_queue)
            else do {
              (ret, conf_queue) \<leftarrow>
                (if type = 0 then parse_dyn_conf mal m (start + index) len 0 conf_queue
                 else Some (TEE_SUCCESS, conf_queue));
              if ret \<noteq> TEE_SUCCESS then Some (TEE_ERROR_GENERIC, conf_queue)
              else parse_dyn_conf mal m start sz (index + len) conf_queue
            }
     } else Some (TEE_SUCCESS, conf_queue))"

declare conf_loop.simps [code] parse_dyn_conf.simps [code]

definition free_conf_queue :: "conf_queue_t \<Rightarrow> conf_queue_t" where
  "free_conf_queue conf_queue = conf_queue\<lparr>queue := []\<rparr>"

text \<open>\<open>unregister_conf\<close> on the state that the callback changes; a missing object or callback is \<open>None\<close>.\<close>

definition unregister_conf :: "('o \<Rightarrow> nat \<Rightarrow> 's \<Rightarrow> 's) option \<Rightarrow> 'o option \<Rightarrow> nat \<Rightarrow> 's \<Rightarrow> 's" where
  "unregister_conf uninstall_obj_func obj obj_size s =
    (case (uninstall_obj_func, obj) of
       (Some f, Some x) \<Rightarrow> if obj_size = 0 \<or> obj_size \<ge> MAX_IMAGE_LEN then s else f x obj_size s
     | _ \<Rightarrow> s)"

definition get_num_of_tag :: "conf_queue_t \<Rightarrow> u32 \<Rightarrow> u16" where
  "get_num_of_tag conf_queue tag =
    ucast (foldl (\<lambda>count node. if n_tag node = tag then count + 1 else count) (0 :: u32) (queue conf_queue))"

text \<open>
  \<open>install\<close> gets the buffer that the \<open>value\<close> pointers refer to and the queue.  The result shows the queue as
  \<open>register_conf\<close> leaves it.
\<close>

definition register_conf ::
  "(nat \<Rightarrow> bool) \<Rightarrow> (u8 list \<Rightarrow> conf_queue_t \<Rightarrow> 'o \<Rightarrow> (u32 \<times> conf_queue_t \<times> 'o) option) \<Rightarrow> u8 list \<Rightarrow> nat \<Rightarrow> nat \<Rightarrow> 'o
    \<Rightarrow> (u32 \<times> conf_queue_t \<times> 'o) option" where
  "register_conf mal install dyn_conf off dyn_conf_size obj = do {
     let cq = \<lparr>queue = [], mallocs = 0\<rparr>;
     if dyn_conf_size > MAX_IMAGE_LEN - 1 \<or> dyn_conf_size = 0 then Some (TEE_ERROR_BAD_PARAMETERS, cq, obj)
     else let (ok, cq) = malloc mal cq in
       if \<not> ok then Some (TEE_ERROR_GENERIC, cq, obj)
       else do {
         buff \<leftarrow> rd_bytes dyn_conf off dyn_conf_size;
         (ret, cq) \<leftarrow> parse_dyn_conf mal buff 0 dyn_conf_size 0 cq;
         if ret \<noteq> TEE_SUCCESS then Some (ret, free_conf_queue cq, obj)
         else do {
           (ret, cq, obj) \<leftarrow> install buff cq obj;
           Some (ret, free_conf_queue cq, obj)
         }
       }
   }"

text \<open>\<open>check_target_type_invalied\<close>: \<open>chip\<close> is the chip type string, \<open>None\<close> when it cannot be read.\<close>

function chip_loop :: "u8 list \<Rightarrow> u8 list \<Rightarrow> u32" where
  "chip_loop chip target = (case strtok 44 target of None \<Rightarrow> TEE_ERROR_GENERIC
    | Some (t, rest) \<Rightarrow> if t = chip then TEE_SUCCESS else chip_loop chip rest)"
  by pat_completeness auto
termination
  by (relation "measure (\<lambda>(chip, target). length target)") (auto dest: strtok_shorter)

definition check_target_type_invalied ::
  "(nat \<Rightarrow> bool) \<Rightarrow> u8 list option \<Rightarrow> u8 list \<Rightarrow> nat \<Rightarrow> nat \<Rightarrow> conf_queue_t \<Rightarrow> (u32 \<times> conf_queue_t) option" where
  "check_target_type_invalied mal chip m sz value cq =
    (if sz > MAX_IMAGE_LEN then Some (TEE_ERROR_BAD_PARAMETERS, cq)
     else case chip of None \<Rightarrow> Some (TEE_ERROR_GENERIC, cq)
     | Some buff \<Rightarrow>
       let (ok, cq) = malloc mal cq in
       if \<not> ok then Some (TEE_ERROR_GENERIC, cq)
       else do { origin \<leftarrow> rd_bytes m value sz; Some (chip_loop buff (c_str origin), cq) })"

text \<open>\<open>check_item_chip_type\<close> walks from the node behind \<open>now\<close>; behind the last node it meets the head of the queue.\<close>

fun chip_scan ::
  "(nat \<Rightarrow> bool) \<Rightarrow> u8 list option \<Rightarrow> u8 list \<Rightarrow> u32 \<Rightarrow> conf_node_t list \<Rightarrow> conf_queue_t \<Rightarrow> (u32 \<times> conf_queue_t) option" where
  "chip_scan mal chip m chip_type_tag [] cq = None"
| "chip_scan mal chip m chip_type_tag (node # nodes) cq =
    (if n_type node = 0 then Some (TEE_SUCCESS, cq)
     else if n_tag node = chip_type_tag then check_target_type_invalied mal chip m (n_size node) (n_value node) cq
     else chip_scan mal chip m chip_type_tag nodes cq)"

definition check_item_chip_type ::
  "(nat \<Rightarrow> bool) \<Rightarrow> u8 list option \<Rightarrow> u8 list \<Rightarrow> nat \<Rightarrow> u32 \<Rightarrow> conf_queue_t \<Rightarrow> (u32 \<times> conf_queue_t) option" where
  "check_item_chip_type mal chip m now chip_type_tag cq =
    chip_scan mal chip m chip_type_tag (drop (Suc now) (queue cq)) cq"

text \<open>The eleven numbers of a UUID text, with their places: every one is converted, also behind a bad one.\<close>

definition uuid_places :: "(nat \<times> nat) list" where
  "uuid_places = [(0, 8), (9, 4), (14, 4), (19, 2), (21, 2), (24, 2), (26, 2), (28, 2), (30, 2), (32, 2), (34, 2)]"

primrec trans_places :: "u8 list \<Rightarrow> nat \<Rightarrow> (nat \<times> nat) list \<Rightarrow> (bool \<times> u64 list) option" where
  "trans_places m ptr [] = Some (False, [])"
| "trans_places m ptr (p # ps) = do {
     (ret, v) \<leftarrow> trans_str_to_int m (ptr + fst p) (snd p) BASE_OF_HEX 0;
     (flag, vs) \<leftarrow> trans_places m ptr ps;
     Some (ret \<noteq> TEE_SUCCESS \<or> flag, v # vs)
   }"

definition tlv_to_uuid :: "u8 list \<Rightarrow> nat \<Rightarrow> nat \<Rightarrow> TEE_UUID \<Rightarrow> (u32 \<times> TEE_UUID) option" where
  "tlv_to_uuid m uuid_buff sz uuid =
    (if sz > MAX_UUID_SIZE then Some (TEE_ERROR_BAD_PARAMETERS, uuid)
     else do {
       n \<leftarrow> c_strlen m uuid_buff;
       if n < sz then Some (TEE_ERROR_BAD_PARAMETERS, uuid)
       else do {
         (flag, data) \<leftarrow> trans_places m uuid_buff uuid_places;
         if flag then Some (TEE_ERROR_GENERIC, uuid)
         else if data ! 0 > 0xFFFFFFFF \<or> data ! 1 > 0xFFFF \<or> data ! 2 > 0xFFFF \<or> list_ex (\<lambda>d. d > 0xFF) (drop 3 data)
         then Some (TEE_ERROR_GENERIC, uuid)
         else Some (TEE_SUCCESS, \<lparr>timeLow = ucast (data ! 0), timeMid = ucast (data ! 1),
           timeHiAndVersion = ucast (data ! 2), clockSeqAndNode = map ucast (drop 3 data)\<rparr>)
       }
     })"


section \<open>Reading stays in the buffer\<close>

lemma trans_str_to_int_defined: "off + len \<le> length m \<Longrightarrow> okay (trans_str_to_int m off len base num) (\<lambda>_. True)"
  by (auto simp: trans_str_to_int_def okay_bind Let_def split: prod.splits)

lemma trans_okay: "off + len \<le> length m \<Longrightarrow> (\<And>r v. Q (r, v)) \<Longrightarrow> okay (trans_str_to_int m off len base num) Q"
  by (rule okay_conseq[OF trans_str_to_int_defined]) auto

lemma get_conf_len_okay: "okay (get_conf_len buff) (\<lambda>n. n \<le> MAX_IMAGE_LEN)"
  unfolding get_conf_len_def Let_def okay_bind
  by (rule trans_okay) auto

text \<open>The postcondition of the header: the value lies behind the eight bytes and inside the text.\<close>

definition header_in :: "nat \<Rightarrow> nat \<Rightarrow> u32 + u64 \<times> u64 \<times> nat \<times> nat \<Rightarrow> bool" where
  "header_in sz index r = (case r of Inl e \<Rightarrow> e \<noteq> TEE_SUCCESS
    | Inr (tag, type, len, i) \<Rightarrow> i = index + 8 \<and> 0 < len \<and> len < MAX_IMAGE_LEN \<and> i + len \<le> sz)"

lemma header_in_simps [simp]:
  "header_in sz index (Inl e) \<longleftrightarrow> e \<noteq> TEE_SUCCESS"
  "header_in sz index (Inr (tag, type, len, i)) \<longleftrightarrow> i = index + 8 \<and> 0 < len \<and> len < MAX_IMAGE_LEN \<and> i + len \<le> sz"
  by (simp_all add: header_in_def)

lemma parse_header_okay:
  assumes m: "start + sz + 3 \<le> length m" and i: "index < sz"
  shows "okay (parse_header m start sz index) (header_in sz index)"
proof -
  have lens: "okay (get_conf_len l) (\<lambda>x. True)" for l
    by (rule okay_conseq[OF get_conf_len_okay]) simp
  show ?thesis
    unfolding parse_header_def okay_bind okay_rd_bytes
    using m i lens by (auto simp: Let_def okay_bind intro!: trans_okay)
qed

definition inside :: "nat \<Rightarrow> nat \<Rightarrow> conf_node_t \<Rightarrow> bool" where
  "inside start sz node \<longleftrightarrow>
    start \<le> n_value node \<and> n_value node + n_size node \<le> start + sz \<and> 0 < n_size node \<and> n_size node < MAX_IMAGE_LEN"

definition q_grows :: "nat \<Rightarrow> nat \<Rightarrow> conf_queue_t \<Rightarrow> conf_queue_t \<Rightarrow> bool" where
  "q_grows start sz cq cq' \<longleftrightarrow> (\<exists>ns. queue cq' = queue cq @ ns \<and> (\<forall>n \<in> set ns. inside start sz n))"

lemma q_grows_refl [simp]: "q_grows start sz cq cq"
  by (simp add: q_grows_def)

lemma q_grows_trans: "q_grows start sz cq cq' \<Longrightarrow> q_grows start sz cq' cq'' \<Longrightarrow> q_grows start sz cq cq''"
  by (auto simp: q_grows_def)

lemma q_grows_mono: "q_grows a k cq cq' \<Longrightarrow> start \<le> a \<Longrightarrow> a + k \<le> start + sz \<Longrightarrow> q_grows start sz cq cq'"
  unfolding q_grows_def inside_def by fastforce

lemma push_q_grows:
  "push_conf_queue mal cq tag type len v = (ret, cq') \<Longrightarrow> start \<le> v \<Longrightarrow> v + len \<le> start + sz \<Longrightarrow> 0 < len \<Longrightarrow>
    len < MAX_IMAGE_LEN \<Longrightarrow> q_grows start sz cq cq'"
  by (auto simp: push_conf_queue_def malloc_def q_grows_def inside_def Let_def split: if_splits)

lemma parse_dyn_conf_okay:
  assumes "start + sz + 3 \<le> length m"
  shows "okay (parse_dyn_conf mal m start sz index cq) (\<lambda>(ret, cq'). q_grows start sz cq cq')"
  using assms
proof (induction "sz - index" arbitrary: start sz index cq rule: less_induct)
  case less
  show ?case
  proof (cases "index < sz \<and> sz > 8")
    case False
    then show ?thesis by (subst parse_dyn_conf.simps) auto
  next
    case True
    have step: "okay (case hdr of Inl ret \<Rightarrow> Some (ret, cq)
       | Inr (tag, type, len, index) \<Rightarrow>
         let (ret, conf_queue) = push_conf_queue mal cq (ucast tag) (ucast type) len (start + index)
         in if ret \<noteq> TEE_SUCCESS then Some (TEE_ERROR_GENERIC, conf_queue)
            else do {
              (ret, conf_queue) \<leftarrow>
                (if type = 0 then parse_dyn_conf mal m (start + index) len 0 conf_queue
                 else Some (TEE_SUCCESS, conf_queue));
              if ret \<noteq> TEE_SUCCESS then Some (TEE_ERROR_GENERIC, conf_queue)
              else parse_dyn_conf mal m start sz (index + len) conf_queue
            }) (\<lambda>(ret, cq'). q_grows start sz cq cq')" if h: "header_in sz index hdr" for hdr
    proof (cases hdr)
      case (Inr x)
      obtain tag type len i where x: "x = (tag, type, len, i)" by (cases x)
      have b: "i = index + 8" "0 < len" "len < MAX_IMAGE_LEN" "i + len \<le> sz" using h Inr x by auto
      obtain ret cq1 where p: "push_conf_queue mal cq (ucast tag) (ucast type) len (start + i) = (ret, cq1)" by force
      have g1: "q_grows start sz cq cq1" by (rule push_q_grows[OF p]) (use b in auto)
      have child: "okay (if type = 0 then parse_dyn_conf mal m (start + i) len 0 cq1 else Some (TEE_SUCCESS, cq1))
          (\<lambda>(ret, cq'). q_grows start sz cq cq')"
      proof (cases "type = 0")
        case True
        have "okay (parse_dyn_conf mal m (start + i) len 0 cq1) (\<lambda>(ret, cq'). q_grows (start + i) len cq1 cq')"
          by (rule less.hyps) (use b less.prems in auto)
        then show ?thesis
          using True b by (auto elim!: okay_conseq intro!: q_grows_trans[OF g1] elim: q_grows_mono)
      qed (use g1 in auto)
      have rest: "okay (parse_dyn_conf mal m start sz (i + len) cq2) (\<lambda>(ret, cq'). q_grows start sz cq cq')"
        if "q_grows start sz cq cq2" for cq2
        by (rule okay_conseq[OF less.hyps]) (use b less.prems True that in \<open>auto intro: q_grows_trans\<close>)
      have "okay ((if type = 0 then parse_dyn_conf mal m (start + i) len 0 cq1 else Some (TEE_SUCCESS, cq1)) \<bind>
          (\<lambda>(ret, conf_queue). if ret \<noteq> TEE_SUCCESS then Some (TEE_ERROR_GENERIC, conf_queue)
            else parse_dyn_conf mal m start sz (i + len) conf_queue)) (\<lambda>(ret, cq'). q_grows start sz cq cq')"
        by (rule okay_bindI[OF child]) (auto intro: rest)
      then show ?thesis
        using g1 unfolding Inr x by (simp add: p)
    qed (use h in simp)
    have cond: "index < sz \<and> sz > DYN_CONF_TAG_LEN + DYN_CONF_TYPE_LEN + DYN_CONF_LEN_LEN" using True by simp
    show ?thesis
      unfolding parse_dyn_conf.simps[of mal m start sz index] if_P[OF cond]
      by (rule okay_bindI[OF parse_header_okay step]) (use less.prems True in auto)
  qed
qed


text \<open>
  C29.  Reading a configuration text ends for every input, and when three more bytes behind the text can be read it reads nothing
  outside: it returns a result code, and appends to the queue only nodes whose values are non-empty and lie inside the text.
\<close>

theorem parse_dyn_conf_in_bounds:
  assumes "start + sz + 3 \<le> length m"
  shows "\<exists>ret cq' ns. parse_dyn_conf mal m start sz index cq = Some (ret, cq') \<and> queue cq' = queue cq @ ns \<and>
    (\<forall>n \<in> set ns. start \<le> n_value n \<and> n_value n + n_size n \<le> start + sz \<and> 0 < n_size n \<and> n_size n < MAX_IMAGE_LEN)"
  using parse_dyn_conf_okay[OF assms, of mal index cq] by (auto simp: okay_iff q_grows_def inside_def)

theorem parse_dyn_conf_in_bounds_witness:
  "\<exists>ret cq' ns. parse_dyn_conf (\<lambda>k. True) (replicate 20 48) 0 17 0 \<lparr>queue = [], mallocs = 0\<rparr> = Some (ret, cq') \<and> queue cq' = [] @ ns \<and>
    (\<forall>n \<in> set ns. 0 \<le> n_value n \<and> n_value n + n_size n \<le> 0 + 17 \<and> 0 < n_size n \<and> n_size n < MAX_IMAGE_LEN)"
  using parse_dyn_conf_in_bounds[of 0 17 "replicate 20 48" "\<lambda>k. True" 0 "\<lparr>queue = [], mallocs = 0\<rparr>"] by simp

end
