(* ===== verification/Dyn_Conf_Tree.thy ===== *)
theory Dyn_Conf_Tree
  imports Dyn_Conf
begin

text \<open>
  What the dynamic configuration reader computes, in terms of the tree of elements that a text describes.
  \<open>encs\<close> writes a list of trees as text, \<open>flats\<close> is the queue of their nodes in preorder.  \<open>parse_dyn_conf\<close>
  turns the one into the other.  The locale \<open>conf_handler\<close> is the contract of the callbacks of
  \<open>handle_conf_node_to_obj\<close>: called at the first node of an element, a callback has the effect of the element
  on the object and leaves the position at the last node of the element.  A walk over a class element then
  visits each child once and in order, so that a callback which walks meets the contract again.
\<close>

section \<open>Trees and their texts\<close>

datatype conf_tree = Conf_Leaf u32 u32 "u8 list" | Conf_Class u32 "conf_tree list"

definition conf_hdr :: "u32 \<Rightarrow> u32 \<Rightarrow> nat \<Rightarrow> u8 list" where
  "conf_hdr tag type n = digits 10 3 (unat tag) @ digits 10 1 (unat type) @ digits 16 4 n"

fun encs :: "conf_tree list \<Rightarrow> u8 list" where
  "encs [] = []"
| "encs (Conf_Leaf tag type v # ts) = conf_hdr tag type (length v) @ v @ encs ts"
| "encs (Conf_Class tag cs # ts) = conf_hdr tag 0 (length (encs cs)) @ encs cs @ encs ts"

fun flats :: "nat \<Rightarrow> conf_tree list \<Rightarrow> conf_node_t list" where
  "flats a [] = []"
| "flats a (Conf_Leaf tag type v # ts) =
    \<lparr>n_tag = tag, n_type = type, n_size = length v, n_value = a + 8\<rparr> # flats (a + 8 + length v) ts"
| "flats a (Conf_Class tag cs # ts) =
    \<lparr>n_tag = tag, n_type = 0, n_size = length (encs cs), n_value = a + 8\<rparr> # flats (a + 8) cs @ flats (a + 8 + length (encs cs)) ts"

fun wf_conf :: "conf_tree list \<Rightarrow> bool" where
  "wf_conf [] \<longleftrightarrow> True"
| "wf_conf (Conf_Leaf tag type v # ts) \<longleftrightarrow>
    unat tag < 1000 \<and> 0 < unat type \<and> unat type < 10 \<and> v \<noteq> [] \<and> length v < 65536 \<and> wf_conf ts"
| "wf_conf (Conf_Class tag cs # ts) \<longleftrightarrow>
    unat tag < 1000 \<and> cs \<noteq> [] \<and> length (encs cs) < 65536 \<and> wf_conf cs \<and> wf_conf ts"

lemma length_conf_hdr [simp]: "length (conf_hdr tag type n) = 8"
  by (simp add: conf_hdr_def)

lemma length_encs_ge: "ts \<noteq> [] \<Longrightarrow> 8 \<le> length (encs ts)"
  by (cases ts rule: encs.cases) auto

lemma length_encs_gt: "ts \<noteq> [] \<Longrightarrow> wf_conf ts \<Longrightarrow> 8 < length (encs ts)"
  by (cases ts rule: encs.cases) (auto dest: length_encs_ge)

lemma encs_Cons: "encs (t # ts) = encs [t] @ encs ts"
  by (cases t) simp_all

lemma flats_Cons: "flats a (t # ts) = flats a [t] @ flats (a + length (encs [t])) ts"
  by (cases t) (simp_all add: add.commute add.left_commute)

lemma wf_conf_Cons: "wf_conf (t # ts) \<longleftrightarrow> wf_conf [t] \<and> wf_conf ts"
  by (cases t) auto


section \<open>Reading the text of a tree\<close>

lemma trans_digits:
  assumes "m = pre @ digits base k n @ post" "off = length pre" "base = 10 \<or> base = 16" "0 < k" "k \<le> 16" "n < base ^ k" "n < 2 ^ 64"
  shows "trans_str_to_int m off k base num = Some (TEE_SUCCESS, of_nat n)"
proof -
  have b: "0 < base" "base \<le> 16" using assms(3) by auto
  have "c_str (digits base k n) = digits base k n"
    using digits_are_digits(2)[OF b] by (intro c_str_id) blast
  then show ?thesis
    using assms strtoull_digits[OF b assms(4,6,7)] rd_bytes_append[of "digits base k n" k off pre post]
    by (auto simp: trans_str_to_int_def)
qed

lemma get_conf_len_digits:
  assumes "n < 65536"
  shows "get_conf_len (digits 16 4 n @ [0]) = Some n"
proof -
  let ?ds = "digits 16 4 n"
  have nz: "0 \<notin> set ?ds" using digits_are_digits(2)[of 16, simplified] by blast
  have 1: "c_str (?ds @ [0]) = ?ds" using c_str_append_0[OF nz] by simp
  define xs where "xs = 48 # 120 # ?ds"
  have len: "length xs = 6" by (simp add: xs_def)
  have "0 \<notin> set xs" using nz by (auto simp: xs_def)
  then have 2: "c_str xs = xs" by (rule c_str_id)
  have 3: "take 6 (xs @ zs) = xs" for zs using len by simp
  have 4: "rd_bytes (xs @ [0]) 0 6 = Some xs" using rd_bytes_append[of xs 6 0 "[]" "[0]"] len by simp
  have 5: "unat (of_nat n :: u64) = n" using assms by (simp add: unsigned_of_nat take_bit_nat_eq_self)
  have 6: "strtoull xs 16 = (of_nat n, 6, False)" using strtoull_0x_digits[of 4 n] assms by (simp add: xs_def)
  show ?thesis
    unfolding get_conf_len_def trans_str_to_int_def 1 Let_def xs_def[symmetric]
    using assms by (simp add: 2 3 4 5 6 len)
qed

lemma unat_small_u64: "n < 1000 \<Longrightarrow> (of_nat n :: u64) \<le> 0xffffffff"
  by (simp add: word_le_nat_alt unsigned_of_nat take_bit_nat_eq_self)

lemma parse_header_hdr:
  assumes m: "m = pre @ conf_hdr tag type n @ rest" and pre: "start + index = length pre"
    and n: "0 < n" "n < 65536" and fits: "index + 8 + n \<le> sz" and t: "unat tag < 1000" "unat type < 10"
  shows "parse_header m start sz index = Some (Inr (ucast tag, ucast type, n, index + 8))"
proof -
  let ?a = "digits 10 3 (unat tag)" and ?b = "digits 10 1 (unat type)" and ?c = "digits 16 4 n"
  have 1: "rd_bytes m (start + index) 3 = Some ?a"
    unfolding m conf_hdr_def using pre rd_bytes_append[of ?a 3 "start + index" pre "?b @ ?c @ rest"] by simp
  have 2: "rd_bytes m (start + (index + 3)) 1 = Some ?b"
    unfolding m conf_hdr_def using pre rd_bytes_append[of ?b 1 "start + (index + 3)" "pre @ ?a" "?c @ rest"] by simp
  have 3: "rd_bytes m (start + (index + 3 + 1)) 4 = Some ?c"
    unfolding m conf_hdr_def using pre rd_bytes_append[of ?c 4 "start + (index + 3 + 1)" "pre @ ?a @ ?b" rest] by simp
  have 4: "trans_str_to_int (?a @ [0]) 0 3 10 0 = Some (TEE_SUCCESS, ucast tag)"
    using trans_digits[of "?a @ [0]" "[]" 10 3 "unat tag" "[0]" 0 0] t by simp
  have 5: "trans_str_to_int (?b @ [0]) 0 1 10 0 = Some (TEE_SUCCESS, ucast type)"
    using trans_digits[of "?b @ [0]" "[]" 10 1 "unat type" "[0]" 0 0] t by simp
  have 6: "\<not> (ucast tag :: u64) > 0xffffffff" "\<not> (ucast type :: u64) > 0xffffffff"
    using unat_small_u64[of "unat tag"] unat_small_u64[of "unat type"] t by (auto simp: not_less)
  show ?thesis
    using n fits unfolding parse_header_def 1 by (simp only: bind.bind_lunit 4 prod.case simp_thms if_False 6 Let_def)
      (simp add: 2[simplified] 3[simplified] 5[simplified] 6 get_conf_len_digits)
qed

lemma ucast_u64_u32 [simp]: "(ucast (ucast (w :: u32) :: u64) :: u32) = w"
  by (rule bit_word_eqI) (auto simp: bit_simps)

definition pushed :: "nat \<Rightarrow> conf_tree list \<Rightarrow> conf_queue_t \<Rightarrow> conf_queue_t" where
  "pushed a ts cq = cq\<lparr>queue := queue cq @ flats a ts, mallocs := mallocs cq + length (flats a ts)\<rparr>"

lemma parse_dyn_conf_encs:
  assumes "wf_conf ts" "m = pre @ encs ts @ post" "start + index = length pre" "index + length (encs ts) = sz"
    and "ts \<noteq> [] \<Longrightarrow> 8 < sz" and "\<And>k. mal k"
  shows "parse_dyn_conf mal m start sz index cq = Some (TEE_SUCCESS, pushed (start + index) ts cq)"
  using assms(1-5)
proof (induction ts arbitrary: start sz index pre post cq rule: encs.induct)
  case 1
  then show ?case by (subst parse_dyn_conf.simps) (simp add: pushed_def)
next
  case (2 tag type v ts)
  let ?h = "conf_hdr tag type (length v)"
  have "length (encs (Conf_Leaf tag type v # ts)) = 8 + length v + length (encs ts)" by simp
  then have szs: "index + 8 + length v + length (encs ts) = sz" using "2.prems"(4) by linarith
  have hd: "parse_header m start sz index = Some (Inr (ucast tag, ucast type, length v, index + 8))"
    by (rule parse_header_hdr[of m pre tag type "length v" "v @ encs ts @ post"]) (use "2.prems" szs in auto)
  have ty: "(ucast type :: u64) \<noteq> 0" using "2.prems"(1) by (auto simp: word_unat_eq_iff)
  have uc: "(ucast (ucast tag :: u64) :: u32) = tag" "(ucast (ucast type :: u64) :: u32) = type" by simp_all
  let ?cq = "cq\<lparr>mallocs := Suc (mallocs cq), queue := queue cq @ [\<lparr>n_tag = tag, n_type = type, n_size = length v, n_value = start + (index + 8)\<rparr>]\<rparr>"
  have rest: "parse_dyn_conf mal m start sz (index + 8 + length v) ?cq = Some (TEE_SUCCESS, pushed (start + (index + 8 + length v)) ts ?cq)"
    by (rule "2.IH"[of "pre @ ?h @ v" post]) (use "2.prems" szs in auto)
  show ?case
    using szs "2.prems"(5) assms(6) ty unfolding parse_dyn_conf.simps[of mal m start sz index] hd
    by (simp add: push_conf_queue_def malloc_def uc rest) (simp add: pushed_def add.assoc)
next
  case (3 tag cs ts)
  let ?h = "conf_hdr tag 0 (length (encs cs))"
  have "length (encs (Conf_Class tag cs # ts)) = 8 + length (encs cs) + length (encs ts)" by simp
  then have szs: "index + 8 + length (encs cs) + length (encs ts) = sz" using "3.prems"(4) by linarith
  have len: "8 < length (encs cs)" using "3.prems"(1) length_encs_gt by auto
  have hd: "parse_header m start sz index = Some (Inr (ucast tag, ucast (0 :: u32), length (encs cs), index + 8))"
    by (rule parse_header_hdr[of m pre tag 0 "length (encs cs)" "encs cs @ encs ts @ post"]) (use "3.prems" szs len in auto)
  have uc: "(ucast (ucast tag :: u64) :: u32) = tag" by simp
  let ?cq = "cq\<lparr>mallocs := Suc (mallocs cq), queue := queue cq @ [\<lparr>n_tag = tag, n_type = 0, n_size = length (encs cs), n_value = start + (index + 8)\<rparr>]\<rparr>"
  have child: "parse_dyn_conf mal m (start + (index + 8)) (length (encs cs)) 0 ?cq =
      Some (TEE_SUCCESS, pushed (start + (index + 8) + 0) cs ?cq)"
    by (rule "3.IH"(1)[of "pre @ ?h" "encs ts @ post"]) (use "3.prems" szs len in auto)
  let ?cq2 = "pushed (start + (index + 8)) cs ?cq"
  have rest: "parse_dyn_conf mal m start sz (index + 8 + length (encs cs)) ?cq2 =
      Some (TEE_SUCCESS, pushed (start + (index + 8 + length (encs cs))) ts ?cq2)"
    by (rule "3.IH"(3)[of "pre @ ?h @ encs cs" post]) (use "3.prems" szs len in auto)
  show ?case
    using szs "3.prems"(5) assms(6) unfolding parse_dyn_conf.simps[of mal m start sz index] hd
    by (simp add: push_conf_queue_def malloc_def uc child[simplified] rest) (simp add: pushed_def add.assoc)
qed


section \<open>Walking the queue\<close>

primrec run_trees :: "(conf_tree \<Rightarrow> 'o \<Rightarrow> u32 \<times> 'o) \<Rightarrow> conf_tree list \<Rightarrow> 'o \<Rightarrow> u32 \<times> 'o" where
  "run_trees eff [] obj = (TEE_SUCCESS, obj)"
| "run_trees eff (t # ts) obj =
    (if fst (eff t obj) \<noteq> TEE_SUCCESS then eff t obj else run_trees eff ts (snd (eff t obj)))"

definition visited :: "nat \<Rightarrow> u32 \<times> 'o \<Rightarrow> (u32 \<times> nat \<times> 'o) option \<Rightarrow> bool" where
  "visited end_pos r m \<longleftrightarrow> okay m (\<lambda>(ret, pos, obj). ret = fst r \<and> obj = snd r \<and> (ret = TEE_SUCCESS \<longrightarrow> Suc pos = end_pos))"

lemma visited_Some [simp]:
  "visited e r (Some (ret, pos, obj)) \<longleftrightarrow> ret = fst r \<and> obj = snd r \<and> (ret = TEE_SUCCESS \<longrightarrow> Suc pos = e)"
  by (simp add: visited_def)

lemma visitedE:
  assumes "visited e r m"
  obtains pos where "m = Some (fst r, pos, snd r)" "fst r = TEE_SUCCESS \<Longrightarrow> Suc pos = e"
  using assms by (auto simp: visited_def okay_iff)

lemma flats_hd:
  assumes "wf_conf [t]" "seg q pos (flats a [t])"
  shows "pos < length q" "\<not> node_invalid (q ! pos)" "8 + n_size (q ! pos) = length (encs [t])"
  using assms by (cases t; auto simp: seg_Cons node_invalid_def dest: length_encs_gt)+

lemma flats_pos: "flats a [t] \<noteq> []"
  by (cases t) auto

locale conf_handler =
  fixes q :: "conf_node_t list" and m :: "u8 list" and h :: "'o handler_conf_to_obj option"
    and good :: "conf_tree \<Rightarrow> bool" and eff :: "conf_tree \<Rightarrow> 'o \<Rightarrow> u32 \<times> 'o"
  assumes handles: "good t \<Longrightarrow> wf_conf [t] \<Longrightarrow> seg q pos (flats a [t]) \<Longrightarrow> seg m a (encs [t]) \<Longrightarrow>
    visited (pos + length (flats a [t])) (eff t obj) (call_handle h pos (q ! pos) obj)"
begin

lemma loop_visits:
  assumes "cs \<noteq> []" "list_all good cs" "wf_conf cs" "seg q pos (flats a cs)" "seg m a (encs cs)"
    and "tmp + length (encs cs) = tot_sz"
  shows "visited (pos + length (flats a cs)) (run_trees eff cs obj) (conf_loop q h tot_sz tmp pos obj)"
  using assms
proof (induction cs arbitrary: pos a tmp obj)
  case (Cons t cs)
  have wf: "wf_conf [t]" "wf_conf cs" using Cons.prems(3) wf_conf_Cons by blast+
  have q: "seg q pos (flats a [t])" "seg q (pos + length (flats a [t])) (flats (a + length (encs [t])) cs)"
    using Cons.prems(4) unfolding flats_Cons[of a t cs] seg_append by auto
  have m: "seg m a (encs [t])" "seg m (a + length (encs [t])) (encs cs)"
    using Cons.prems(5) unfolding encs_Cons[of t cs] seg_append by auto
  have tot: "tmp + length (encs [t]) + length (encs cs) = tot_sz"
    using Cons.prems(6) unfolding encs_Cons[of t cs] by simp
  note hd = flats_hd[OF wf(1) q(1)]
  have g: "good t" using Cons.prems(2) by simp
  obtain p where p: "call_handle h pos (q ! pos) obj = Some (fst (eff t obj), p, snd (eff t obj))"
      "fst (eff t obj) = TEE_SUCCESS \<Longrightarrow> Suc p = pos + length (flats a [t])"
    using handles[OF g wf(1) q(1) m(1), of obj] by (elim visitedE) auto
  have node: "node_at q pos = Some (q ! pos)" using hd(1) by (simp add: node_at_def)
  have fl: "flats a (t # cs) = flats a [t] @ flats (a + length (encs [t])) cs" by (rule flats_Cons)
  show ?case
  proof (cases "fst (eff t obj) = TEE_SUCCESS")
    case False
    then show ?thesis using hd(2) p(1) by (subst conf_loop.simps) (simp add: node)
  next
    case True
    note pos = p(2)[OF True]
    show ?thesis
    proof (cases cs)
      case Nil
      then show ?thesis using True hd p(1) pos tot by (subst conf_loop.simps) (simp add: node)
    next
      case (Cons t' cs')
      have ne: "cs \<noteq> []" using Cons by simp
      have next_: "get_next q p = pos + length (flats a [t])"
        using pos q(2) ne flats_pos[of "a + length (encs [t])" t'] Cons
        by (simp add: get_next_def seg_def) (metis Suc_lessD append_is_Nil_conv drop_eq_Nil2 flats_Cons leI take_Nil)
      have lt: "\<not> tot_sz \<le> tmp + (8 + n_size (q ! pos))"
        using tot hd(3) length_encs_ge[OF ne] by linarith
      have ih: "visited (pos + length (flats a [t]) + length (flats (a + length (encs [t])) cs))
          (run_trees eff cs (snd (eff t obj)))
          (conf_loop q h tot_sz (tmp + length (encs [t])) (pos + length (flats a [t])) (snd (eff t obj)))"
        by (rule Cons.IH) (use ne Cons.prems(2) wf(2) q(2) m(2) tot in auto)
      then show ?thesis
        using True hd(2,3) p(1) lt unfolding fl by (subst conf_loop.simps) (simp add: node next_ add.assoc)
    qed
  qed
qed simp

lemma walk_visits:
  assumes "list_all good cs" "wf_conf [Conf_Class tag cs]" "seg q pos (flats a [Conf_Class tag cs])"
    and "seg m a (encs [Conf_Class tag cs])"
  shows "visited (pos + length (flats a [Conf_Class tag cs])) (run_trees eff cs obj) (handle_conf_node_to_obj q h pos obj)"
proof -
  note hd = flats_hd[OF assms(2,3)]
  have cs: "cs \<noteq> []" "wf_conf cs" using assms(2) by auto
  have seg: "seg q (Suc pos) (flats (a + 8) cs)" "n_size (q ! pos) = length (encs cs)"
    using assms(3) by (auto simp: seg_Cons)
  have mem: "seg m (a + 8) (encs cs)" using assms(4) by (simp add: seg_append)
  have "visited (Suc pos + length (flats (a + 8) cs)) (run_trees eff cs obj)
      (conf_loop q h (length (encs cs)) 0 (Suc pos) obj)"
    by (rule loop_visits[OF cs(1) assms(1) cs(2) seg(1) mem]) simp
  then show ?thesis
    using hd(1,2) seg(2) by (simp add: handle_conf_node_to_obj_def node_at_def get_next_def)
qed

end

text \<open>A class of leaves is skipped by a walk without a callback.\<close>

fun is_leaf :: "conf_tree \<Rightarrow> bool" where
  "is_leaf (Conf_Leaf tag type v) \<longleftrightarrow> True"
| "is_leaf (Conf_Class tag cs) \<longleftrightarrow> False"

lemma skip_is_handler: "conf_handler q m None is_leaf (\<lambda>t obj. (TEE_SUCCESS, obj))"
proof
  fix t pos a obj
  assume "is_leaf t" "seg q pos (flats a [t])"
  then show "visited (pos + length (flats a [t])) (TEE_SUCCESS, obj) (call_handle None pos (q ! pos) obj)"
    by (cases t) auto
qed

interpretation skip: conf_handler q m None is_leaf "\<lambda>t obj. (TEE_SUCCESS, obj)" for q m
  by (rule skip_is_handler)



section \<open>Properties\<close>

text \<open>
  C30.  Reading the text of elements gives the queue of their nodes in preorder, each with its tag, type, size and the place of its
  value, and nothing else is read: the buffer holds no byte more than the text.
\<close>

theorem parse_dyn_conf_flattens:
  assumes "wf_conf ts" "ts \<noteq> []" "\<And>k. mal k"
  shows "parse_dyn_conf mal (encs ts) 0 (length (encs ts)) 0 cq =
    Some (TEE_SUCCESS, cq\<lparr>queue := queue cq @ flats 0 ts, mallocs := mallocs cq + length (flats 0 ts)\<rparr>)"
  using parse_dyn_conf_encs[OF assms(1), of "encs ts" "[]" "[]" 0 0 "length (encs ts)" mal cq]
    length_encs_gt[OF assms(2,1)] assms(3) by (simp add: pushed_def)

definition demo_trees :: "conf_tree list" where
  "demo_trees = [Conf_Class 0 [Conf_Class 6 [Conf_Leaf 8 1 [49]], Conf_Leaf 3 3 [116, 97]]]"

theorem parse_dyn_conf_flattens_witness:
  "parse_dyn_conf (\<lambda>k. True) (encs demo_trees) 0 (length (encs demo_trees)) 0 \<lparr>queue = [], mallocs = 0\<rparr> =
    Some (TEE_SUCCESS, \<lparr>queue = flats 0 demo_trees, mallocs = length (flats 0 demo_trees)\<rparr>)"
proof -
  have "wf_conf demo_trees" "demo_trees \<noteq> []" by (simp_all add: demo_trees_def)
  then show ?thesis
    using parse_dyn_conf_flattens[of demo_trees "\<lambda>k. True" "\<lparr>queue = [], mallocs = 0\<rparr>"] by simp
qed




end
