(* ===== verification/Ta_Conf.thy ===== *)
theory Ta_Conf
  imports Dyn_Conf
begin

text \<open>
  The configuration of a trusted application, \<open>struct config_info\<close> of
  \<open>lib/syslib/libdynconfbuilder/include/ta_config_builder.h\<close>, and its builder from a queue of dynamic
  configuration elements, \<open>lib/syslib/libdynconfbuilder/src/ta_config_builder.c\<close>.  \<open>m\<close> is the buffer with the
  text, \<open>q\<close> the queue.  The build option \<open>CONFIG_APP_TEE_SE\<close>, which adds three tags, is the argument \<open>se\<close>.
  The list of callee applications is kept with the first element of the C list first.
\<close>

section \<open>The configuration\<close>

record ta_manifest_info =
  single_instance :: bool
  multi_session :: bool
  multi_command :: bool
  instance_keep_alive :: bool
  heap_size :: u32
  stack_size :: u32
  mem_page_align :: bool
  target_type :: u32
  sys_verify_ta :: bool

record callee_ta_info =
  callee_uuid :: TEE_UUID
  command_num :: u32
  command_id :: "u32 list"

record ta_control_info =
  sfs_permissions :: u64
  se_permissions :: u64
  cert_permissions :: u64
  ta_manager :: u32
  callee_info :: "callee_ta_info list"
  debug_status :: bool
  valid_device :: bool

record task_config =
  tc_taskid :: u32
  tc_userid :: u32

record config_info =
  cf_uuid :: TEE_UUID
  service_name :: "u8 list"
  service_name_len :: u32
  cf_version :: u32
  manifest_info :: ta_manifest_info
  control_info :: ta_control_info
  task_config_list :: "task_config list"

abbreviation (input) MAX_SERVICE_NAME_LEN :: nat where "MAX_SERVICE_NAME_LEN \<equiv> 40"
abbreviation (input) TLV_DEVICE_ID_LEN :: nat where "TLV_DEVICE_ID_LEN \<equiv> 64"
abbreviation (input) DEVICE_ID_LEN :: nat where "DEVICE_ID_LEN \<equiv> 32"
abbreviation (input) SE_OPEN_SESSION_PERMISSION :: u64 where "SE_OPEN_SESSION_PERMISSION \<equiv> 1"

definition zero_config :: config_info where
  "zero_config = \<lparr>cf_uuid = \<lparr>timeLow = 0, timeMid = 0, timeHiAndVersion = 0, clockSeqAndNode = replicate 8 0\<rparr>,
    service_name = replicate 40 0, service_name_len = 0, cf_version = 0,
    manifest_info = \<lparr>single_instance = False, multi_session = False, multi_command = False, instance_keep_alive = False,
      heap_size = 0, stack_size = 0, mem_page_align = False, target_type = 0, sys_verify_ta = False\<rparr>,
    control_info = \<lparr>sfs_permissions = 0, se_permissions = 0, cert_permissions = 0, ta_manager = 0, callee_info = [],
      debug_status = False, valid_device = False\<rparr>,
    task_config_list = []\<rparr>"


section \<open>The device id\<close>

text \<open>\<open>hex2str\<close> for a destination that is large enough, which its one caller provides.\<close>

definition hex_char :: "u8 \<Rightarrow> u8" where
  "hex_char n = (if n < 10 then 48 + n else 55 + n)"

definition hex2str :: "u8 list \<Rightarrow> u8 list" where
  "hex2str source = concat (map (\<lambda>b. [hex_char (drop_bit 4 b), hex_char (b AND 0xf)]) source)"

definition tee_ext_get_device_unique_id :: "u8 list \<Rightarrow> u32 \<times> u8 list" where
  "tee_ext_get_device_unique_id device_unique_id = (TEE_ERROR_GENERIC, device_unique_id)"

definition set_valid_device :: "bool \<Rightarrow> config_info \<Rightarrow> config_info" where
  "set_valid_device b = control_info_update (valid_device_update (\<lambda>_. b))"

definition check_device_id :: "u8 list \<Rightarrow> nat \<Rightarrow> nat \<Rightarrow> config_info \<Rightarrow> (u32 \<times> config_info) option" where
  "check_device_id m buff len config =
    (if len = 0 then Some (TEE_ERROR_BAD_PARAMETERS, config)
     else if valid_device (control_info config) then Some (TEE_SUCCESS, config)
     else if len \<noteq> TLV_DEVICE_ID_LEN then Some (TEE_ERROR_GENERIC, set_valid_device False config)
     else let (ret, unique_id) = tee_ext_get_device_unique_id (replicate DEVICE_ID_LEN 0) in
       if ret \<noteq> TEE_SUCCESS then Some (TEE_ERROR_GENERIC, set_valid_device False config)
       else do {
         bs \<leftarrow> rd_bytes m buff len;
         Some (TEE_SUCCESS, if hex2str unique_id = bs then set_valid_device True config else config)
       })"


section \<open>Tags\<close>

abbreviation (input) CONFIGINFO_TA_BASIC_INFO :: u32 where "CONFIGINFO_TA_BASIC_INFO \<equiv> 1"
abbreviation (input) CONFIGINFO_TA_BASIC_INFO_SERVICE_NAME :: u32 where "CONFIGINFO_TA_BASIC_INFO_SERVICE_NAME \<equiv> 2"
abbreviation (input) CONFIGINFO_TA_BASIC_INFO_SERVICE_NAME_SERVICE_NAME :: u32 where
  "CONFIGINFO_TA_BASIC_INFO_SERVICE_NAME_SERVICE_NAME \<equiv> 3"
abbreviation (input) CONFIGINFO_TA_BASIC_INFO_UUID :: u32 where "CONFIGINFO_TA_BASIC_INFO_UUID \<equiv> 4"
abbreviation (input) CONFIGINFO_TA_BASIC_INFO_UUID_UUID :: u32 where "CONFIGINFO_TA_BASIC_INFO_UUID_UUID \<equiv> 5"
abbreviation (input) CONFIGINFO_TA_MANIFEST_INFO :: u32 where "CONFIGINFO_TA_MANIFEST_INFO \<equiv> 6"
abbreviation (input) CONFIGINFO_INSTANCE_KEEP_ALIVE :: u32 where "CONFIGINFO_INSTANCE_KEEP_ALIVE \<equiv> 7"
abbreviation (input) CONFIGINFO_STACK_SIZE :: u32 where "CONFIGINFO_STACK_SIZE \<equiv> 9"
abbreviation (input) CONFIGINFO_HEAP_SIZE :: u32 where "CONFIGINFO_HEAP_SIZE \<equiv> 11"
abbreviation (input) CONFIGINFO_TARGET_TYPE :: u32 where "CONFIGINFO_TARGET_TYPE \<equiv> 13"
abbreviation (input) CONFIGINFO_MULTI_COMMAND :: u32 where "CONFIGINFO_MULTI_COMMAND \<equiv> 15"
abbreviation (input) CONFIGINFO_MULTI_SESSION :: u32 where "CONFIGINFO_MULTI_SESSION \<equiv> 17"
abbreviation (input) CONFIGINFO_SINGLE_INSTANCE :: u32 where "CONFIGINFO_SINGLE_INSTANCE \<equiv> 19"
abbreviation (input) CONFIGINFO_TA_CONTROL_INFO :: u32 where "CONFIGINFO_TA_CONTROL_INFO \<equiv> 21"
abbreviation (input) CONFIGINFO_SE_INFO :: u32 where "CONFIGINFO_SE_INFO \<equiv> 22"
abbreviation (input) CONFIGINFO_SE_OPEN_SESSION :: u32 where "CONFIGINFO_SE_OPEN_SESSION \<equiv> 23"

text \<open>The tag numbers behind the secure element ones, which exist only in builds with that option.\<close>

definition debug_base :: "bool \<Rightarrow> u32" where
  "debug_base se = (if se then 25 else 22)"

abbreviation (input) CONFIGINFO_DEBUG_INFO :: "bool \<Rightarrow> u32" where "CONFIGINFO_DEBUG_INFO se \<equiv> debug_base se"
abbreviation (input) CONFIGINFO_DEBUG_STATUS :: "bool \<Rightarrow> u32" where "CONFIGINFO_DEBUG_STATUS se \<equiv> debug_base se + 1"
abbreviation (input) CONFIGINFO_DEBUG_DEVICE_ID :: "bool \<Rightarrow> u32" where "CONFIGINFO_DEBUG_DEVICE_ID se \<equiv> debug_base se + 3"


section \<open>Basic information\<close>

text \<open>A walk below a node, with every error reported as \<open>TEE_ERROR_GENERIC\<close> as all builders do.\<close>

definition sub_build :: "conf_node_t list \<Rightarrow> 'o handler_conf_to_obj option \<Rightarrow> nat \<Rightarrow> 'o \<Rightarrow> (u32 \<times> nat \<times> 'o) option" where
  "sub_build q handle pos obj = do {
     (ret, pos, obj) \<leftarrow> handle_conf_node_to_obj q handle pos obj;
     Some (if ret \<noteq> TEE_SUCCESS then TEE_ERROR_GENERIC else TEE_SUCCESS, pos, obj)
   }"

text \<open>The callback of an element that holds one value: \<open>f\<close> on the value when the tag is the expected one.\<close>

definition leaf_build :: "u32 \<Rightarrow> (conf_node_t \<Rightarrow> 'o \<Rightarrow> (u32 \<times> 'o) option) \<Rightarrow> 'o handler_conf_to_obj" where
  "leaf_build tag f pos node obj =
    (if n_tag node = tag then do { (ret, obj) \<leftarrow> f node obj;
       Some (if ret \<noteq> TEE_SUCCESS then TEE_ERROR_GENERIC else TEE_SUCCESS, pos, obj) }
     else Some (TEE_SUCCESS, pos, obj))"

definition value_is_true :: "u8 list \<Rightarrow> conf_node_t \<Rightarrow> bool option" where
  "value_is_true m node = (if n_size node = 1 then do { b \<leftarrow> rd m (n_value node); Some (b = 49) } else Some False)"

definition flag_build :: "u8 list \<Rightarrow> u32 \<Rightarrow> ('o \<Rightarrow> 'o) \<Rightarrow> 'o handler_conf_to_obj" where
  "flag_build m tag set_flag = leaf_build tag (\<lambda>node obj. do {
     t \<leftarrow> value_is_true m node; Some (TEE_SUCCESS, if t then set_flag obj else obj) })"

definition handle_ta_basic_info_service_name ::
  "u8 list \<Rightarrow> nat \<Rightarrow> nat \<Rightarrow> config_info \<Rightarrow> (u32 \<times> config_info) option" where
  "handle_ta_basic_info_service_name m sz value cfg_info =
    (if sz = 0 \<or> sz \<ge> MAX_SERVICE_NAME_LEN then Some (TEE_ERROR_BAD_PARAMETERS, cfg_info)
     else do {
       bs \<leftarrow> rd_bytes m value sz;
       Some (TEE_SUCCESS, cfg_info\<lparr>service_name := bs @ 0 # drop (Suc sz) (service_name cfg_info),
         service_name_len := of_nat sz\<rparr>)
     })"

definition build_ta_basic_info_service_name :: "u8 list \<Rightarrow> config_info handler_conf_to_obj" where
  "build_ta_basic_info_service_name m = leaf_build CONFIGINFO_TA_BASIC_INFO_SERVICE_NAME_SERVICE_NAME
    (\<lambda>node. handle_ta_basic_info_service_name m (n_size node) (n_value node))"

definition handle_ta_basic_info_uuid :: "u8 list \<Rightarrow> nat \<Rightarrow> nat \<Rightarrow> config_info \<Rightarrow> (u32 \<times> config_info) option" where
  "handle_ta_basic_info_uuid m sz value cfg_info =
    (if sz = 0 \<or> sz > MAX_UUID_SIZE then Some (TEE_ERROR_BAD_PARAMETERS, cfg_info)
     else do {
       (ret, uuid) \<leftarrow> tlv_to_uuid m value sz (cf_uuid cfg_info);
       Some (ret, cfg_info\<lparr>cf_uuid := uuid\<rparr>)
     })"

definition build_ta_basic_info_uuid :: "u8 list \<Rightarrow> config_info handler_conf_to_obj" where
  "build_ta_basic_info_uuid m = leaf_build CONFIGINFO_TA_BASIC_INFO_UUID_UUID
    (\<lambda>node. handle_ta_basic_info_uuid m (n_size node) (n_value node))"

definition build_ta_basic_info :: "u8 list \<Rightarrow> conf_node_t list \<Rightarrow> config_info handler_conf_to_obj" where
  "build_ta_basic_info m q pos node cfg_info =
    (if n_tag node = CONFIGINFO_TA_BASIC_INFO_SERVICE_NAME
     then sub_build q (Some (build_ta_basic_info_service_name m)) pos cfg_info
     else if n_tag node = CONFIGINFO_TA_BASIC_INFO_UUID
     then sub_build q (Some (build_ta_basic_info_uuid m)) pos cfg_info
     else sub_build q None pos cfg_info)"


section \<open>Manifest\<close>

definition build_ta_mani_info_instance_keep_alive :: "u8 list \<Rightarrow> config_info handler_conf_to_obj" where
  "build_ta_mani_info_instance_keep_alive m = flag_build m (CONFIGINFO_INSTANCE_KEEP_ALIVE + 1)
    (manifest_info_update (instance_keep_alive_update (\<lambda>_. True)))"

definition build_ta_mani_info_multi_command :: "u8 list \<Rightarrow> config_info handler_conf_to_obj" where
  "build_ta_mani_info_multi_command m = flag_build m (CONFIGINFO_MULTI_COMMAND + 1)
    (manifest_info_update (multi_command_update (\<lambda>_. True)))"

definition build_ta_mani_info_multi_session :: "u8 list \<Rightarrow> config_info handler_conf_to_obj" where
  "build_ta_mani_info_multi_session m = flag_build m (CONFIGINFO_MULTI_SESSION + 1)
    (manifest_info_update (multi_session_update (\<lambda>_. True)))"

definition build_ta_mani_info_single_instance :: "u8 list \<Rightarrow> config_info handler_conf_to_obj" where
  "build_ta_mani_info_single_instance m = flag_build m (CONFIGINFO_SINGLE_INSTANCE + 1)
    (manifest_info_update (single_instance_update (\<lambda>_. True)))"

text \<open>The shared body of the three functions that read a decimal number of 32 bits.\<close>

definition conf_u32 :: "u8 list \<Rightarrow> nat \<Rightarrow> nat \<Rightarrow> u32 \<Rightarrow> (u32 \<times> u32) option" where
  "conf_u32 m sz value old =
    (if sz > MAX_UINT32_LEN \<or> sz = 0 then Some (TEE_ERROR_BAD_PARAMETERS, old)
     else do {
       bs \<leftarrow> rd_bytes m value sz;
       (ret, tmp) \<leftarrow> trans_str_to_int (bs @ [0]) 0 sz BASE_OF_TEN 0;
       if ret \<noteq> TEE_SUCCESS then Some (TEE_ERROR_GENERIC, old)
       else if tmp > 0xFFFFFFFF then Some (TEE_ERROR_GENERIC, old)
       else Some (TEE_SUCCESS, ucast tmp)
     })"

definition handle_ta_mani_info_stack_size :: "u8 list \<Rightarrow> nat \<Rightarrow> nat \<Rightarrow> u32 \<Rightarrow> (u32 \<times> u32) option" where
  "handle_ta_mani_info_stack_size m sz value old_stack_size = conf_u32 m sz value old_stack_size"

definition build_ta_mani_info_stack_size :: "u8 list \<Rightarrow> config_info handler_conf_to_obj" where
  "build_ta_mani_info_stack_size m = leaf_build (CONFIGINFO_STACK_SIZE + 1) (\<lambda>node cfg. do {
     (ret, v) \<leftarrow> handle_ta_mani_info_stack_size m (n_size node) (n_value node) (stack_size (manifest_info cfg));
     Some (ret, manifest_info_update (stack_size_update (\<lambda>_. v)) cfg) })"

definition handle_ta_mani_info_heap_size :: "u8 list \<Rightarrow> nat \<Rightarrow> nat \<Rightarrow> u32 \<Rightarrow> (u32 \<times> u32) option" where
  "handle_ta_mani_info_heap_size m sz value old_heap_size = conf_u32 m sz value old_heap_size"

definition build_ta_mani_info_heap_size :: "u8 list \<Rightarrow> config_info handler_conf_to_obj" where
  "build_ta_mani_info_heap_size m = leaf_build (CONFIGINFO_HEAP_SIZE + 1) (\<lambda>node cfg. do {
     (ret, v) \<leftarrow> handle_ta_mani_info_heap_size m (n_size node) (n_value node) (heap_size (manifest_info cfg));
     Some (ret, manifest_info_update (heap_size_update (\<lambda>_. v)) cfg) })"

definition handle_ta_mani_info_target_type :: "u8 list \<Rightarrow> nat \<Rightarrow> nat \<Rightarrow> u32 \<Rightarrow> (u32 \<times> u32) option" where
  "handle_ta_mani_info_target_type m sz value old_target_type = conf_u32 m sz value old_target_type"

definition build_ta_mani_info_target_type :: "u8 list \<Rightarrow> config_info handler_conf_to_obj" where
  "build_ta_mani_info_target_type m = leaf_build (CONFIGINFO_TARGET_TYPE + 1) (\<lambda>node cfg. do {
     (ret, v) \<leftarrow> handle_ta_mani_info_target_type m (n_size node) (n_value node) (target_type (manifest_info cfg));
     Some (ret, manifest_info_update (target_type_update (\<lambda>_. v)) cfg) })"

text \<open>The table of builders; none of its entries has a check function.\<close>

definition ta_mani_funcs :: "u8 list \<Rightarrow> (u32 \<times> config_info handler_conf_to_obj) list" where
  "ta_mani_funcs m =
    [(CONFIGINFO_INSTANCE_KEEP_ALIVE, build_ta_mani_info_instance_keep_alive m),
     (CONFIGINFO_STACK_SIZE, build_ta_mani_info_stack_size m),
     (CONFIGINFO_HEAP_SIZE, build_ta_mani_info_heap_size m),
     (CONFIGINFO_TARGET_TYPE, build_ta_mani_info_target_type m),
     (CONFIGINFO_MULTI_COMMAND, build_ta_mani_info_multi_command m),
     (CONFIGINFO_MULTI_SESSION, build_ta_mani_info_multi_session m),
     (CONFIGINFO_SINGLE_INSTANCE, build_ta_mani_info_single_instance m)]"

definition build_ta_mani_info :: "u8 list \<Rightarrow> conf_node_t list \<Rightarrow> config_info handler_conf_to_obj" where
  "build_ta_mani_info m q pos node cfg_info =
    (case find (\<lambda>e. n_tag node = fst e) (ta_mani_funcs m) of
       Some e \<Rightarrow> sub_build q (Some (snd e)) pos cfg_info
     | None \<Rightarrow> sub_build q None pos cfg_info)"


section \<open>Control information\<close>

definition build_ta_control_info_se_open_session :: "u8 list \<Rightarrow> config_info handler_conf_to_obj" where
  "build_ta_control_info_se_open_session m = flag_build m (CONFIGINFO_SE_OPEN_SESSION + 1)
    (control_info_update (se_permissions_update (\<lambda>p. p OR SE_OPEN_SESSION_PERMISSION)))"

definition build_ta_control_info_se_info :: "u8 list \<Rightarrow> conf_node_t list \<Rightarrow> config_info handler_conf_to_obj" where
  "build_ta_control_info_se_info m q pos node cfg_info =
    (if n_tag node = CONFIGINFO_SE_OPEN_SESSION
     then sub_build q (Some (build_ta_control_info_se_open_session m)) pos cfg_info
     else sub_build q None pos cfg_info)"

definition build_ta_control_info_debug_status :: "bool \<Rightarrow> u8 list \<Rightarrow> config_info handler_conf_to_obj" where
  "build_ta_control_info_debug_status se m = flag_build m (CONFIGINFO_DEBUG_STATUS se + 1)
    (control_info_update (debug_status_update (\<lambda>_. True)))"

definition handle_ta_control_info_debug_device_id ::
  "u8 list \<Rightarrow> conf_node_t \<Rightarrow> config_info \<Rightarrow> (u32 \<times> config_info) option" where
  "handle_ta_control_info_debug_device_id m node cfg_info =
    (if n_size node \<noteq> TLV_DEVICE_ID_LEN then Some (TEE_ERROR_BAD_PARAMETERS, cfg_info)
     else do {
       bs \<leftarrow> rd_bytes m (n_value node) (n_size node);
       (ret, cfg_info) \<leftarrow> check_device_id (bs @ [0]) 0 (n_size node) cfg_info;
       Some (if ret \<noteq> TEE_SUCCESS then TEE_ERROR_GENERIC else TEE_SUCCESS, cfg_info)
     })"

definition build_ta_control_info_debug_device_id :: "bool \<Rightarrow> u8 list \<Rightarrow> config_info handler_conf_to_obj" where
  "build_ta_control_info_debug_device_id se m = leaf_build (CONFIGINFO_DEBUG_DEVICE_ID se + 1)
    (\<lambda>node. handle_ta_control_info_debug_device_id m node)"

definition build_ta_control_info_debug_info :: "bool \<Rightarrow> u8 list \<Rightarrow> conf_node_t list \<Rightarrow> config_info handler_conf_to_obj" where
  "build_ta_control_info_debug_info se m q pos node cfg_info =
    (if n_tag node = CONFIGINFO_DEBUG_STATUS se
     then sub_build q (Some (build_ta_control_info_debug_status se m)) pos cfg_info
     else if n_tag node = CONFIGINFO_DEBUG_DEVICE_ID se
     then sub_build q (Some (build_ta_control_info_debug_device_id se m)) pos cfg_info
     else sub_build q None pos cfg_info)"

definition build_ta_control_info :: "bool \<Rightarrow> u8 list \<Rightarrow> conf_node_t list \<Rightarrow> config_info handler_conf_to_obj" where
  "build_ta_control_info se m q pos node cfg_info =
    (if se \<and> n_tag node = CONFIGINFO_SE_INFO
     then sub_build q (Some (build_ta_control_info_se_info m q)) pos cfg_info
     else if n_tag node = CONFIGINFO_DEBUG_INFO se
     then sub_build q (Some (build_ta_control_info_debug_info se m q)) pos cfg_info
     else sub_build q None pos cfg_info)"


section \<open>The whole configuration\<close>

definition build_ta_config :: "bool \<Rightarrow> u8 list \<Rightarrow> conf_node_t list \<Rightarrow> config_info handler_conf_to_obj" where
  "build_ta_config se m q pos node cfg_info =
    (if n_tag node = CONFIGINFO_TA_BASIC_INFO then sub_build q (Some (build_ta_basic_info m q)) pos cfg_info
     else if n_tag node = CONFIGINFO_TA_MANIFEST_INFO then sub_build q (Some (build_ta_mani_info m q)) pos cfg_info
     else if n_tag node = CONFIGINFO_TA_CONTROL_INFO then sub_build q (Some (build_ta_control_info se m q)) pos cfg_info
     else sub_build q None pos cfg_info)"

definition install_ta_config ::
  "bool \<Rightarrow> u8 list \<Rightarrow> conf_queue_t \<Rightarrow> config_info \<Rightarrow> (u32 \<times> conf_queue_t \<times> config_info) option" where
  "install_ta_config se m conf_queue obj =
    (let q = queue conf_queue; cfg_info = zero_config in
     if q = [] then Some (TEE_SUCCESS, conf_queue, cfg_info)
     else do {
       (ret, pos, cfg_info) \<leftarrow> handle_conf_node_to_obj q (Some (build_ta_config se m q)) 0 cfg_info;
       Some (ret, conf_queue, cfg_info)
     })"

end
