(* ===== verification/Ta_Conf_Build.thy ===== *)
theory Ta_Conf_Build
  imports Dyn_Conf_Tree Ta_Conf
begin

text \<open>
  Correctness of the builder of application configurations.  Each callback meets the contract
  \<open>conf_handler\<close> with an effect that depends on the values of the elements only, so the installed
  configuration is the one that the text describes.  \<open>config_trees\<close> writes a configuration as elements; reading
  it back gives the same configuration, provided that the memory behind the buffer holds a NUL byte: the UUID
  is read with \<open>strlen\<close> from a buffer that has no terminator.
\<close>

section \<open>Effects of values\<close>

text \<open>The effect of a value, computed by the same handler on the value alone.\<close>

definition value_node :: "u32 \<Rightarrow> u32 \<Rightarrow> u8 list \<Rightarrow> conf_node_t" where
  "value_node tag type v = \<lparr>n_tag = tag, n_type = type, n_size = length v, n_value = 0\<rparr>"

fun leaf_eff :: "u32 \<Rightarrow> (u8 list \<Rightarrow> conf_node_t \<Rightarrow> 'o \<Rightarrow> (u32 \<times> 'o) option) \<Rightarrow> conf_tree \<Rightarrow> 'o \<Rightarrow> u32 \<times> 'o" where
  "leaf_eff tag f (Conf_Leaf t y v) obj =
    (if t = tag then (case f (v @ [0]) (value_node t y v) obj of
       Some (ret, obj') \<Rightarrow> (if ret \<noteq> TEE_SUCCESS then TEE_ERROR_GENERIC else TEE_SUCCESS, obj') | None \<Rightarrow> (TEE_SUCCESS, obj))
     else (TEE_SUCCESS, obj))"
| "leaf_eff tag f (Conf_Class t cs) obj = (TEE_SUCCESS, obj)"

definition norm_ret :: "u32 \<times> 'o \<Rightarrow> u32 \<times> 'o" where
  "norm_ret r = (if fst r \<noteq> TEE_SUCCESS then TEE_ERROR_GENERIC else TEE_SUCCESS, snd r)"

lemma norm_ret_simps [simp]: "norm_ret (0, obj) = (0, obj)" "fst (norm_ret r) = 0 \<longleftrightarrow> fst r = 0" "snd (norm_ret r) = snd r"
  by (simp_all add: norm_ret_def)

text \<open>A handler of values is local when it reads no more than the value, and one byte behind it that is NUL.\<close>

definition local_on :: "(u8 list \<Rightarrow> bool) \<Rightarrow> (u8 list \<Rightarrow> conf_node_t \<Rightarrow> 'o \<Rightarrow> (u32 \<times> 'o) option) \<Rightarrow> bool" where
  "local_on ok f \<longleftrightarrow> (\<forall>m node v obj. v \<noteq> [] \<longrightarrow> ok v \<longrightarrow> n_size node = length v \<longrightarrow> seg m (n_value node) v \<longrightarrow>
    (\<exists>ret obj'. f (m @ [0]) node obj = Some (ret, obj') \<and> f (v @ [0]) (node\<lparr>n_value := 0\<rparr>) obj = Some (ret, obj')))"

definition leaf_ok :: "(u8 list \<Rightarrow> bool) \<Rightarrow> u32 \<Rightarrow> conf_tree \<Rightarrow> bool" where
  "leaf_ok ok tag t = (case t of Conf_Leaf t' y v \<Rightarrow> t' = tag \<longrightarrow> ok v | Conf_Class t' cs \<Rightarrow> False)"

lemma leaf_build_is_handler:
  assumes "local_on ok f"
  shows "conf_handler q m (Some (leaf_build tag (f (m @ [0])))) (leaf_ok ok tag) (leaf_eff tag f)"
proof
  fix t pos a obj
  assume good: "leaf_ok ok tag t" and wf: "wf_conf [t]" and q: "seg q pos (flats a [t])" and mem: "seg m a (encs [t])"
  obtain t' y v where t: "t = Conf_Leaf t' y v" using good by (cases t) (auto simp: leaf_ok_def)
  have node: "q ! pos = \<lparr>n_tag = t', n_type = y, n_size = length v, n_value = a + 8\<rparr>" using q t by (simp add: seg_Cons)
  show "visited (pos + length (flats a [t])) (leaf_eff tag f t obj) (call_handle (Some (leaf_build tag (f (m @ [0])))) pos (q ! pos) obj)"
  proof (cases "t' = tag")
    case True
    have v: "v \<noteq> []" "ok v" using wf good t True by (auto simp: leaf_ok_def)
    have "seg m (a + 8) v" using mem t by (simp add: seg_append)
    then obtain ret obj' where "f (m @ [0]) (q ! pos) obj = Some (ret, obj')" "f (v @ [0]) (value_node t' y v) obj = Some (ret, obj')"
      using assms[unfolded local_on_def, rule_format, of v "q ! pos" m obj] v by (auto simp: node value_node_def)
    then show ?thesis
      using True by (simp add: t leaf_build_def node)
  qed (auto simp: t node leaf_build_def)
qed

lemma sub_build_visits:
  assumes "conf_handler q m h good eff" "list_all good cs" "wf_conf [Conf_Class tag cs]"
    and "seg q pos (flats a [Conf_Class tag cs])" "seg m a (encs [Conf_Class tag cs])"
  shows "visited (pos + length (flats a [Conf_Class tag cs])) (norm_ret (run_trees eff cs obj)) (sub_build q h pos obj)"
  using conf_handler.walk_visits[OF assms, of obj] by (elim visitedE) (auto simp: sub_build_def norm_ret_def)

text \<open>
  A builder that chooses the callback for the children of an element by its tag: \<open>sel\<close> gives, for a tag, the
  callback with the trees it accepts and its effect.
\<close>

fun class_eff :: "(u32 \<Rightarrow> conf_tree \<Rightarrow> 'o \<Rightarrow> u32 \<times> 'o) \<Rightarrow> conf_tree \<Rightarrow> 'o \<Rightarrow> u32 \<times> 'o" where
  "class_eff eff (Conf_Class t cs) obj = norm_ret (run_trees (eff t) cs obj)"
| "class_eff eff (Conf_Leaf t y v) obj = (TEE_SUCCESS, obj)"

definition class_ok :: "(u32 \<Rightarrow> conf_tree \<Rightarrow> bool) \<Rightarrow> conf_tree \<Rightarrow> bool" where
  "class_ok good t = (case t of Conf_Class t' cs \<Rightarrow> list_all (good t') cs | Conf_Leaf t' y v \<Rightarrow> False)"

lemma class_build_is_handler:
  assumes "\<And>pos node obj. b pos node obj = sub_build q (h (n_tag node)) pos obj"
    and "\<And>tag. conf_handler q m (h tag) (good tag) (eff tag)"
  shows "conf_handler q m (Some b) (class_ok good) (class_eff eff)"
proof
  fix t pos a obj
  assume good: "class_ok good t" and wf: "wf_conf [t]" and q: "seg q pos (flats a [t])" and mem: "seg m a (encs [t])"
  obtain tag cs where t: "t = Conf_Class tag cs" and cs: "list_all (good tag) cs"
    using good by (cases t) (auto simp: class_ok_def)
  have "n_tag (q ! pos) = tag" using q t by (simp add: seg_Cons)
  then show "visited (pos + length (flats a [t])) (class_eff eff t obj) (call_handle (Some b) pos (q ! pos) obj)"
    using sub_build_visits[OF assms(2) cs wf[unfolded t] q[unfolded t] mem[unfolded t]] by (simp add: assms(1) t)
qed

lemma run_trees_skip [simp]: "run_trees (\<lambda>t obj. (0, obj)) cs obj = (0, obj)"
  by (induction cs) auto

lemma class_eff_cong: "(\<And>t. eff t = eff' t) \<Longrightarrow> class_eff eff = class_eff eff'"
  by presburger


section \<open>The handlers of values are local\<close>

lemma rd_bytes_local:
  assumes "seg m a v" "v \<noteq> []"
  shows "rd_bytes (m @ [0]) a (length v) = Some v" "rd_bytes (v @ [0]) 0 (length v) = Some v"
    "length v = 1 \<Longrightarrow> rd (m @ [0]) a = Some (v ! 0)" "length v = 1 \<Longrightarrow> rd (v @ [0]) 0 = Some (v ! 0)"
proof -
  have s: "seg (m @ [0]) a v" "seg (v @ [0]) 0 v" by (rule seg_appendI[OF assms(1)], rule seg_start)
  show "rd_bytes (m @ [0]) a (length v) = Some v" "rd_bytes (v @ [0]) 0 (length v) = Some v"
    by (rule seg_rd_bytes[OF s(1) assms(2)], rule seg_rd_bytes[OF s(2) assms(2)])
  assume "length v = 1"
  then obtain b where "v = [b]" by (auto simp: length_Suc_conv)
  then show "rd (m @ [0]) a = Some (v ! 0)" "rd (v @ [0]) 0 = Some (v ! 0)" using s by (auto dest: seg_rd)
qed

lemma local_flag: "local_on (\<lambda>v. True) (\<lambda>m node obj. do { t \<leftarrow> value_is_true m node; Some (TEE_SUCCESS, if t then g obj else obj) })"
  unfolding local_on_def value_is_true_def by (auto simp: rd_bytes_local)

lemma local_name: "local_on (\<lambda>v. True) (\<lambda>m node. handle_ta_basic_info_service_name m (n_size node) (n_value node))"
  unfolding local_on_def handle_ta_basic_info_service_name_def by (auto simp: rd_bytes_local)

lemma trans_own: "\<exists>r n. trans_str_to_int (v @ [0]) 0 (length v) base num = Some (r, n)"
  using trans_str_to_int_defined[of 0 "length v" "v @ [0]" base num] by (auto simp: okay_iff)

lemma conf_u32_local:
  assumes "seg m a v" "v \<noteq> []"
  shows "\<exists>ret n. conf_u32 (m @ [0]) (length v) a old = Some (ret, n) \<and> conf_u32 (v @ [0]) (length v) 0 old = Some (ret, n)"
proof -
  obtain r n where "trans_str_to_int (v @ [0]) 0 (length v) 10 0 = Some (r, n)" using trans_own by blast
  then show ?thesis
    using rd_bytes_local[OF assms] by (auto simp: conf_u32_def)
qed

lemma local_u32: "local_on (\<lambda>v. True) (\<lambda>m node cfg. do { (ret, v) \<leftarrow> conf_u32 m (n_size node) (n_value node) (get cfg); Some (ret, put v cfg) })"
  unfolding local_on_def
proof (intro allI impI)
  fix m and node :: conf_node_t and v cfg
  assume a: "v \<noteq> []" "n_size node = length (v :: u8 list)" "seg m (n_value node) v"
  show "\<exists>ret obj'. (conf_u32 (m @ [0]) (n_size node) (n_value node) (get cfg) \<bind> (\<lambda>(ret, v). Some (ret, put v cfg))) = Some (ret, obj') \<and>
      (conf_u32 (v @ [0]) (n_size (node\<lparr>n_value := 0\<rparr>)) (n_value (node\<lparr>n_value := 0\<rparr>)) (get cfg) \<bind> (\<lambda>(ret, v). Some (ret, put v cfg))) = Some (ret, obj')"
    using conf_u32_local[OF a(3,1), of "get cfg"] a(2) by auto
qed

lemma local_device: "local_on (\<lambda>v. True) (\<lambda>m node. handle_ta_control_info_debug_device_id m node)"
  unfolding local_on_def
proof (intro allI impI)
  fix m and node :: conf_node_t and v cfg
  assume a: "v \<noteq> []" "n_size node = length (v :: u8 list)" "seg m (n_value node) v"
  have "check_device_id (v @ [0]) 0 (length v) cfg \<noteq> None"
    by (simp add: check_device_id_def tee_ext_get_device_unique_id_def)
  then obtain ret cfg' where "check_device_id (v @ [0]) 0 (length v) cfg = Some (ret, cfg')"
    by (cases "check_device_id (v @ [0]) 0 (length v) cfg") auto
  then show "\<exists>ret obj'. handle_ta_control_info_debug_device_id (m @ [0]) node cfg = Some (ret, obj') \<and>
      handle_ta_control_info_debug_device_id (v @ [0]) (node\<lparr>n_value := 0\<rparr>) cfg = Some (ret, obj')"
    using rd_bytes_local(1,2)[OF a(3,1)] a(2)
    by (cases "length v = 64") (auto simp: handle_ta_control_info_debug_device_id_def)
qed


text \<open>UUIDs: the text of 36 characters is read as the UUID it was written from.\<close>

lemma trans_seg:
  assumes "seg m off (digits base k n)" "base = 10 \<or> base = 16" "0 < k" "k \<le> 16" "n < base ^ k" "n < 2 ^ 64"
  shows "trans_str_to_int m off k base num = Some (TEE_SUCCESS, of_nat n)"
proof -
  have ne: "digits base k n \<noteq> []" using assms(3) by (metis length_digits less_irrefl list.size(3))
  have "m = take off m @ digits base k n @ drop (off + k) m"
    using assms(1) unfolding seg_def by (metis append_take_drop_id drop_drop add.commute length_digits)
  moreover have "off = length (take off m)" using seg_le[OF assms(1) ne] by simp
  ultimately show ?thesis using trans_digits assms by metis
qed

lemma trans_places_uuid:
  assumes "seg m a (uuid_str u)"
  shows "trans_places m a uuid_places = Some (False, ucast (timeLow u) # ucast (timeMid u) # ucast (timeHiAndVersion u) #
    map (\<lambda>i. ucast (clockSeqAndNode u ! i)) [0, 1, 2, 3, 4, 5, 6, 7])"
proof -
  note s = seg_uuid_str[OF assms]
  have b: "unat w < 16 ^ 2" "unat w < 2 ^ 64" for w :: u8
    using unsigned_less[of w, where 'a = nat] by simp_all
  have h: "unat w < 16 ^ 4" "unat w < 2 ^ 64" for w :: u16
    using unsigned_less[of w, where 'a = nat] by simp_all
  have l: "unat w < 16 ^ 8" "unat w < 2 ^ 64" for w :: u32
    using unat_lt_u32[of w] by simp_all
  note t8 = trans_seg[of m _ 16 8, simplified, OF _ l[simplified]]
  note t4 = trans_seg[of m _ 16 4, simplified, OF _ h[simplified]]
  note t2 = trans_seg[of m _ 16 2, simplified, OF _ b[simplified]]
  show ?thesis
    by (simp add: uuid_places_def t8[OF s(1)] t4[OF s(3)] t4[OF s(5)] t2[OF s(7)] t2[OF s(8)] t2[OF s(10)] t2[OF s(11)] t2[OF s(12)]
      t2[OF s(13)] t2[OF s(14)] t2[OF s(15)])
qed


lemma takeWhile_0_le: "length (takeWhile (\<lambda>b. b \<noteq> 0) (xs @ [0 :: u8])) \<le> length xs"
  by (induction xs) auto

lemma c_strlen_terminated:
  assumes "seg m a v" "v \<noteq> []" "0 \<notin> set v"
  obtains n where "c_strlen (m @ [0]) a = Some n" "length v \<le> n"
proof -
  have a: "a + length v \<le> length m" by (rule seg_le[OF assms(1,2)])
  have "drop a m = take (length v) (drop a m) @ drop (length v) (drop a m)" by (simp only: append_take_drop_id)
  also have "\<dots> = v @ drop (a + length v) m" using assms(1) by (simp add: seg_def add.commute)
  finally have d: "drop a (m @ [0]) = v @ drop (a + length v) m @ [0]" using a by simp
  let ?n = "length (takeWhile (\<lambda>b. b \<noteq> 0) (drop a (m @ [0])))"
  have v: "\<And>x. x \<in> set v \<Longrightarrow> x \<noteq> 0" using assms(3) by metis
  have n: "?n = length v + length (takeWhile (\<lambda>b. b \<noteq> 0) (drop (a + length v) m @ [0]))"
    unfolding d by (subst takeWhile_append2) (use v in auto)
  have "length (takeWhile (\<lambda>b. b \<noteq> 0) (drop (a + length v) m @ [0])) \<le> length (drop (a + length v) m)"
    by (rule takeWhile_0_le)
  then have "c_strlen (m @ [0]) a = Some ?n" using n a by (simp add: c_strlen_def Let_def)
  then show ?thesis using that n by simp
qed

lemma tlv_to_uuid_text:
  assumes "seg m a (uuid_str u)" "wf_uuid u"
  shows "tlv_to_uuid (m @ [0]) a 36 u0 = Some (TEE_SUCCESS, u)"
proof -
  obtain n where n: "c_strlen (m @ [0]) a = Some n" "36 \<le> n"
    using c_strlen_terminated[OF assms(1) _ uuid_str_not_0] by (metis length_uuid_str list.size(3) zero_neq_numeral)
  have lt: "(ucast (w :: u8) :: u64) \<le> 0xFF" for w
    using unsigned_less[of w, where 'a = nat] by (simp add: word_le_nat_alt unsigned_ucast_eq take_bit_nat_eq_self)
  have lt16: "(ucast (w :: u16) :: u64) \<le> 0xFFFF" for w
    using unsigned_less[of w, where 'a = nat] by (simp add: word_le_nat_alt unsigned_ucast_eq take_bit_nat_eq_self)
  have lt32: "(ucast (w :: u32) :: u64) \<le> 0xFFFFFFFF" for w
    using unat_lt_u32[of w] by (simp add: word_le_nat_alt)
  have uc: "(ucast (ucast (w :: u8) :: u64) :: u8) = w" "(ucast (ucast (x :: u16) :: u64) :: u16) = x" for w x
    by (rule bit_word_eqI; auto simp: bit_simps)+
  have eta: "u = \<lparr>timeLow = timeLow u, timeMid = timeMid u, timeHiAndVersion = timeHiAndVersion u,
      clockSeqAndNode = map (\<lambda>i. clockSeqAndNode u ! i) [0, 1, 2, 3, 4, 5, 6, 7]\<rparr>"
    using list_of_8[of "clockSeqAndNode u"] assms(2) by (cases u) (simp add: wf_uuid_def)
  show ?thesis
    using n unfolding tlv_to_uuid_def
    by (simp add: trans_places_uuid[OF seg_appendI[OF assms(1)]] not_less lt lt16 lt32 uc) (subst eta, simp)
qed

definition uuid_text :: "u8 list \<Rightarrow> bool" where
  "uuid_text v \<longleftrightarrow> (\<exists>u. wf_uuid u \<and> v = uuid_str u)"

lemma handle_uuid_text:
  assumes "seg m a (uuid_str u)" "wf_uuid u"
  shows "handle_ta_basic_info_uuid (m @ [0]) 36 a cfg = Some (TEE_SUCCESS, cfg\<lparr>cf_uuid := u\<rparr>)"
  by (simp add: handle_ta_basic_info_uuid_def tlv_to_uuid_text[OF assms])

lemma local_uuid: "local_on uuid_text (\<lambda>m node. handle_ta_basic_info_uuid m (n_size node) (n_value node))"
  unfolding local_on_def
proof (intro allI impI)
  fix m and node :: conf_node_t and v cfg
  assume a: "uuid_text v" "n_size node = length (v :: u8 list)" "seg m (n_value node) v"
  obtain u where u: "wf_uuid u" "v = uuid_str u" using a(1) by (auto simp: uuid_text_def)
  have "seg v 0 v" by (simp add: seg_def)
  then show "\<exists>ret obj'. handle_ta_basic_info_uuid (m @ [0]) (n_size node) (n_value node) cfg = Some (ret, obj') \<and>
      handle_ta_basic_info_uuid (v @ [0]) (n_size (node\<lparr>n_value := 0\<rparr>)) (n_value (node\<lparr>n_value := 0\<rparr>)) cfg = Some (ret, obj')"
    using handle_uuid_text[of m "n_value node" u cfg] handle_uuid_text[of v 0 u cfg] a(2,3) u by simp
qed


section \<open>The builders meet the contract\<close>

abbreviation (input) skip_eff :: "conf_tree \<Rightarrow> 'o \<Rightarrow> u32 \<times> 'o" where
  "skip_eff \<equiv> \<lambda>t obj. (TEE_SUCCESS, obj)"

definition flag_eff :: "u32 \<Rightarrow> ('o \<Rightarrow> 'o) \<Rightarrow> conf_tree \<Rightarrow> 'o \<Rightarrow> u32 \<times> 'o" where
  "flag_eff tag g = leaf_eff tag (\<lambda>m node obj. do { t \<leftarrow> value_is_true m node; Some (TEE_SUCCESS, if t then g obj else obj) })"

definition u32_eff :: "u32 \<Rightarrow> ('o \<Rightarrow> u32) \<Rightarrow> (u32 \<Rightarrow> 'o \<Rightarrow> 'o) \<Rightarrow> conf_tree \<Rightarrow> 'o \<Rightarrow> u32 \<times> 'o" where
  "u32_eff tag get put = leaf_eff tag
    (\<lambda>m node cfg. do { (ret, v) \<leftarrow> conf_u32 m (n_size node) (n_value node) (get cfg); Some (ret, put v cfg) })"

definition name_eff :: "conf_tree \<Rightarrow> config_info \<Rightarrow> u32 \<times> config_info" where
  "name_eff = leaf_eff 3 (\<lambda>m node. handle_ta_basic_info_service_name m (n_size node) (n_value node))"

definition uuid_eff :: "conf_tree \<Rightarrow> config_info \<Rightarrow> u32 \<times> config_info" where
  "uuid_eff = leaf_eff 5 (\<lambda>m node. handle_ta_basic_info_uuid m (n_size node) (n_value node))"

definition device_eff :: "bool \<Rightarrow> conf_tree \<Rightarrow> config_info \<Rightarrow> u32 \<times> config_info" where
  "device_eff se = leaf_eff (CONFIGINFO_DEBUG_DEVICE_ID se + 1) (\<lambda>m node. handle_ta_control_info_debug_device_id m node)"

lemma leaf_ok_True: "leaf_ok (\<lambda>v. True) tag = is_leaf"
proof
  show "leaf_ok (\<lambda>v. True) tag t = is_leaf t" for t by (cases t) (auto simp: leaf_ok_def)
qed

lemmas true_handler = leaf_build_is_handler[where ok = "\<lambda>v. True", unfolded leaf_ok_True]

lemma flag_is_handler: "conf_handler q m (Some (flag_build (m @ [0]) tag g)) is_leaf (flag_eff tag g)"
  unfolding flag_build_def flag_eff_def
  by (rule true_handler[where f = "\<lambda>m node obj. do { t \<leftarrow> value_is_true m node; Some (TEE_SUCCESS, if t then g obj else obj) }",
    OF local_flag])

lemma u32_is_handler:
  "conf_handler q m (Some (leaf_build tag (\<lambda>node cfg. do {
     (ret, v) \<leftarrow> conf_u32 (m @ [0]) (n_size node) (n_value node) (get cfg); Some (ret, put v cfg) }))) is_leaf (u32_eff tag get put)"
  unfolding u32_eff_def by (rule true_handler[OF local_u32])

interpretation name_h: conf_handler q m "Some (build_ta_basic_info_service_name (m @ [0]))" is_leaf name_eff for q m
  unfolding build_ta_basic_info_service_name_def name_eff_def by (rule true_handler[OF local_name])

interpretation uuid_h: conf_handler q m "Some (build_ta_basic_info_uuid (m @ [0]))" "leaf_ok uuid_text 5" uuid_eff for q m
  unfolding build_ta_basic_info_uuid_def uuid_eff_def by (rule leaf_build_is_handler[OF local_uuid])

interpretation device_h: conf_handler q m "Some (build_ta_control_info_debug_device_id se (m @ [0]))" is_leaf "device_eff se" for q m se
  unfolding build_ta_control_info_debug_device_id_def device_eff_def by (rule true_handler[OF local_device])

text \<open>Basic information.\<close>

definition basic_eff :: "u32 \<Rightarrow> conf_tree \<Rightarrow> config_info \<Rightarrow> u32 \<times> config_info" where
  "basic_eff tag = (if tag = 2 then name_eff else if tag = 4 then uuid_eff else skip_eff)"

definition basic_ok :: "u32 \<Rightarrow> conf_tree \<Rightarrow> bool" where
  "basic_ok tag = (if tag = 4 then leaf_ok uuid_text 5 else is_leaf)"

interpretation basic_h: conf_handler q m "Some (build_ta_basic_info (m @ [0]) q)" "class_ok basic_ok" "class_eff basic_eff" for q m
proof (rule class_build_is_handler[where h = "\<lambda>tag. if tag = 2 then Some (build_ta_basic_info_service_name (m @ [0]))
    else if tag = 4 then Some (build_ta_basic_info_uuid (m @ [0])) else None"])
  show "build_ta_basic_info (m @ [0]) q pos node obj = sub_build q (if n_tag node = 2 then Some (build_ta_basic_info_service_name (m @ [0]))
    else if n_tag node = 4 then Some (build_ta_basic_info_uuid (m @ [0])) else None) pos obj" for pos node obj
    by (simp add: build_ta_basic_info_def)
  show "conf_handler q m (if tag = 2 then Some (build_ta_basic_info_service_name (m @ [0]))
    else if tag = 4 then Some (build_ta_basic_info_uuid (m @ [0])) else None) (basic_ok tag) (basic_eff tag)" for tag
    by (simp add: basic_ok_def basic_eff_def
      name_h.conf_handler_axioms uuid_h.conf_handler_axioms skip.conf_handler_axioms)
qed

text \<open>Manifest.\<close>

definition mani_eff :: "u32 \<Rightarrow> conf_tree \<Rightarrow> config_info \<Rightarrow> u32 \<times> config_info" where
  "mani_eff tag =
    (if tag = 7 then flag_eff 8 (manifest_info_update (instance_keep_alive_update (\<lambda>_. True)))
     else if tag = 9 then u32_eff 10 (\<lambda>c. stack_size (manifest_info c)) (\<lambda>v. manifest_info_update (stack_size_update (\<lambda>_. v)))
     else if tag = 11 then u32_eff 12 (\<lambda>c. heap_size (manifest_info c)) (\<lambda>v. manifest_info_update (heap_size_update (\<lambda>_. v)))
     else if tag = 13 then u32_eff 14 (\<lambda>c. target_type (manifest_info c)) (\<lambda>v. manifest_info_update (target_type_update (\<lambda>_. v)))
     else if tag = 15 then flag_eff 16 (manifest_info_update (multi_command_update (\<lambda>_. True)))
     else if tag = 17 then flag_eff 18 (manifest_info_update (multi_session_update (\<lambda>_. True)))
     else if tag = 19 then flag_eff 20 (manifest_info_update (single_instance_update (\<lambda>_. True)))
     else skip_eff)"

lemmas mani_builds = build_ta_mani_info_instance_keep_alive_def build_ta_mani_info_multi_command_def
  build_ta_mani_info_multi_session_def build_ta_mani_info_single_instance_def build_ta_mani_info_stack_size_def
  build_ta_mani_info_heap_size_def build_ta_mani_info_target_type_def handle_ta_mani_info_stack_size_def
  handle_ta_mani_info_heap_size_def handle_ta_mani_info_target_type_def

interpretation mani_h: conf_handler q m "Some (build_ta_mani_info (m @ [0]) q)" "class_ok (\<lambda>tag. is_leaf)" "class_eff mani_eff" for q m
proof (rule class_build_is_handler[where h = "\<lambda>tag. map_option snd (find (\<lambda>e. tag = fst e) (ta_mani_funcs (m @ [0])))"])
  show "build_ta_mani_info (m @ [0]) q pos node obj =
    sub_build q (map_option snd (find (\<lambda>e. n_tag node = fst e) (ta_mani_funcs (m @ [0])))) pos obj" for pos node obj
    by (simp add: build_ta_mani_info_def split: option.splits)
  show "conf_handler q m (map_option snd (find (\<lambda>e. tag = fst e) (ta_mani_funcs (m @ [0])))) is_leaf (mani_eff tag)" for tag
    by (simp add: ta_mani_funcs_def mani_eff_def mani_builds
      flag_is_handler u32_is_handler skip.conf_handler_axioms)
qed

text \<open>Control information.\<close>

definition se_eff :: "u32 \<Rightarrow> conf_tree \<Rightarrow> config_info \<Rightarrow> u32 \<times> config_info" where
  "se_eff tag = (if tag = 23 then flag_eff 24 (control_info_update (se_permissions_update (\<lambda>p. p OR SE_OPEN_SESSION_PERMISSION)))
    else skip_eff)"

definition debug_eff :: "bool \<Rightarrow> u32 \<Rightarrow> conf_tree \<Rightarrow> config_info \<Rightarrow> u32 \<times> config_info" where
  "debug_eff se tag = (if tag = CONFIGINFO_DEBUG_STATUS se
      then flag_eff (CONFIGINFO_DEBUG_STATUS se + 1) (control_info_update (debug_status_update (\<lambda>_. True)))
    else if tag = CONFIGINFO_DEBUG_DEVICE_ID se then device_eff se else skip_eff)"

interpretation se_h: conf_handler q m "Some (build_ta_control_info_se_info (m @ [0]) q)" "class_ok (\<lambda>tag. is_leaf)" "class_eff se_eff" for q m
proof (rule class_build_is_handler[where h = "\<lambda>tag. if tag = 23 then Some (build_ta_control_info_se_open_session (m @ [0])) else None"])
  show "conf_handler q m (if tag = 23 then Some (build_ta_control_info_se_open_session (m @ [0])) else None) is_leaf (se_eff tag)" for tag
    by (simp add: se_eff_def build_ta_control_info_se_open_session_def flag_is_handler skip.conf_handler_axioms)
qed (simp add: build_ta_control_info_se_info_def)

interpretation debug_h: conf_handler q m "Some (build_ta_control_info_debug_info se (m @ [0]) q)" "class_ok (\<lambda>tag. is_leaf)"
  "class_eff (debug_eff se)" for q m se
proof (rule class_build_is_handler[where h = "\<lambda>tag. if tag = CONFIGINFO_DEBUG_STATUS se
    then Some (build_ta_control_info_debug_status se (m @ [0]))
    else if tag = CONFIGINFO_DEBUG_DEVICE_ID se then Some (build_ta_control_info_debug_device_id se (m @ [0])) else None"])
  show "conf_handler q m (if tag = CONFIGINFO_DEBUG_STATUS se then Some (build_ta_control_info_debug_status se (m @ [0]))
    else if tag = CONFIGINFO_DEBUG_DEVICE_ID se then Some (build_ta_control_info_debug_device_id se (m @ [0])) else None)
    is_leaf (debug_eff se tag)" for tag
    by (simp add: debug_eff_def build_ta_control_info_debug_status_def
      flag_is_handler device_h.conf_handler_axioms skip.conf_handler_axioms)
qed (simp add: build_ta_control_info_debug_info_def)

definition control_eff :: "bool \<Rightarrow> u32 \<Rightarrow> conf_tree \<Rightarrow> config_info \<Rightarrow> u32 \<times> config_info" where
  "control_eff se tag = (if se \<and> tag = 22 then class_eff se_eff
    else if tag = CONFIGINFO_DEBUG_INFO se then class_eff (debug_eff se) else skip_eff)"

definition control_ok :: "bool \<Rightarrow> u32 \<Rightarrow> conf_tree \<Rightarrow> bool" where
  "control_ok se tag = (if se \<and> tag = 22 \<or> tag = CONFIGINFO_DEBUG_INFO se then class_ok (\<lambda>tag. is_leaf) else is_leaf)"

interpretation control_h: conf_handler q m "Some (build_ta_control_info se (m @ [0]) q)" "class_ok (control_ok se)"
  "class_eff (control_eff se)" for q m se
proof (rule class_build_is_handler[where h = "\<lambda>tag. if se \<and> tag = 22 then Some (build_ta_control_info_se_info (m @ [0]) q)
    else if tag = CONFIGINFO_DEBUG_INFO se then Some (build_ta_control_info_debug_info se (m @ [0]) q) else None"])
  show "conf_handler q m (if se \<and> tag = 22 then Some (build_ta_control_info_se_info (m @ [0]) q)
    else if tag = CONFIGINFO_DEBUG_INFO se then Some (build_ta_control_info_debug_info se (m @ [0]) q) else None)
    (control_ok se tag) (control_eff se tag)" for tag
    by (simp add: control_ok_def control_eff_def debug_base_def
      se_h.conf_handler_axioms debug_h.conf_handler_axioms skip.conf_handler_axioms)
qed (simp add: build_ta_control_info_def debug_base_def)

definition config_eff :: "bool \<Rightarrow> u32 \<Rightarrow> conf_tree \<Rightarrow> config_info \<Rightarrow> u32 \<times> config_info" where
  "config_eff se tag = (if tag = 1 then class_eff basic_eff else if tag = 6 then class_eff mani_eff
    else if tag = 21 then class_eff (control_eff se) else skip_eff)"

definition config_ok :: "bool \<Rightarrow> u32 \<Rightarrow> conf_tree \<Rightarrow> bool" where
  "config_ok se tag = (if tag = 1 then class_ok basic_ok else if tag = 6 then class_ok (\<lambda>tag. is_leaf)
    else if tag = 21 then class_ok (control_ok se) else is_leaf)"

interpretation config_h: conf_handler q m "Some (build_ta_config se (m @ [0]) q)" "class_ok (config_ok se)"
  "class_eff (config_eff se)" for q m se
proof (rule class_build_is_handler[where h = "\<lambda>tag. if tag = 1 then Some (build_ta_basic_info (m @ [0]) q)
    else if tag = 6 then Some (build_ta_mani_info (m @ [0]) q)
    else if tag = 21 then Some (build_ta_control_info se (m @ [0]) q) else None"])
  show "conf_handler q m (if tag = 1 then Some (build_ta_basic_info (m @ [0]) q)
    else if tag = 6 then Some (build_ta_mani_info (m @ [0]) q)
    else if tag = 21 then Some (build_ta_control_info se (m @ [0]) q) else None) (config_ok se tag) (config_eff se tag)" for tag
    by (simp add: config_ok_def config_eff_def
      basic_h.conf_handler_axioms mani_h.conf_handler_axioms control_h.conf_handler_axioms skip.conf_handler_axioms)
qed (simp add: build_ta_config_def)


section \<open>Installing a configuration\<close>

lemma install_ta_config_visits:
  assumes "list_all (class_ok (config_ok se)) cs" "wf_conf [Conf_Class tag cs]" "queue cq = flats 0 [Conf_Class tag cs]"
  shows "install_ta_config se (encs [Conf_Class tag cs] @ [0]) cq obj =
    Some (fst (run_trees (class_eff (config_eff se)) cs zero_config), cq, snd (run_trees (class_eff (config_eff se)) cs zero_config))"
proof -
  let ?m = "encs [Conf_Class tag cs]" and ?q = "flats 0 [Conf_Class tag cs]"
  have s: "seg ?q 0 ?q" "seg ?m 0 ?m" by (simp_all add: seg_def)
  show ?thesis
    using config_h.walk_visits[OF assms(1,2) s, of zero_config]
    by (elim visitedE) (simp add: install_ta_config_def Let_def assms(3) del: flats.simps, simp)
qed

definition flag_tree :: "u32 \<Rightarrow> bool \<Rightarrow> conf_tree" where
  "flag_tree tag b = Conf_Class tag [Conf_Leaf (tag + 1) 1 [if b then 49 else 48]]"

definition u32_tree :: "u32 \<Rightarrow> u32 \<Rightarrow> conf_tree" where
  "u32_tree tag n = Conf_Class tag [Conf_Leaf (tag + 1) 2 (digits 10 10 (unat n))]"

definition config_name :: "config_info \<Rightarrow> u8 list" where
  "config_name c = take (unat (service_name_len c)) (service_name c)"

definition basic_trees :: "config_info \<Rightarrow> conf_tree list" where
  "basic_trees c = [Conf_Class 4 [Conf_Leaf 5 3 (uuid_str (cf_uuid c))], Conf_Class 2 [Conf_Leaf 3 3 (config_name c)]]"

definition mani_trees :: "ta_manifest_info \<Rightarrow> conf_tree list" where
  "mani_trees i = [flag_tree 7 (instance_keep_alive i), u32_tree 9 (stack_size i), u32_tree 11 (heap_size i),
    u32_tree 13 (target_type i), flag_tree 15 (multi_command i), flag_tree 17 (multi_session i), flag_tree 19 (single_instance i)]"

definition control_trees :: "bool \<Rightarrow> ta_control_info \<Rightarrow> conf_tree list" where
  "control_trees se i = (if se then [Conf_Class 22 [flag_tree 23 (se_permissions i \<noteq> 0)]] else []) @
    [Conf_Class (CONFIGINFO_DEBUG_INFO se) [flag_tree (CONFIGINFO_DEBUG_STATUS se) (debug_status i)]]"

definition config_tree :: "bool \<Rightarrow> config_info \<Rightarrow> conf_tree" where
  "config_tree se c = Conf_Class 0 [Conf_Class 1 (basic_trees c), Conf_Class 6 (mani_trees (manifest_info c)),
    Conf_Class 21 (control_trees se (control_info c))]"

text \<open>What elements can say about a configuration: everything else is as \<open>zero_config\<close> has it.\<close>

definition describable :: "bool \<Rightarrow> config_info \<Rightarrow> bool" where
  "describable se c \<longleftrightarrow> wf_uuid (cf_uuid c) \<and> 0 < unat (service_name_len c) \<and> unat (service_name_len c) < 40 \<and>
    service_name c = config_name c @ replicate (40 - unat (service_name_len c)) 0 \<and> length (service_name c) = 40 \<and>
    \<not> mem_page_align (manifest_info c) \<and> \<not> sys_verify_ta (manifest_info c) \<and>
    sfs_permissions (control_info c) = 0 \<and> cert_permissions (control_info c) = 0 \<and> ta_manager (control_info c) = 0 \<and>
    callee_info (control_info c) = [] \<and> \<not> valid_device (control_info c) \<and>
    (se_permissions (control_info c) = 0 \<or> se \<and> se_permissions (control_info c) = 1) \<and>
    cf_version c = 0 \<and> task_config_list c = []"

lemma flag_tree_eff: "class_eff (\<lambda>t. if t = tag then flag_eff (tag + 1) g else e t) (flag_tree tag b) obj = (TEE_SUCCESS, if b then g obj else obj)"
  by (simp add: flag_tree_def flag_eff_def value_is_true_def value_node_def rd_def)

lemma conf_u32_digits: "conf_u32 (digits 10 10 (unat n) @ [0]) 10 0 old = Some (TEE_SUCCESS, n)" for n :: u32
proof -
  have lt: "unat n < 10 ^ 10" "unat n < 2 ^ 64" using unat_lt_u32[of n] by auto
  have s: "seg (digits 10 10 (unat n) @ [0]) 0 (digits 10 10 (unat n))" by (rule seg_start)
  have 1: "rd_bytes (digits 10 10 (unat n) @ [0]) 0 10 = Some (digits 10 10 (unat n))"
    using rd_bytes_append[of "digits 10 10 (unat n)" 10 0 "[]" "[0]"] by simp
  have 2: "trans_str_to_int (digits 10 10 (unat n) @ [0]) 0 10 10 0 = Some (TEE_SUCCESS, of_nat (unat n))"
    by (rule trans_seg[OF s]) (use lt in auto)
  have "\<not> (of_nat (unat n) :: u64) > 0xFFFFFFFF"
    using unat_lt_u32[of n] by (simp add: word_less_nat_alt)
  then show ?thesis by (simp add: conf_u32_def 1 2)
qed

lemma u32_tree_run: "run_trees (u32_eff (tag + 1) get put) [Conf_Leaf (tag + 1) 2 (digits 10 10 (unat n))] obj = (TEE_SUCCESS, put n obj)"
  by (simp add: u32_eff_def value_node_def conf_u32_digits)


lemma class_eff_simps: "class_eff eff (flag_tree tag b) obj = norm_ret (run_trees (eff tag) [Conf_Leaf (tag + 1) 1 [if b then 49 else 48]] obj)"
  "class_eff eff (u32_tree tag n) obj = norm_ret (run_trees (eff tag) [Conf_Leaf (tag + 1) 2 (digits 10 10 (unat n))] obj)"
  by (simp_all add: flag_tree_def u32_tree_def)

lemma flag_run: "flag_eff tag g (Conf_Leaf tag y [if b then 49 else 48]) obj = (TEE_SUCCESS, if b then g obj else obj)"
  by (simp add: flag_eff_def value_is_true_def value_node_def rd_def)

lemma u32_run: "u32_eff tag get put (Conf_Leaf tag y (digits 10 10 (unat n))) obj = (TEE_SUCCESS, put n obj)"
  by (simp add: u32_eff_def value_node_def conf_u32_digits)

lemma mani_run:
  assumes "manifest_info obj = manifest_info zero_config" "\<not> mem_page_align i" "\<not> sys_verify_ta i"
  shows "run_trees (class_eff mani_eff) (mani_trees i) obj = (TEE_SUCCESS, obj\<lparr>manifest_info := i\<rparr>)"
proof -
  have "run_trees (class_eff mani_eff) (mani_trees i) obj = (TEE_SUCCESS,
      (let f = (\<lambda>b g c. if b then manifest_info_update g c else c) in
       f (single_instance i) (single_instance_update (\<lambda>_. True)) (f (multi_session i) (multi_session_update (\<lambda>_. True))
      (f (multi_command i) (multi_command_update (\<lambda>_. True)) (manifest_info_update (target_type_update (\<lambda>_. target_type i))
      (manifest_info_update (heap_size_update (\<lambda>_. heap_size i)) (manifest_info_update (stack_size_update (\<lambda>_. stack_size i))
      (f (instance_keep_alive i) (instance_keep_alive_update (\<lambda>_. True)) obj))))))))"
    by (simp add: mani_trees_def class_eff_simps mani_eff_def flag_run u32_run)
  also have "\<dots> = (TEE_SUCCESS, obj\<lparr>manifest_info := i\<rparr>)"
    using assms by (cases obj; cases i) (simp add: zero_config_def)
  finally show ?thesis .
qed

lemma control_run:
  assumes "control_info obj = control_info zero_config" "sfs_permissions i = 0" "cert_permissions i = 0" "ta_manager i = 0"
    "callee_info i = []" "\<not> valid_device i" "se_permissions i = 0 \<or> se \<and> se_permissions i = 1"
  shows "run_trees (class_eff (control_eff se)) (control_trees se i) obj = (TEE_SUCCESS, obj\<lparr>control_info := i\<rparr>)"
proof -
  have "run_trees (class_eff (control_eff se)) (control_trees se i) obj = (TEE_SUCCESS,
      (let f = (\<lambda>b g c. if b then control_info_update g c else c) in
       f (debug_status i) (debug_status_update (\<lambda>_. True))
      (f (se \<and> se_permissions i \<noteq> 0) (se_permissions_update (\<lambda>p. p OR 1)) obj)))"
    by (cases se) (simp_all add: control_trees_def class_eff_simps control_eff_def se_eff_def debug_eff_def debug_base_def flag_run)
  also have "\<dots> = (TEE_SUCCESS, obj\<lparr>control_info := i\<rparr>)"
    using assms(7,1-6) by (elim disjE conjE; cases obj; cases i) (simp_all add: zero_config_def)
  finally show ?thesis .
qed

lemma name_run:
  assumes "0 < length v" "length v < 40"
  shows "name_eff (Conf_Leaf 3 y v) obj = (TEE_SUCCESS, obj\<lparr>service_name := v @ 0 # drop (Suc (length v)) (service_name obj),
    service_name_len := of_nat (length v)\<rparr>)"
proof -
  have "v \<noteq> []" using assms by auto
  then have "rd_bytes (v @ [0]) 0 (length v) = Some v" using rd_bytes_append[of v "length v" 0 "[]" "[0]"] by simp
  then show ?thesis using assms by (simp add: name_eff_def handle_ta_basic_info_service_name_def value_node_def)
qed

lemma uuid_run: "wf_uuid u \<Longrightarrow> uuid_eff (Conf_Leaf 5 y (uuid_str u)) obj = (TEE_SUCCESS, obj\<lparr>cf_uuid := u\<rparr>)"
  using handle_uuid_text[of "uuid_str u" 0 u obj] by (simp add: uuid_eff_def value_node_def seg_def)


lemma length_config_name: "describable se c \<Longrightarrow> length (config_name c) = unat (service_name_len c)"
  by (simp add: describable_def config_name_def)

lemma config_run:
  assumes "describable se c"
  shows "run_trees (class_eff (config_eff se)) [Conf_Class 1 (basic_trees c), Conf_Class 6 (mani_trees (manifest_info c)),
    Conf_Class 21 (control_trees se (control_info c))] zero_config = (TEE_SUCCESS, c)"
proof -
  note d = assms[unfolded describable_def]
  note n = length_config_name[OF assms]
  let ?c1 = "zero_config\<lparr>cf_uuid := cf_uuid c, service_name := service_name c, service_name_len := service_name_len c\<rparr>"
  have z: "drop (Suc k) (service_name zero_config) = replicate (39 - k) 0" for k by (simp add: zero_config_def)
  have k: "unat (service_name_len c) < 40" using d by blast
  have r: "40 - unat (service_name_len c) = Suc (39 - unat (service_name_len c))" using k by arith
  have sn: "config_name c @ 0 # replicate (39 - unat (service_name_len c)) 0 = service_name c"
    using d[THEN conjunct2, THEN conjunct2, THEN conjunct2, THEN conjunct1] unfolding r replicate_Suc by simp
  have 1: "run_trees (class_eff basic_eff) (basic_trees c) zero_config = (TEE_SUCCESS, ?c1)"
    using d n by (simp add: basic_trees_def basic_eff_def uuid_run name_run z sn)
  have 2: "run_trees (class_eff mani_eff) (mani_trees (manifest_info c)) ?c1 = (TEE_SUCCESS, ?c1\<lparr>manifest_info := manifest_info c\<rparr>)"
    using d by (intro mani_run) auto
  have 3: "run_trees (class_eff (control_eff se)) (control_trees se (control_info c)) (?c1\<lparr>manifest_info := manifest_info c\<rparr>) =
      (TEE_SUCCESS, ?c1\<lparr>manifest_info := manifest_info c, control_info := control_info c\<rparr>)"
    using d by (subst control_run) auto
  have "?c1\<lparr>manifest_info := manifest_info c, control_info := control_info c\<rparr> = c"
    using d by (cases c) (simp add: zero_config_def)
  then show ?thesis by (simp add: config_eff_def 1 2 3)
qed

lemma config_good:
  assumes "describable se c"
  shows "list_all (class_ok (config_ok se)) [Conf_Class 1 (basic_trees c), Conf_Class 6 (mani_trees (manifest_info c)),
    Conf_Class 21 (control_trees se (control_info c))]"
  using assms by (auto simp: class_ok_def config_ok_def basic_trees_def basic_ok_def leaf_ok_def uuid_text_def describable_def
    mani_trees_def flag_tree_def u32_tree_def control_trees_def control_ok_def)

lemma length_parts:
  assumes "describable se c"
  shows "length (encs (basic_trees c)) = 68 + length (config_name c)" "length (encs (mani_trees i)) = 146"
    "length (encs (control_trees se k)) = (if se then 50 else 25)"
  by (simp_all add: basic_trees_def mani_trees_def control_trees_def flag_tree_def u32_tree_def)

lemma config_wf:
  assumes "describable se c"
  shows "wf_conf [config_tree se c]"
proof -
  have n: "length (config_name c) < 40" "config_name c \<noteq> []"
    using assms length_config_name[OF assms] by (auto simp: describable_def)
  have "wf_conf (basic_trees c)" using n by (auto simp: basic_trees_def)
  moreover have "wf_conf (mani_trees i)" for i by (simp add: mani_trees_def flag_tree_def u32_tree_def) 
  moreover have "wf_conf (control_trees se k)" for k
    by (simp add: control_trees_def flag_tree_def debug_base_def)
  ultimately show ?thesis
    using n length_parts[OF assms] by (simp add: config_tree_def basic_trees_def mani_trees_def control_trees_def)
qed


section \<open>Round trip and its limit\<close>

lemma install_config_tree:
  assumes "describable se c" "queue cq = flats 0 [config_tree se c]"
  shows "install_ta_config se (encs [config_tree se c] @ [0]) cq obj = Some (TEE_SUCCESS, cq, c)"
  using install_ta_config_visits[OF config_good[OF assms(1)] config_wf[OF assms(1), unfolded config_tree_def] assms(2)[unfolded config_tree_def]]
  unfolding config_tree_def by (simp only: config_run[OF assms(1)] fst_conv snd_conv)

lemma parse_config_tree:
  assumes "describable se c" "\<And>k. mal k" "post = [] \<or> post = [0]"
  shows "parse_dyn_conf mal (encs [config_tree se c] @ post) 0 (length (encs [config_tree se c])) 0 cq =
    Some (TEE_SUCCESS, pushed 0 [config_tree se c] cq)"
  using parse_dyn_conf_encs[OF config_wf[OF assms(1)], of "encs [config_tree se c] @ post" "[]" post 0 0 _ mal cq]
    length_encs_gt[OF _ config_wf[OF assms(1)]] assms(2) by simp

text \<open>
  C31: A configuration of an application that is written as elements is read back unchanged: the reader builds
  the queue of its elements and the builder installs every field from it, provided that a NUL byte follows the
  text in memory.
\<close>

theorem ta_config_roundtrip:
  assumes "describable se c" "\<And>k. mal k"
  shows "(do { (ret, cq) \<leftarrow> parse_dyn_conf mal (encs [config_tree se c] @ [0]) 0 (length (encs [config_tree se c])) 0 \<lparr>queue = [], mallocs = 0\<rparr>;
           (ret', cq, cfg) \<leftarrow> install_ta_config se (encs [config_tree se c] @ [0]) cq obj;
           Some (ret, ret', cfg) }) = Some (TEE_SUCCESS, TEE_SUCCESS, c)"
proof -
  let ?cq = "pushed 0 [config_tree se c] \<lparr>queue = [], mallocs = 0\<rparr>"
  have "queue ?cq = flats 0 [config_tree se c]" by (simp only: pushed_def) simp
  then show ?thesis
    using install_config_tree[OF assms(1)] parse_config_tree[OF assms, of "[0]"] by simp
qed

definition demo_config :: config_info where
  "demo_config = zero_config\<lparr>cf_uuid := TEE_SERVICE_REET, service_name := [100, 101, 109, 111] @ replicate 36 0, service_name_len := 4,
    manifest_info := (manifest_info zero_config)\<lparr>heap_size := 65536, stack_size := 4096, multi_session := True\<rparr>\<rparr>"

lemma demo_config_describable: "describable False demo_config"
  by (simp add: describable_def demo_config_def zero_config_def wf_uuid_def TEE_SERVICE_REET_def config_name_def)

theorem ta_config_roundtrip_witness:
  "\<exists>m. (do { (ret, cq) \<leftarrow> parse_dyn_conf (\<lambda>k. True) (m @ [0]) 0 (length m) 0 \<lparr>queue = [], mallocs = 0\<rparr>;
          (ret', cq, cfg) \<leftarrow> install_ta_config False (m @ [0]) cq zero_config;
          Some (ret, ret', cfg) }) = Some (TEE_SUCCESS, TEE_SUCCESS, demo_config)"
  by (rule exI, rule ta_config_roundtrip[OF demo_config_describable]) simp

lemma walk_None:
  assumes "node_at q pos = Some n" "\<not> node_invalid n" "node_at q (Suc pos) = Some n'" "\<not> node_invalid n'" "h (Suc pos) n' obj = None"
  shows "handle_conf_node_to_obj q (Some h) pos obj = None"
proof -
  have "get_next q pos = Suc pos" using assms(1) by (simp add: get_next_def node_at_def split: if_splits)
  moreover have "conf_loop q (Some h) k 0 (Suc pos) obj = None" for k
    by (subst conf_loop.simps) (simp add: assms)
  ultimately show ?thesis by (simp add: handle_conf_node_to_obj_def assms)
qed

fun no_nul :: "conf_tree list \<Rightarrow> bool" where
  "no_nul [] \<longleftrightarrow> True"
| "no_nul (Conf_Leaf tag type v # ts) \<longleftrightarrow> 0 \<notin> set v \<and> no_nul ts"
| "no_nul (Conf_Class tag cs # ts) \<longleftrightarrow> no_nul cs \<and> no_nul ts"

lemma digits_no_nul [simp]: "base = 10 \<or> base = 16 \<Longrightarrow> 0 \<notin> set (digits base k n)"
  using digits_are_digits(2)[of base 0 k n] by auto

lemma conf_hdr_no_nul: "0 \<notin> set (conf_hdr tag type n)"
  unfolding conf_hdr_def set_append using digits_no_nul by blast

lemma encs_no_nul: "no_nul ts \<Longrightarrow> 0 \<notin> set (encs ts)"
  by (induction ts rule: encs.induct) (auto simp: conf_hdr_no_nul)

lemma c_strlen_None: "0 \<notin> set m \<Longrightarrow> c_strlen m a = None"
proof -
  assume z: "0 \<notin> set m"
  have "\<forall>x \<in> set (drop a m). x \<noteq> 0" using z set_drop_subset[of a m] by auto
  then have t: "takeWhile (\<lambda>b. b \<noteq> 0) (drop a m) = drop a m" by (simp add: takeWhile_eq_all_conv)
  show ?thesis unfolding c_strlen_def Let_def t by simp
qed

lemma config_no_nul: "0 \<notin> set (config_name c) \<Longrightarrow> no_nul [config_tree se c]"
  by (simp add: config_tree_def basic_trees_def mani_trees_def control_trees_def flag_tree_def u32_tree_def uuid_str_not_0)

lemma first_child: "seg q pos (flats a [Conf_Class tag (t # ts)]) \<Longrightarrow> seg q (Suc pos) (flats (a + 8) [t])"
  unfolding flats.simps seg_Cons flats_Cons[of _ t ts] seg_append by simp

lemma sub_build_None: "handle_conf_node_to_obj q h pos obj = None \<Longrightarrow> sub_build q h pos obj = None"
  by (simp add: sub_build_def)

lemma walk_first_None:
  assumes "wf_conf [Conf_Class tag (t # ts)]" "seg q pos (flats a [Conf_Class tag (t # ts)])" "h (Suc pos) (q ! Suc pos) obj = None"
  shows "handle_conf_node_to_obj q (Some h) pos obj = None"
proof -
  have wf: "wf_conf [t]" using assms(1) wf_conf_Cons[of t ts] by simp
  show ?thesis
    by (rule walk_None[where n = "q ! pos" and n' = "q ! Suc pos"])
      (simp_all add: assms(3) node_at_def flats_hd[OF assms(1,2)] flats_hd[OF wf first_child[OF assms(2)]])
qed

lemma n_tag_class: "seg q pos (flats a [Conf_Class tag cs]) \<Longrightarrow> n_tag (q ! pos) = tag"
  by (simp add: seg_Cons)

lemma install_config_overread:
  assumes "describable se c" "0 \<notin> set (config_name c)" "queue cq = flats 0 [config_tree se c]"
  shows "install_ta_config se (encs [config_tree se c]) cq obj = None"
proof -
  let ?q = "flats 0 [config_tree se c]" and ?m = "encs [config_tree se c]"
  let ?leaf = "Conf_Leaf 5 3 (uuid_str (cf_uuid c))"
  note wf = config_wf[OF assms(1)]
  have wf1: "wf_conf [Conf_Class 1 (basic_trees c)]" and wf2: "wf_conf [Conf_Class 4 [?leaf]]"
    using wf unfolding config_tree_def basic_trees_def by auto
  have s0: "seg ?q 0 ?q" by (simp add: seg_def)
  have s1: "seg ?q 1 (flats 8 [Conf_Class 1 (basic_trees c)])"
    using first_child[OF s0[unfolded config_tree_def]] unfolding config_tree_def by simp
  have s2: "seg ?q 2 (flats 16 [Conf_Class 4 [?leaf]])"
    using first_child[OF s1[unfolded basic_trees_def]] by (simp add: numeral_2_eq_2)
  have s3: "seg ?q 3 (flats 24 [?leaf])" using first_child[OF s2] by simp
  have n3: "n_tag (?q ! 3) = 5" "n_size (?q ! 3) = 36" using s3 by (simp_all add: seg_Cons)
  have nul: "0 \<notin> set ?m" by (rule encs_no_nul[OF config_no_nul[OF assms(2)]])
  have "build_ta_basic_info_uuid ?m 3 (?q ! 3) obj = None" for obj
    using n3 by (simp add: build_ta_basic_info_uuid_def leaf_build_def handle_ta_basic_info_uuid_def tlv_to_uuid_def c_strlen_None[OF nul])
  then have "handle_conf_node_to_obj ?q (Some (build_ta_basic_info_uuid ?m)) 2 obj = None" for obj
    using walk_first_None[OF wf2 s2, of "build_ta_basic_info_uuid ?m"] by simp
  then have "build_ta_basic_info ?m ?q 2 (?q ! 2) obj = None" for obj
    using n_tag_class[OF s2] by (simp add: build_ta_basic_info_def sub_build_None)
  then have "handle_conf_node_to_obj ?q (Some (build_ta_basic_info ?m ?q)) 1 obj = None" for obj
    using walk_first_None[OF wf1[unfolded basic_trees_def] s1[unfolded basic_trees_def], of "build_ta_basic_info ?m ?q"]
    by (simp add: numeral_2_eq_2)
  then have "build_ta_config se ?m ?q 1 (?q ! 1) obj = None" for obj
    using n_tag_class[OF s1] by (simp add: build_ta_config_def sub_build_None)
  then have "handle_conf_node_to_obj ?q (Some (build_ta_config se ?m ?q)) 0 obj = None" for obj
    using walk_first_None[OF wf[unfolded config_tree_def] s0[unfolded config_tree_def], of "build_ta_config se ?m ?q"]
    unfolding config_tree_def by simp
  moreover have "?q \<noteq> []" by (rule flats_pos)
  ultimately show ?thesis by (simp add: install_ta_config_def Let_def assms(3))
qed

text \<open>
  C32.  Without a NUL byte behind the text, reading the UUID leaves the buffer: for every configuration that elements can describe,
  \<open>register_conf\<close> copies the text to a buffer of exactly its length and \<open>tlv_to_uuid\<close> calls \<open>strlen\<close> on it, which finds no NUL.
\<close>

theorem uuid_read_past_buffer:
  assumes "describable se c" "0 \<notin> set (config_name c)" "\<And>k. mal k"
  shows "register_conf mal (install_ta_config se) (encs [config_tree se c]) 0 (length (encs [config_tree se c])) obj = None"
proof -
  let ?m = "encs [config_tree se c]"
  have len: "length ?m < 65536 + 8" "0 < length ?m" using config_wf[OF assms(1)] by (auto simp: config_tree_def)
  have p: "parse_dyn_conf mal ?m 0 (length ?m) 0 cq = Some (TEE_SUCCESS, pushed 0 [config_tree se c] cq)" for cq
    using parse_config_tree[OF assms(1,3), of "[]"] by simp
  have "install_ta_config se ?m (pushed 0 [config_tree se c] \<lparr>queue = [], mallocs = Suc 0\<rparr>) obj = None"
    by (rule install_config_overread[OF assms(1,2)]) (simp only: pushed_def, simp)
  then show ?thesis using len assms(3) by (simp add: register_conf_def malloc_def rd_bytes_def p del: encs.simps)
qed

theorem uuid_read_past_buffer_witness:
  "\<exists>m. register_conf (\<lambda>k. True) (install_ta_config False) m 0 (length m) zero_config = None \<and> m \<noteq> []"
proof -
  have "0 \<notin> set (config_name demo_config)" by (simp add: config_name_def demo_config_def)
  from uuid_read_past_buffer[OF demo_config_describable this, of "\<lambda>k. True" zero_config] show ?thesis
    by (intro exI[of _ "encs [config_tree False demo_config]"]) (simp, simp add: config_tree_def conf_hdr_def)
qed

end
