(* ===== verification/Spec2Isabelle.thy ===== *)
theory Spec2Isabelle
  imports Dlist Drv_Index Session_Open Ta_Conf_Build
begin

text \<open>
  Verification of the TEE OS framework (\<open>tee_tee_os_framework\<close>).  The global task (\<open>framework/gtask\<close>) receives commands of
  the normal world and of trusted applications, loads and ages the services that implement the applications, maps the memory
  of commands and gives applications access to agents of the normal world.

  The theories, from the bottom:
    \<^item> \<open>Prelude\<close>: total correctness of functions that may have no result (\<open>okay\<close>), words, lists and bytes.
    \<^item> \<open>Dlist\<close> (\<open>dlist.h\<close>): the intrusive lists on a heap of \<open>prev\<close> and \<open>next\<close> fields, refined to sequences.  All other theories use
      the sequences.
    \<^item> \<open>Bitmap\<close> (\<open>tee_bitmap.c\<close>) and \<open>Drv_Index\<close> (\<open>drv_index_mgr.c\<close>): bitmaps as sets, and the allocation of numbers from them.
    \<^item> \<open>Tee_Defs\<close>, \<open>Smc_Queue\<close> (\<open>global_task.c\<close>): commands and the queue shared with the normal world.
    \<^item> \<open>Gtask_State\<close> (\<open>gtask_core.h\<close>, \<open>gtask_inner.h\<close>, \<open>gtask_msg.h\<close>): the state of the global task.  Sessions, services, agents and
      internal tasks live in stores from addresses; calls to code outside are answered by an environment from their history.
    \<^item> \<open>Task_Adaptor\<close> (\<open>task_adaptor/*.c\<close>): the internal tasks and the messages sent to them.
    \<^item> \<open>Tee_Task\<close> (\<open>tee_task.c\<close>): creating and deleting the processes and threads of applications.
    \<^item> \<open>Service_Manager\<close> (\<open>service_manager.c\<close>): registration, lookup, ageing and release of services.
    \<^item> \<open>Gtask_Adapt\<close> (\<open>gtask_adapt.c\<close>): messages to and from 32-bit and 64-bit applications.
    \<^item> \<open>Mem_Manager\<close> (\<open>mem_manager.c\<close>): parameters of commands, mapped memory and the mailbox.
    \<^item> \<open>Agent_Manager\<close> (\<open>agent_manager.c\<close>): registration, locks and buffers of agents.
    \<^item> \<open>Session_Manager\<close> (\<open>session_manager.c\<close>): opening and closing sessions; \<open>Session_Inv\<close> has the invariant of the global task,
      \<open>Session_Close\<close>, \<open>Session_Create\<close> and \<open>Session_Open\<close> show that closing and opening keep it.
    \<^item> \<open>C_Bytes\<close>: reading memory, C strings, \<open>strtoull\<close>, tokens, and the text form of UUIDs.
    \<^item> \<open>Dyn_Conf\<close> (\<open>libdynconfmgr/src/dyn_conf_dispatch_inf.c\<close>): the reader of configuration texts, with the bounds of what it reads;
      \<open>Dyn_Conf_Tree\<close> has the tree of elements that a text describes, shows that the reader yields its nodes in preorder, and
      gives the contract of the callbacks that walk the nodes.
    \<^item> \<open>Ta_Conf\<close> (\<open>libdynconfbuilder/src/ta_config_builder.c\<close>): building the configuration of an application from the nodes;
      \<open>Ta_Conf_Build\<close> shows that every callback meets the contract and that a configuration is read back as it was written.

  The configuration reader and its builders do not share state with the global task: the permission service and the loaders call them.

  An operation of the global task maps a state to \<open>Some\<close> result and state; \<open>None\<close> means that the C code would read a freed or
  NULL object, corrupt a list or not end.  The lemmas named \<open>\<dots>_okay\<close> show that this does not happen from states that
  satisfy the invariants, and what the operation changes.  The invariants are \<open>wf_services\<close> (services, sessions, indexes),
  \<open>wf_tasks\<close> (internal tasks), \<open>wf_agents\<close> (agents and their locks) and \<open>wf_links\<close> (sessions opened by other sessions);
  \<open>wf_gtask\<close> is their conjunction.  Loops that the C code bounds by a list are recursions over it;
  a loop that may not end is a \<open>partial_function\<close>, and when it ends is proved.

  Not modelled: logging; the kernel, IPC and memory mapping calls, which are answers of the environment; the loading of ELF images,
  the cryptographic libraries and the drivers, which the global task only calls; the storage, key and permission services, which
  run as tasks of their own; the driver manager and the builders of driver configurations, apart from its index allocator; the
  C wrappers of the trusted application interface, which forward calls to the services.
\<close>

end
